(* ===== verification/Prelude.thy ===== *)
theory Prelude
  imports Main "HOL-Library.Word" "HOL-Library.AList" "HOL-Library.Char_ord"
    "HOL-Library.List_Lexorder"
begin

text \<open>
  The prelude of the development: the names of the machine types, the Go values the
  components share (byte slices, maps, buffered channels used as counting semaphores) and
  the generic lemmas on them.

  \<^item> A Go \<^verbatim>\<open>string\<close> is a HOL \<open>string\<close>: both are finite sequences of 8-bit
    characters, compared bytewise and lexicographically.
  \<^item> A Go \<^verbatim>\<open>[]byte\<close> is a list of 8-bit words; a nil slice and an empty slice are the
    same value, since the code never distinguishes them.
  \<^item> A Go \<^verbatim>\<open>map\<close> is an association list with distinct keys. The order of the entries
    stands for the unspecified iteration order of the language.
  \<^item> A Go \<^verbatim>\<open>chan struct{}\<close> of capacity \<open>n\<close> that is only used through non-blocking
    sends and receives is the pair of its capacity and its current length.
\<close>

unbundle bit_operations_syntax

section \<open>Machine types\<close>

type_synonym byte = "8 word"
type_synonym bytes = "8 word list"
type_synonym u32 = "32 word"
type_synonym u64 = "64 word"
type_synonym ('k, 'v) table = "('k \<times> 'v) list"

named_theorems wf_intros \<open>preservation of well-formedness by the operations of the model\<close>
named_theorems model_defs \<open>definitions unfolded when a handler is evaluated\<close>

section \<open>Go maps\<close>

abbreviation map_get :: "('k, 'v) table \<Rightarrow> 'k \<Rightarrow> 'v option" where
  "map_get m k \<equiv> map_of m k"

abbreviation map_set :: "'k \<Rightarrow> 'v \<Rightarrow> ('k, 'v) table \<Rightarrow> ('k, 'v) table" where
  "map_set k v m \<equiv> AList.update k v m"

abbreviation map_delete :: "'k \<Rightarrow> ('k, 'v) table \<Rightarrow> ('k, 'v) table" where
  "map_delete k m \<equiv> AList.delete k m"

abbreviation map_wf :: "('k, 'v) table \<Rightarrow> bool" where
  "map_wf m \<equiv> distinct (map fst m)"

abbreviation map_keys :: "('k, 'v) table \<Rightarrow> 'k list" where
  "map_keys m \<equiv> map fst m"

abbreviation map_vals :: "('k, 'v) table \<Rightarrow> 'v list" where
  "map_vals m \<equiv> map snd m"

text \<open>
  The contract of a Go map, as the session tables, the registry and the revocation state
  use it: what a read returns after a write or a delete, and what a \<^verbatim>\<open>range\<close> loop visits.
\<close>

locale go_map =
  fixes get :: "'m \<Rightarrow> 'k \<Rightarrow> 'v option"
    and put :: "'k \<Rightarrow> 'v \<Rightarrow> 'm \<Rightarrow> 'm"
    and del :: "'k \<Rightarrow> 'm \<Rightarrow> 'm"
    and vals :: "'m \<Rightarrow> 'v list"
    and wf :: "'m \<Rightarrow> bool"
  assumes get_put: "get (put k v m) = (get m)(k \<mapsto> v)"
    and get_del: "get (del k m) = (get m)(k := None)"
    and set_vals: "wf m \<Longrightarrow> set (vals m) = ran (get m)"
    and wf_put: "wf m \<Longrightarrow> wf (put k v m)"
    and wf_del: "wf m \<Longrightarrow> wf (del k m)"
begin

text \<open>The \<^verbatim>\<open>take\<close> idiom of the session: a read followed by a delete of the same key.\<close>

lemma take_twice: "get (del k m) k = None"
  by (simp add: get_del)

lemma take_other: "k' \<noteq> k \<Longrightarrow> get (del k m) k' = get m k'"
  by (simp add: get_del)

lemma vals_put_subset: "wf m \<Longrightarrow> set (vals (put k v m)) \<subseteq> insert v (set (vals m))"
  by (simp add: set_vals wf_put get_put) (auto simp: ran_def split: if_splits)

lemma vals_del_subset: "wf m \<Longrightarrow> set (vals (del k m)) \<subseteq> set (vals m)"
  by (simp add: set_vals wf_del get_del) (auto simp: ran_def split: if_splits)

end

lemma ran_map_of_distinct: "map_wf m \<Longrightarrow> ran (map_of m) = set (map_vals m)"
  by (auto simp: ran_def intro: map_of_is_SomeI dest: map_of_SomeD) force

interpretation table_map: go_map map_of AList.update AList.delete "map snd" "\<lambda>m. distinct (map fst m)"
  by unfold_locales
    (simp_all add: update_conv' delete_conv' ran_map_of_distinct distinct_update distinct_delete
      del: list.set_map)

lemmas table_simps [simp] = table_map.get_put table_map.get_del

lemmas table_wf [simp, wf_intros] = table_map.wf_put table_map.wf_del

section \<open>Counting semaphores\<close>

text \<open>
  A \<^verbatim>\<open>chan struct{}\<close> used as a bounded budget. A \<^verbatim>\<open>select\<close> with a \<^verbatim>\<open>default\<close> branch never
  blocks: a send succeeds exactly when there is room, a receive exactly when there is an
  element.
\<close>

record gate =
  gate_cap :: nat
  gate_len :: nat

definition make_gate :: "int \<Rightarrow> gate" where
  "make_gate n = \<lparr>gate_cap = nat n, gate_len = 0\<rparr>"

definition gate_try_send :: "gate \<Rightarrow> gate \<times> bool" where
  "gate_try_send g = (if gate_len g < gate_cap g then (g\<lparr>gate_len := Suc (gate_len g)\<rparr>, True) else (g, False))"

definition gate_try_recv :: "gate \<Rightarrow> gate" where
  "gate_try_recv g = (if 0 < gate_len g then g\<lparr>gate_len := gate_len g - 1\<rparr> else g)"

text \<open>
  The contract both the router's and the session's \<^verbatim>\<open>acquire\<close>/\<^verbatim>\<open>release\<close> pairs promise:
  a bounded counter that refuses instead of blocking.
\<close>

locale slot_gate =
  fixes acquire :: "'g \<Rightarrow> 'g \<times> bool"
    and release :: "'g \<Rightarrow> 'g"
    and used :: "'g \<Rightarrow> nat"
    and cap :: "'g \<Rightarrow> nat"
  assumes acquire_ok: "acquire g = (g', True) \<Longrightarrow> used g < cap g \<and> used g' = Suc (used g)"
    and acquire_full: "acquire g = (g', False) \<Longrightarrow> g' = g \<and> cap g \<le> used g"
    and acquire_cap: "cap (fst (acquire g)) = cap g"
    and release_used: "used (release g) = used g - 1"
    and release_cap: "cap (release g) = cap g"
begin

lemma acquire_bounded: "used g \<le> cap g \<Longrightarrow> used (fst (acquire g)) \<le> cap (fst (acquire g))"
  using acquire_ok[of g] acquire_full[of g] acquire_cap[of g]
  by (cases "acquire g"; cases "snd (acquire g)") auto

lemma release_bounded: "used g \<le> cap g \<Longrightarrow> used (release g) \<le> cap (release g)"
  by (simp add: release_used release_cap)

lemma acquire_release: "acquire g = (g', True) \<Longrightarrow> used (release g') = used g"
  by (simp add: release_used acquire_ok)

lemma acquire_iff: "snd (acquire g) \<longleftrightarrow> used g < cap g"
  using acquire_ok[of g] acquire_full[of g] by (cases "acquire g"; cases "snd (acquire g)") auto

end

section \<open>Big-endian integers\<close>

text \<open>
  \<^verbatim>\<open>binary.BigEndian.PutUint64\<close>, \<^verbatim>\<open>PutUint32\<close>, \<^verbatim>\<open>Uint64\<close> and \<^verbatim>\<open>Uint32\<close> of the Go standard
  library: the most significant byte first.
\<close>

fun put_be :: "nat \<Rightarrow> 'a::len word \<Rightarrow> bytes" where
  "put_be 0 w = []"
| "put_be (Suc n) w = ucast (drop_bit (8 * n) w) # put_be n w"

definition get_be :: "bytes \<Rightarrow> 'a::len word" where
  "get_be bs = foldl (\<lambda>acc b. push_bit 8 acc OR ucast b) 0 bs"

lemma length_put_be [simp]: "length (put_be n w) = n"
  by (induction n) auto

lemma put_be_numeral:
  "put_be (numeral k) w = ucast (drop_bit (8 * pred_numeral k) w) # put_be (pred_numeral k) w"
  by (simp add: numeral_eq_Suc)

lemma foldl_put_be:
  fixes w :: "'a::len word"
  shows "foldl (\<lambda>acc b. push_bit 8 acc OR ucast b) acc (put_be n w)
    = push_bit (8 * n) acc OR take_bit (8 * n) w"
proof (induction n arbitrary: acc)
  case 0
  then show ?case by simp
next
  case (Suc n)
  have "push_bit (8 * n) (push_bit 8 acc OR ucast (ucast (drop_bit (8 * n) w) :: byte))
      OR take_bit (8 * n) w = push_bit (8 * Suc n) acc OR take_bit (8 * Suc n) w"
    by (rule bit_word_eqI) (auto simp: bit_simps add.commute)
  then show ?case using Suc.IH by simp
qed

lemma get_put_be:
  fixes w :: "'a::len word"
  assumes "LENGTH('a) \<le> 8 * n"
  shows "get_be (put_be n w) = w"
  using assms by (simp add: get_be_def foldl_put_be take_bit_word_eq_self)

lemma put_be_snoc: "put_be (Suc n) w = put_be n (drop_bit 8 w) @ [ucast w]"
  by (induction n) (auto simp: algebra_simps)

lemma get_be_snoc: "get_be (bs @ [b]) = push_bit 8 (get_be bs) OR ucast b"
  by (simp add: get_be_def)

lemma get_be_bound:
  "8 * length bs \<le> LENGTH('a) \<Longrightarrow> take_bit (8 * length bs) (get_be bs :: 'a::len word) = get_be bs"
proof (induction bs rule: rev_induct)
  case Nil
  then show ?case by (simp add: get_be_def)
next
  case (snoc b bs)
  then have IH: "take_bit (8 * length bs) (get_be bs :: 'a word) = get_be bs" by simp
  have low: "bit (get_be bs :: 'a word) n \<Longrightarrow> n < 8 * length bs" for n
    using arg_cong[OF IH, of "\<lambda>w. bit w n"] by (simp add: bit_simps)
  have "take_bit (8 * length (bs @ [b])) (push_bit 8 (get_be bs :: 'a word) OR ucast b)
      = push_bit 8 (get_be bs) OR ucast b"
    by (intro bit_word_eqI) (auto simp: bit_simps dest: low bit_imp_le_length)
  then show ?case by (simp only: get_be_snoc)
qed

lemma put_get_be:
  "8 * length bs \<le> LENGTH('a) \<Longrightarrow> put_be (length bs) (get_be bs :: 'a::len word) = bs"
proof (induction bs rule: rev_induct)
  case Nil
  then show ?case by simp
next
  case (snoc b bs)
  then have len: "8 * length bs + 8 \<le> LENGTH('a)" and
    IH: "put_be (length bs) (get_be bs :: 'a word) = bs" by auto
  have bnd: "take_bit (8 * length bs) (get_be bs :: 'a word) = get_be bs"
    using len by (intro get_be_bound) simp
  have low: "bit (get_be bs :: 'a word) n \<Longrightarrow> n < 8 * length bs" for n
    using arg_cong[OF bnd, of "\<lambda>w. bit w n"] by (simp add: bit_simps)
  have "drop_bit 8 (push_bit 8 (get_be bs :: 'a word) OR ucast b) = get_be bs"
    using len by (intro bit_word_eqI) (auto simp: bit_simps dest: low bit_imp_le_length)
  moreover have "ucast (push_bit 8 (get_be bs :: 'a word) OR ucast b) = b"
    using len by (intro bit_word_eqI) (auto simp: bit_simps)
  ultimately show ?case using IH
    by (simp del: put_be.simps drop_bit_or add: put_be_snoc get_be_snoc)
qed

end
