(* ===== verification/Go_Library.thy ===== *)
theory Go_Library
  imports Prelude
begin

text \<open>
  The pure functions of the Go standard library that the security code uses: hexadecimal text
  (\<^verbatim>\<open>encoding/hex\<close>), decimal text of integers (\<^verbatim>\<open>math/big\<close>), white space (\<^verbatim>\<open>strings.TrimSpace\<close>),
  host and port splitting and the loopback test (\<^verbatim>\<open>net\<close>). A string and a byte slice are converted
  into each other byte by byte.

  Instants are integers: the nanoseconds since the zero \<^verbatim>\<open>time.Time\<close>, so that \<^verbatim>\<open>IsZero\<close> is equality
  with 0 and \<^verbatim>\<open>Before\<close> and \<^verbatim>\<open>After\<close> are the orders of the integers.
\<close>

type_synonym instant = int

abbreviation (input) time_second :: instant where "time_second \<equiv> 1000000000"
abbreviation (input) time_minute :: instant where "time_minute \<equiv> 60000000000"

section \<open>Strings as bytes\<close>

definition char_byte :: "char \<Rightarrow> byte" where
  "char_byte c = of_nat (of_char c)"

definition string_bytes :: "string \<Rightarrow> bytes" where
  "string_bytes s = map char_byte s"

lemma unat_char_byte [simp]: "unat (char_byte c) = of_char c"
proof -
  have "(of_char c :: nat) < 256" by simp
  then show ?thesis by (simp only: char_byte_def unat_of_nat) simp
qed

lemma char_byte_eq [simp]: "char_byte c = char_byte d \<longleftrightarrow> c = d"
  by (metis unat_char_byte of_char_eq_iff)

lemma string_bytes_eq [simp]: "string_bytes s = string_bytes t \<longleftrightarrow> s = t"
  unfolding string_bytes_def by (rule inj_map_eq_map) (simp add: inj_def)

lemma string_bytes_append [simp]: "string_bytes (s @ t) = string_bytes s @ string_bytes t"
  by (simp add: string_bytes_def)

lemma length_string_bytes [simp]: "length (string_bytes s) = length s"
  by (simp add: string_bytes_def)

section \<open>Hexadecimal text\<close>

definition hex_alphabet :: string where
  "hex_alphabet = ''0123456789abcdef''"

fun hex_EncodeToString :: "bytes \<Rightarrow> string" where
  "hex_EncodeToString [] = []"
| "hex_EncodeToString (b # bs) =
    hex_alphabet ! (unat b div 16) # hex_alphabet ! (unat b mod 16) # hex_EncodeToString bs"

definition fromHexChar :: "char \<Rightarrow> nat option" where
  "fromHexChar c =
    (if CHR ''0'' \<le> c \<and> c \<le> CHR ''9'' then Some (of_char c - of_char (CHR ''0''))
     else if CHR ''a'' \<le> c \<and> c \<le> CHR ''f'' then Some (of_char c - of_char (CHR ''a'') + 10)
     else if CHR ''A'' \<le> c \<and> c \<le> CHR ''F'' then Some (of_char c - of_char (CHR ''A'') + 10)
     else None)"

fun hex_DecodeString :: "string \<Rightarrow> bytes option" where
  "hex_DecodeString [] = Some []"
| "hex_DecodeString [c] = None"
| "hex_DecodeString (c # d # s) =
    (case (fromHexChar c, fromHexChar d, hex_DecodeString s) of
       (Some a, Some b, Some bs) \<Rightarrow> Some (of_nat (16 * a + b) # bs)
     | _ \<Rightarrow> None)"

lemma length_hex_Encode [simp]: "length (hex_EncodeToString bs) = 2 * length bs"
  by (induction bs) auto

lemma fromHexChar_alphabet: "n < 16 \<Longrightarrow> fromHexChar (hex_alphabet ! n) = Some n"
proof -
  assume "n < 16"
  then have "n \<in> set [0..<16]" by simp
  moreover have "list_all (\<lambda>n. fromHexChar (hex_alphabet ! n) = Some n) [0..<16]" by code_simp
  ultimately show ?thesis by (simp only: list_all_iff)
qed

lemma hex_roundtrip [simp]: "hex_DecodeString (hex_EncodeToString bs) = Some bs"
proof (induction bs)
  case (Cons b bs)
  have "unat b < 256" using unsigned_less[of b] by simp
  then have "unat b div 16 < 16" by simp
  moreover have "of_nat (16 * (unat b div 16) + unat b mod 16) = b"
    by (simp only: mult_div_mod_eq) simp
  ultimately show ?case using Cons
    by (simp add: fromHexChar_alphabet del: of_nat_add of_nat_mult)
qed simp

lemma hex_Encode_eq [simp]: "hex_EncodeToString bs = hex_EncodeToString cs \<longleftrightarrow> bs = cs"
  by (metis hex_roundtrip option.inject)

section \<open>Decimal text\<close>

definition digit_char :: "nat \<Rightarrow> char" where
  "digit_char d = char_of (48 + d)"

fun nat_String :: "nat \<Rightarrow> string" where
  "nat_String n = (if n < 10 then [digit_char n] else nat_String (n div 10) @ [digit_char (n mod 10)])"

declare nat_String.simps [simp del]

definition big_String :: "int \<Rightarrow> string" where
  "big_String i = (if i < 0 then CHR ''-'' # nat_String (nat (- i)) else nat_String (nat i))"

definition digit_value :: "char \<Rightarrow> nat option" where
  "digit_value c = (if CHR ''0'' \<le> c \<and> c \<le> CHR ''9'' then Some (of_char c - 48) else None)"

fun scan_digits :: "nat \<Rightarrow> string \<Rightarrow> nat option" where
  "scan_digits acc [] = Some acc"
| "scan_digits acc (c # s) =
    (case digit_value c of None \<Rightarrow> None | Some d \<Rightarrow> scan_digits (10 * acc + d) s)"

definition scan_nat :: "string \<Rightarrow> nat option" where
  "scan_nat s = (if s = [] then None else scan_digits 0 s)"

text \<open>
  \<^verbatim>\<open>new(big.Int).SetString(s, 10)\<close>: an optional sign followed by at least one decimal digit and
  nothing else.
\<close>

definition big_SetString :: "string \<Rightarrow> int option" where
  "big_SetString s =
    (case s of
       [] \<Rightarrow> None
     | c # r \<Rightarrow>
         if c = CHR ''-'' then map_option (\<lambda>n. - int n) (scan_nat r)
         else if c = CHR ''+'' then map_option int (scan_nat r)
         else map_option int (scan_nat s))"

lemma digit_value_char [simp]: "d < 10 \<Longrightarrow> digit_value (digit_char d) = Some d"
proof -
  assume "d < 10"
  then have "d \<in> set [0..<10]" by simp
  moreover have "list_all (\<lambda>d. digit_value (digit_char d) = Some d) [0..<10]" by code_simp
  ultimately show ?thesis by (simp only: list_all_iff)
qed

lemma scan_digits_append:
  "scan_digits acc (s @ t) = (case scan_digits acc s of None \<Rightarrow> None | Some a \<Rightarrow> scan_digits a t)"
  by (induction s arbitrary: acc) (auto split: option.splits)

lemma nat_String_nonempty [simp]: "nat_String n \<noteq> []"
  by (subst nat_String.simps) simp

lemma scan_nat_String: "scan_digits 0 (nat_String n) = Some n"
proof (induction n rule: nat_String.induct)
  case (1 n)
  then show ?case
    by (subst nat_String.simps) (auto simp: scan_digits_append)
qed

lemma digit_value_Some: "digit_value c = Some d \<Longrightarrow> c \<noteq> CHR ''-'' \<and> c \<noteq> CHR ''+'' \<and> c \<noteq> CHR 0x00 \<and> c \<noteq> CHR 0xFF"
  by (auto simp: digit_value_def less_eq_char_def split: if_splits)

lemma scan_digits_digits: "scan_digits acc s = Some n \<Longrightarrow> c \<in> set s \<Longrightarrow> digit_value c \<noteq> None"
  by (induction s arbitrary: acc) (auto split: option.splits)

lemma big_roundtrip [simp]: "big_SetString (big_String i) = Some i"
proof -
  have head: "c \<noteq> CHR ''-'' \<and> c \<noteq> CHR ''+''" if "nat_String n = c # r" for n c r
    using scan_nat_String[of n] that by (auto split: option.splits dest: digit_value_Some)
  show ?thesis
  proof (cases "i < 0")
    case True
    then show ?thesis by (simp add: big_String_def big_SetString_def scan_nat_def scan_nat_String)
  next
    case False
    obtain c r where c: "nat_String (nat i) = c # r"
      using nat_String_nonempty by (cases "nat_String (nat i)") auto
    have "scan_nat (c # r) = Some (nat i)"
      using scan_nat_String[of "nat i"] by (simp add: scan_nat_def c)
    then show ?thesis using False head[OF c] by (simp add: big_String_def big_SetString_def c)
  qed
qed

lemma big_String_eq [simp]: "big_String i = big_String j \<longleftrightarrow> i = j"
  by (metis big_roundtrip option.inject)

text \<open>The text of a number never contains the two separator bytes of the checkpoint encoding.\<close>

lemma big_SetString_chars:
  assumes "big_SetString s = Some n"
  shows "CHR 0x00 \<notin> set s" "CHR 0xFF \<notin> set s"
proof -
  have digits: "digit_value c \<noteq> None" if "scan_nat r = Some m" "c \<in> set r" for r m c
    using that scan_digits_digits[of 0 r m] by (simp add: scan_nat_def split: if_splits)
  have "\<exists>r m. set s \<subseteq> {CHR ''-'', CHR ''+''} \<union> set r \<and> scan_nat r = Some m"
  proof (cases s)
    case Nil
    then show ?thesis using assms by (simp add: big_SetString_def)
  next
    case (Cons c t)
    then have "(c = CHR ''-'' \<or> c = CHR ''+'') \<and> (\<exists>m. scan_nat t = Some m) \<or> (\<exists>m. scan_nat s = Some m)"
      using assms by (auto simp: big_SetString_def split: if_splits)
    then show ?thesis using Cons by (metis Un_iff insert_iff list.simps(15) subsetI)
  qed
  then obtain r m where r: "set s \<subseteq> {CHR ''-'', CHR ''+''} \<union> set r" "scan_nat r = Some m" by blast
  have "c \<noteq> CHR 0x00 \<and> c \<noteq> CHR 0xFF" if "c \<in> set s" for c
  proof (cases "c \<in> set r")
    case True
    then show ?thesis using digits[OF r(2)] digit_value_Some by blast
  next
    case False
    then have "c = CHR ''-'' \<or> c = CHR ''+''" using r(1) that by blast
    then show ?thesis by auto
  qed
  then show "CHR 0x00 \<notin> set s" "CHR 0xFF \<notin> set s" by blast+
qed

section \<open>White space\<close>

text \<open>
  The UTF-8 encodings of the code points \<^verbatim>\<open>unicode.IsSpace\<close> accepts. No encoding is a proper
  prefix or suffix of another, and no lead byte is a continuation byte, so that stripping
  whole encodings from either end is what \<^verbatim>\<open>strings.TrimSpace\<close> does rune by rune.
\<close>

definition white_space :: "string list" where
  "white_space =
    [''\<newline>'', '' '', [CHR 0x09], [CHR 0x0B], [CHR 0x0C], [CHR 0x0D],
     [CHR 0xC2, CHR 0x85], [CHR 0xC2, CHR 0xA0], [CHR 0xE1, CHR 0x9A, CHR 0x80],
     [CHR 0xE2, CHR 0x80, CHR 0x80], [CHR 0xE2, CHR 0x80, CHR 0x81], [CHR 0xE2, CHR 0x80, CHR 0x82],
     [CHR 0xE2, CHR 0x80, CHR 0x83], [CHR 0xE2, CHR 0x80, CHR 0x84], [CHR 0xE2, CHR 0x80, CHR 0x85],
     [CHR 0xE2, CHR 0x80, CHR 0x86], [CHR 0xE2, CHR 0x80, CHR 0x87], [CHR 0xE2, CHR 0x80, CHR 0x88],
     [CHR 0xE2, CHR 0x80, CHR 0x89], [CHR 0xE2, CHR 0x80, CHR 0x8A], [CHR 0xE2, CHR 0x80, CHR 0xA8],
     [CHR 0xE2, CHR 0x80, CHR 0xA9], [CHR 0xE2, CHR 0x80, CHR 0xAF], [CHR 0xE2, CHR 0x81, CHR 0x9F],
     [CHR 0xE3, CHR 0x80, CHR 0x80]]"

definition strings_HasPrefix :: "string \<Rightarrow> string \<Rightarrow> bool" where
  "strings_HasPrefix s p \<longleftrightarrow> take (length p) s = p"

function trim_left :: "string list \<Rightarrow> string \<Rightarrow> string" where
  "trim_left ws s =
    (case find (\<lambda>w. w \<noteq> [] \<and> strings_HasPrefix s w) ws of
       None \<Rightarrow> s
     | Some w \<Rightarrow> trim_left ws (drop (length w) s))"
  by pat_completeness auto
termination
  by (relation "measure (length \<circ> snd)")
    (auto simp: find_Some_iff strings_HasPrefix_def intro!: diff_less gr0I)

declare trim_left.simps [simp del]

definition strings_TrimSpace :: "string \<Rightarrow> string" where
  "strings_TrimSpace s = rev (trim_left (map rev white_space) (rev (trim_left white_space s)))"

lemma trim_left_suffix: "\<exists>u. s = u @ trim_left ws s"
proof (induction ws s rule: trim_left.induct)
  case (1 ws s)
  show ?case
  proof (cases "find (\<lambda>w. w \<noteq> [] \<and> strings_HasPrefix s w) ws")
    case None
    then show ?thesis by (subst trim_left.simps) simp
  next
    case (Some w)
    then obtain u where "drop (length w) s = u @ trim_left ws (drop (length w) s)" using 1 by blast
    then have "s = (take (length w) s @ u) @ trim_left ws (drop (length w) s)"
      by (metis append.assoc append_take_drop_id)
    then show ?thesis using Some by (subst trim_left.simps) (metis option.simps(5))
  qed
qed

lemma TrimSpace_infix: "\<exists>u v. s = u @ strings_TrimSpace s @ v"
proof -
  obtain u where u: "s = u @ trim_left white_space s" using trim_left_suffix by blast
  obtain v where "rev (trim_left white_space s)
      = v @ trim_left (map rev white_space) (rev (trim_left white_space s))"
    using trim_left_suffix by blast
  then have "trim_left white_space s = strings_TrimSpace s @ rev v"
    unfolding strings_TrimSpace_def by (metis rev_append rev_rev_ident)
  then show ?thesis using u by metis
qed

lemma TrimSpace_nonempty: "strings_TrimSpace s \<noteq> [] \<Longrightarrow> s \<noteq> []"
  using TrimSpace_infix[of s] by auto

section \<open>Network addresses\<close>

text \<open>\<^verbatim>\<open>bytealg.IndexByteString\<close> and \<^verbatim>\<open>LastIndexByteString\<close>; \<^term>\<open>None\<close> is the index \<open>-1\<close>.\<close>

definition index_byte :: "char \<Rightarrow> string \<Rightarrow> nat option" where
  "index_byte c s =
    (let i = length (takeWhile (\<lambda>x. x \<noteq> c) s) in if i < length s then Some i else None)"

definition last_index :: "char \<Rightarrow> string \<Rightarrow> nat option" where
  "last_index c s = map_option (\<lambda>i. length s - 1 - i) (index_byte c (rev s))"

definition split_rest :: "string \<Rightarrow> nat \<Rightarrow> nat \<Rightarrow> nat \<Rightarrow> string \<Rightarrow> (string \<times> string) option" where
  "split_rest hostport i j k host =
    (if index_byte (CHR ''['') (drop j hostport) \<noteq> None then None
     else if index_byte (CHR '']'') (drop k hostport) \<noteq> None then None
     else Some (host, drop (Suc i) hostport))"

text \<open>\<^verbatim>\<open>net.SplitHostPort\<close>; the caller only asks whether there was an error.\<close>

definition net_SplitHostPort :: "string \<Rightarrow> (string \<times> string) option" where
  "net_SplitHostPort hostport =
    (case last_index (CHR '':'') hostport of
       None \<Rightarrow> None
     | Some i \<Rightarrow>
         if hostport ! 0 = CHR ''[''
         then (case index_byte (CHR '']'') hostport of
                 None \<Rightarrow> None
               | Some e \<Rightarrow>
                   if Suc e \<noteq> i then None
                   else split_rest hostport i 1 (Suc e) (drop 1 (take e hostport)))
         else if index_byte (CHR '':'') (take i hostport) \<noteq> None then None
         else split_rest hostport i 0 0 (take i hostport))"

text \<open>An IP address is its 4 or 16 bytes; \<^verbatim>\<open>To4\<close> also recognises the mapped form.\<close>

type_synonym IP = bytes

definition IP_To4 :: "IP \<Rightarrow> IP option" where
  "IP_To4 ip =
    (if length ip = 4 then Some ip
     else if length ip = 16 \<and> take 12 ip = replicate 10 0 @ [0xFF, 0xFF] then Some (drop 12 ip)
     else None)"

definition IP_IsLoopback :: "IP \<Rightarrow> bool" where
  "IP_IsLoopback ip =
    (case IP_To4 ip of
       Some ip4 \<Rightarrow> ip4 ! 0 = 127
     | None \<Rightarrow> ip = replicate 15 0 @ [1])"

end
