(* ===== verification/Peer_Domain.thy ===== *)
theory Peer_Domain
  imports Prelude
begin

text \<open>
  The transport-neutral model of \<^verbatim>\<open>src/domain/peer\<close>: identities, calls, results, limits
  and their defaults (\<^verbatim>\<open>peer.go\<close>), the error values and the failure taxonomy carriers put on
  the wire (\<^verbatim>\<open>status.go\<close>), and the default policy (\<^verbatim>\<open>authorizer.go\<close>).

  The Go \<^verbatim>\<open>error\<close> interface is a tree: a sentinel value, an anonymous value made by
  \<^verbatim>\<open>errors.New\<close>, a value that wraps another one (\<^verbatim>\<open>fmt.Errorf\<close> with a \<^verbatim>\<open>%w\<close> verb), a join of
  several, or a value of a consumer's own type whose \<^verbatim>\<open>Is\<close> method answers for itself.
  A nil error is \<^term>\<open>None\<close>.
\<close>

section \<open>Errors\<close>

datatype sentinel =
    ErrMethodNotFound
  | ErrDuplicateMethod
  | ErrInvalidRegistration
  | ErrOverloaded
  | ErrMessageTooLarge
  | ErrSendQueueFull
  | ErrStreamClosed
  | ErrUnauthorized
  | ErrInvalidRequest
  | ErrProtocolViolation
  | ErrInternal
  | ErrUnavailable
  | ErrConnectionClosed
  | ErrDeadlineExceeded
  | ErrCanceled
  | IoEOF
  | IoErrUnexpectedEOF
  | IoErrShortWrite
  | NetErrClosed

datatype go_error =
    Sentinel sentinel
  | Plain string
  | Wrap string go_error
  | Join "go_error list"
  | Custom string "sentinel list"

text \<open>\<^verbatim>\<open>errors.Is\<close> of the standard library, on the tree.\<close>

fun errors_Is :: "go_error \<Rightarrow> sentinel \<Rightarrow> bool" where
  "errors_Is (Sentinel s) t = (s = t)"
| "errors_Is (Plain m) t = False"
| "errors_Is (Wrap m e) t = errors_Is e t"
| "errors_Is (Join es) t = list_ex (\<lambda>e. errors_Is e t) es"
| "errors_Is (Custom m ts) t = (t \<in> set ts)"

definition err_is :: "go_error option \<Rightarrow> sentinel \<Rightarrow> bool" where
  "err_is e t = (case e of None \<Rightarrow> False | Some x \<Rightarrow> errors_Is x t)"

lemma err_is_simps [simp]:
  "err_is None t = False"
  "err_is (Some x) t = errors_Is x t"
  by (simp_all add: err_is_def)

section \<open>Identities, calls and messages\<close>

record PeerIdentity =
  URI :: string

abbreviation no_identity :: PeerIdentity where
  "no_identity \<equiv> \<lparr>URI = []\<rparr>"

record Call =
  Call_Method :: string
  Call_Payload :: bytes
  Call_From :: PeerIdentity

record Result =
  Result_Payload :: bytes

record Message =
  Message_Payload :: bytes

section \<open>Limits\<close>

record Limits =
  MaxMessageBytes :: int
  MaxStreamMessageBytes :: int
  MaxConcurrentCalls :: int
  MaxConcurrentStreams :: int
  MaxStreamQueueDepth :: int

definition DefaultLimits :: Limits where
  "DefaultLimits = \<lparr>
     MaxMessageBytes = push_bit 20 4,
     MaxStreamMessageBytes = push_bit 20 1,
     MaxConcurrentCalls = 64,
     MaxConcurrentStreams = 32,
     MaxStreamQueueDepth = 64\<rparr>"

definition WithDefaults :: "Limits \<Rightarrow> Limits" where
  "WithDefaults limits = (let defaults = DefaultLimits in \<lparr>
     MaxMessageBytes =
       (if MaxMessageBytes limits \<le> 0 then MaxMessageBytes defaults else MaxMessageBytes limits),
     MaxStreamMessageBytes =
       (if MaxStreamMessageBytes limits \<le> 0 then MaxStreamMessageBytes defaults
        else MaxStreamMessageBytes limits),
     MaxConcurrentCalls =
       (if MaxConcurrentCalls limits \<le> 0 then MaxConcurrentCalls defaults
        else MaxConcurrentCalls limits),
     MaxConcurrentStreams =
       (if MaxConcurrentStreams limits \<le> 0 then MaxConcurrentStreams defaults
        else MaxConcurrentStreams limits),
     MaxStreamQueueDepth =
       (if MaxStreamQueueDepth limits \<le> 0 then MaxStreamQueueDepth defaults
        else MaxStreamQueueDepth limits)\<rparr>)"

definition limits_effective :: "Limits \<Rightarrow> bool" where
  "limits_effective l \<longleftrightarrow> 0 < MaxMessageBytes l \<and> 0 < MaxStreamMessageBytes l \<and>
     0 < MaxConcurrentCalls l \<and> 0 < MaxConcurrentStreams l \<and> 0 < MaxStreamQueueDepth l"

section \<open>The authorization port\<close>

text \<open>
  An authorizer is consumer code: it allows, denies with an error of its choice, or panics.
  The router recovers from the panic, so it is an outcome of the model.
\<close>

datatype auth_decision = Allow | Deny go_error | AuthPanic

record authorizer =
  AuthorizeCall :: "PeerIdentity \<Rightarrow> string \<Rightarrow> auth_decision"
  AuthorizeStream :: "PeerIdentity \<Rightarrow> string \<Rightarrow> auth_decision"

definition AllowAll :: authorizer where
  "AllowAll = \<lparr>AuthorizeCall = (\<lambda>_ _. Allow), AuthorizeStream = (\<lambda>_ _. Allow)\<rparr>"

section \<open>The failure taxonomy\<close>

type_synonym StatusCode = "8 word"

abbreviation (input) StatusOK :: StatusCode where "StatusOK \<equiv> 0"
abbreviation (input) StatusMethodNotFound :: StatusCode where "StatusMethodNotFound \<equiv> 1"
abbreviation (input) StatusUnauthorized :: StatusCode where "StatusUnauthorized \<equiv> 2"
abbreviation (input) StatusOverloaded :: StatusCode where "StatusOverloaded \<equiv> 3"
abbreviation (input) StatusMessageTooLarge :: StatusCode where "StatusMessageTooLarge \<equiv> 4"
abbreviation (input) StatusInvalidRequest :: StatusCode where "StatusInvalidRequest \<equiv> 5"
abbreviation (input) StatusProtocolViolation :: StatusCode where "StatusProtocolViolation \<equiv> 6"
abbreviation (input) StatusInternal :: StatusCode where "StatusInternal \<equiv> 7"
abbreviation (input) StatusUnavailable :: StatusCode where "StatusUnavailable \<equiv> 8"
abbreviation (input) StatusDeadlineExceeded :: StatusCode where "StatusDeadlineExceeded \<equiv> 9"
abbreviation (input) StatusCanceled :: StatusCode where "StatusCanceled \<equiv> 10"
abbreviation (input) StatusConnectionClosed :: StatusCode where "StatusConnectionClosed \<equiv> 11"

definition StatusCode_String :: "StatusCode \<Rightarrow> string" where
  "StatusCode_String code =
    (if code = StatusOK then ''ok''
     else if code = StatusMethodNotFound then ''method-not-found''
     else if code = StatusUnauthorized then ''unauthorized''
     else if code = StatusOverloaded then ''overloaded''
     else if code = StatusMessageTooLarge then ''message-too-large''
     else if code = StatusInvalidRequest then ''invalid-request''
     else if code = StatusProtocolViolation then ''protocol-violation''
     else if code = StatusInternal then ''internal''
     else if code = StatusUnavailable then ''unavailable''
     else if code = StatusDeadlineExceeded then ''deadline-exceeded''
     else if code = StatusCanceled then ''canceled''
     else if code = StatusConnectionClosed then ''connection-closed''
     else ''unknown'')"

definition StatusCode_Err :: "StatusCode \<Rightarrow> go_error option" where
  "StatusCode_Err code =
    (if code = StatusOK then None
     else Some (Sentinel
       (if code = StatusMethodNotFound then ErrMethodNotFound
        else if code = StatusUnauthorized then ErrUnauthorized
        else if code = StatusOverloaded then ErrOverloaded
        else if code = StatusMessageTooLarge then ErrMessageTooLarge
        else if code = StatusInvalidRequest then ErrInvalidRequest
        else if code = StatusProtocolViolation then ErrProtocolViolation
        else if code = StatusInternal then ErrInternal
        else if code = StatusUnavailable then ErrUnavailable
        else if code = StatusDeadlineExceeded then ErrDeadlineExceeded
        else if code = StatusCanceled then ErrCanceled
        else if code = StatusConnectionClosed then ErrConnectionClosed
        else ErrProtocolViolation)))"

definition StatusOf :: "go_error option \<Rightarrow> StatusCode" where
  "StatusOf err =
    (if err = None then StatusOK
     else if err_is err ErrMethodNotFound then StatusMethodNotFound
     else if err_is err ErrUnauthorized then StatusUnauthorized
     else if err_is err ErrOverloaded \<or> err_is err ErrSendQueueFull then StatusOverloaded
     else if err_is err ErrMessageTooLarge then StatusMessageTooLarge
     else if err_is err ErrInvalidRequest then StatusInvalidRequest
     else if err_is err ErrProtocolViolation then StatusProtocolViolation
     else if err_is err ErrUnavailable then StatusUnavailable
     else if err_is err ErrConnectionClosed then StatusConnectionClosed
     else if err_is err ErrDeadlineExceeded then StatusDeadlineExceeded
     else if err_is err ErrCanceled then StatusCanceled
     else StatusInternal)"

section \<open>Properties\<close>

lemma WithDefaults_effective: "limits_effective (WithDefaults l)"
  by (simp add: limits_effective_def WithDefaults_def DefaultLimits_def push_bit_eq_mult Let_def)

lemma WithDefaults_id: "limits_effective l \<Longrightarrow> WithDefaults l = l"
  by (cases l) (auto simp: limits_effective_def WithDefaults_def Let_def)

text \<open>
  Resolving limits yields limits whose every field is positive, keeps every field that
  was positive, and is idempotent: resolving them again (as the facade, the carrier, the
  router and the session each do) changes nothing.
\<close>

theorem WithDefaults_resolves:
  "limits_effective (WithDefaults l)
   \<and> WithDefaults (WithDefaults l) = WithDefaults l
   \<and> MaxMessageBytes (WithDefaults l)
       = (if 0 < MaxMessageBytes l then MaxMessageBytes l else 4194304)
   \<and> MaxStreamMessageBytes (WithDefaults l)
       = (if 0 < MaxStreamMessageBytes l then MaxStreamMessageBytes l else 1048576)
   \<and> MaxConcurrentCalls (WithDefaults l)
       = (if 0 < MaxConcurrentCalls l then MaxConcurrentCalls l else 64)
   \<and> MaxConcurrentStreams (WithDefaults l)
       = (if 0 < MaxConcurrentStreams l then MaxConcurrentStreams l else 32)
   \<and> MaxStreamQueueDepth (WithDefaults l)
       = (if 0 < MaxStreamQueueDepth l then MaxStreamQueueDepth l else 64)"
  using WithDefaults_effective[of l] WithDefaults_id[OF WithDefaults_effective]
  by (auto simp: WithDefaults_def DefaultLimits_def push_bit_eq_mult Let_def)

lemma status_code_cases:
  fixes c :: StatusCode
  assumes "c \<le> 11"
  shows "c \<in> {0, 1, 2, 3, 4, 5, 6, 7, 8, 9, 10, 11}"
proof -
  have "unat c \<le> 11" using assms by (simp add: word_le_nat_alt)
  then have "unat c \<in> {0, 1, 2, 3, 4, 5, 6, 7, 8, 9, 10, 11}"
    unfolding insert_iff empty_iff by arith
  then have "(word_of_nat (unat c) :: StatusCode) \<in> word_of_nat ` {0, 1, 2, 3, 4, 5, 6, 7, 8, 9, 10, 11}"
    by (rule imageI)
  then show ?thesis by simp
qed

text \<open>
  Encoding a failure as a status code and mapping the code back is the identity on every
  defined code, and a code outside the taxonomy comes back as a protocol violation: no code
  a peer sends can turn into a success or into an error of another class.
\<close>

theorem status_roundtrip:
  "StatusOf (StatusCode_Err c) = (if c \<le> StatusConnectionClosed then c else StatusProtocolViolation)"
proof (cases "c \<le> 11")
  case True
  then show ?thesis using status_code_cases[OF True]
    by (auto simp: StatusOf_def StatusCode_Err_def)
next
  case False
  then have "c \<notin> {0, 1, 2, 3, 4, 5, 6, 7, 8, 9, 10, 11}" by auto
  with False show ?thesis by (simp add: StatusOf_def StatusCode_Err_def)
qed

text \<open>
  The classification is total and faithful: its value is always a defined code, it is
  the success code only for a nil error, and whenever it is neither success nor the
  catch-all internal code the error mapped back from it is one that the original error
  really carries (an exhausted send queue counts as overload).
\<close>

theorem StatusOf_faithful:
  "StatusOf e \<le> StatusConnectionClosed
   \<and> (StatusOf e = StatusOK \<longleftrightarrow> e = None)
   \<and> (StatusOf e \<noteq> StatusOK \<and> StatusOf e \<noteq> StatusInternal \<longrightarrow>
       (\<exists>s. StatusCode_Err (StatusOf e) = Some (Sentinel s) \<and>
         (err_is e s \<or> s = ErrOverloaded \<and> err_is e ErrSendQueueFull)))"
  by (simp add: StatusOf_def StatusCode_Err_def)

theorem StatusOf_faithful_witness:
  "StatusOf (Some (Wrap ''queue'' (Sentinel ErrSendQueueFull))) = StatusOverloaded
   \<and> StatusCode_Err (StatusOf (Some (Wrap ''queue'' (Sentinel ErrSendQueueFull))))
       = Some (Sentinel ErrOverloaded)"
  using StatusOf_faithful[of "Some (Wrap ''queue'' (Sentinel ErrSendQueueFull))"]
  by (simp add: StatusOf_def StatusCode_Err_def)

end
