(* ===== verification/Revocation.thy ===== *)
theory Revocation
  imports Go_Library Peer_Domain
begin

text \<open>
  The signed-CRL state of one trust-root set, \<^verbatim>\<open>src/infrastructure/peer/security/revocation.go\<close>.

  The functions of \<^verbatim>\<open>crypto/x509\<close> and \<^verbatim>\<open>crypto/sha256\<close> are fields of a record \<open>pki\<close> that every
  operation takes: parsing and signature checking are not reimplemented, and a hash is any
  function to 32 bytes. Certificates and revocation lists carry the fields the code reads.
  Each operation takes place under the manager's mutex, so it is one function of the state; the
  current time is its argument \<open>now\<close>. The maps the code builds as sets of strings are lists.
\<close>

section \<open>The cryptographic library\<close>

record Certificate =
  Cert_Raw :: bytes
  Cert_IsCA :: bool
  Cert_SerialNumber :: int
  Cert_Subject :: string
  Cert_SubjectKeyId :: bytes
  Cert_URIs :: "string list"

record Extension =
  Ext_Id :: "int list"
  Ext_Critical :: bool

record RevocationListEntry =
  Entry_SerialNumber :: "int option"
  Entry_Extensions :: "Extension list"

record RevocationList =
  CRL_Issuer :: string
  CRL_AuthorityKeyId :: bytes
  CRL_Number :: "int option"
  CRL_ThisUpdate :: instant
  CRL_NextUpdate :: instant
  CRL_Extensions :: "Extension list"
  CRL_RevokedCertificateEntries :: "RevocationListEntry list"

record pki =
  ParseCertificate :: "bytes \<Rightarrow> Certificate option"
  ParseRevocationList :: "bytes \<Rightarrow> RevocationList option"
  CheckSignatureFrom :: "RevocationList \<Rightarrow> Certificate \<Rightarrow> bool"
  Verify :: "Certificate \<Rightarrow> Certificate list \<Rightarrow> Certificate list \<Rightarrow> instant \<Rightarrow> Certificate list list option"
  Sum256 :: "bytes \<Rightarrow> bytes"

abbreviation (input) sha256_Size :: nat where "sha256_Size \<equiv> 32"

text \<open>\<^verbatim>\<open>sha256.Sum256\<close> returns an array of 32 bytes.\<close>

definition sha256_sized :: "pki \<Rightarrow> bool" where
  "sha256_sized pki \<longleftrightarrow> (\<forall>bs. length (Sum256 pki bs) = sha256_Size)"

abbreviation hexsum :: "pki \<Rightarrow> bytes \<Rightarrow> string" where
  "hexsum pki bs \<equiv> hex_EncodeToString (Sum256 pki bs)"

text \<open>\<^verbatim>\<open>CertPool.AddCert\<close> keeps one copy of every certificate.\<close>

definition AddCert :: "Certificate list \<Rightarrow> Certificate \<Rightarrow> Certificate list" where
  "AddCert pool cert = (if Cert_Raw cert \<in> Cert_Raw ` set pool then pool else pool @ [cert])"

section \<open>Bundles and checkpoints\<close>

record SignedCRL =
  IssuerDER :: bytes
  CRLDER :: bytes

record RevocationBundle =
  Bundle_TrustRootsDigest :: string
  Bundle_Records :: "SignedCRL list"

record IssuerCheckpoint =
  IssuerSHA256 :: string
  CRLNumber :: string
  CRLSHA256 :: string
  NextUpdate :: instant
  Revoked :: "string list"

record CRLCheckpoint =
  CP_TrustRootsDigest :: string
  CP_BundleSHA256 :: string
  CP_Issuers :: "IssuerCheckpoint list"

abbreviation no_checkpoint :: CRLCheckpoint where
  "no_checkpoint \<equiv> \<lparr>CP_TrustRootsDigest = [], CP_BundleSHA256 = [], CP_Issuers = []\<rparr>"

text \<open>The copy shares nothing with the original; as values they are equal.\<close>

definition cloneCheckpoint :: "CRLCheckpoint \<Rightarrow> CRLCheckpoint" where
  "cloneCheckpoint value = value\<lparr>CP_Issuers := map (\<lambda>i. i\<lparr>Revoked := Revoked i\<rparr>) (CP_Issuers value)\<rparr>"

lemma cloneCheckpoint_id [simp]: "cloneCheckpoint c = c"
  by (simp add: cloneCheckpoint_def)

definition checkpoint_issuer_bytes :: "IssuerCheckpoint \<Rightarrow> bytes" where
  "checkpoint_issuer_bytes issuer =
    string_bytes (IssuerSHA256 issuer) @ string_bytes (CRLSHA256 issuer) @
    concat (map (\<lambda>serial. string_bytes serial @ [0]) (sort (Revoked issuer))) @ [0xFF]"

definition checkpoint_canonical :: "CRLCheckpoint \<Rightarrow> bytes" where
  "checkpoint_canonical checkpoint =
    concat (map checkpoint_issuer_bytes (sort_key IssuerSHA256 (CP_Issuers checkpoint)))"

definition checkpointBundleHash :: "pki \<Rightarrow> CRLCheckpoint \<Rightarrow> string" where
  "checkpointBundleHash pki checkpoint = hexsum pki (checkpoint_canonical checkpoint)"

text \<open>The loop of \<^verbatim>\<open>CanonicalTrustRootsDigest\<close> over the sorted roots; \<open>prev\<close> is the preceding one.\<close>

fun canonical_roots :: "bytes option \<Rightarrow> bytes list \<Rightarrow> bytes option" where
  "canonical_roots prev [] = Some []"
| "canonical_roots prev (der # ders) =
    (if prev = Some der then None
     else case canonical_roots (Some der) ders of None \<Rightarrow> None | Some bs \<Rightarrow> Some (der @ bs))"

definition CanonicalTrustRootsDigest :: "pki \<Rightarrow> bytes list \<Rightarrow> go_error + string" where
  "CanonicalTrustRootsDigest pki rootDER =
    (if rootDER = [] then Inl (Plain ''security: trust roots are required'')
     else case canonical_roots None (sort rootDER) of
            None \<Rightarrow> Inl (Plain ''security: duplicate trust root'')
          | Some canonical \<Rightarrow> Inr (hexsum pki canonical))"

section \<open>Validation of a restored checkpoint\<close>

text \<open>The inner loop over the serials of one issuer; \<open>serials\<close> is the set of the ones seen.\<close>

fun validate_serials :: "string list \<Rightarrow> string list \<Rightarrow> go_error option" where
  "validate_serials serials [] = None"
| "validate_serials serials (v # vs) =
    (case big_SetString v of
       None \<Rightarrow> Some (Plain ''security: invalid serial in revocation checkpoint'')
     | Some serial \<Rightarrow>
         if serial < 0 then Some (Plain ''security: invalid serial in revocation checkpoint'')
         else if v \<in> set serials then Some (Plain ''security: duplicate serial in revocation checkpoint'')
         else validate_serials (v # serials) vs)"

definition sha256_text :: "string \<Rightarrow> bool" where
  "sha256_text s = (case hex_DecodeString s of None \<Rightarrow> False | Some bs \<Rightarrow> length bs = sha256_Size)"

definition natural_text :: "string \<Rightarrow> bool" where
  "natural_text s = (case big_SetString s of None \<Rightarrow> False | Some n \<Rightarrow> 0 \<le> n)"

fun validate_issuers :: "string list \<Rightarrow> IssuerCheckpoint list \<Rightarrow> go_error option" where
  "validate_issuers seen [] = None"
| "validate_issuers seen (issuer # issuers) =
    (if \<not> sha256_text (IssuerSHA256 issuer) \<or> \<not> sha256_text (CRLSHA256 issuer)
        \<or> \<not> natural_text (CRLNumber issuer) \<or> NextUpdate issuer = 0
     then Some (Plain ''security: invalid issuer state in revocation checkpoint'')
     else if IssuerSHA256 issuer \<in> set seen
     then Some (Plain ''security: duplicate issuer in revocation checkpoint'')
     else case validate_serials [] (Revoked issuer) of
            Some e \<Rightarrow> Some e
          | None \<Rightarrow> validate_issuers (IssuerSHA256 issuer # seen) issuers)"

definition validateCheckpoint :: "pki \<Rightarrow> CRLCheckpoint \<Rightarrow> go_error option" where
  "validateCheckpoint pki checkpoint =
    (if CP_Issuers checkpoint = []
     then (if CP_BundleSHA256 checkpoint \<noteq> []
           then Some (Plain ''security: invalid revocation checkpoint'') else None)
     else if \<not> sha256_text (CP_BundleSHA256 checkpoint)
     then Some (Plain ''security: invalid revocation checkpoint digest'')
     else if checkpointBundleHash pki checkpoint \<noteq> CP_BundleSHA256 checkpoint
     then Some (Plain ''security: invalid revocation checkpoint digest'')
     else validate_issuers [] (CP_Issuers checkpoint))"

section \<open>The manager\<close>

text \<open>
  A timer is the generation its callback captured and the instant it is due. A tracked connection
  is a pointer, here a number; the set \<^verbatim>\<open>active\<close> is a list without repetitions.
\<close>

type_synonym connection = nat

record RevocationManager =
  rm_rootDER :: "bytes list"
  rm_roots :: "Certificate list"
  rm_rootDigest :: string
  rm_checkpoint :: CRLCheckpoint
  rm_active :: "connection list"
  rm_bundleHash :: string
  rm_expiryTimer :: "(u64 \<times> instant) option"
  rm_timerGeneration :: u64
  rm_closed :: bool

fun earliest_update :: "instant \<Rightarrow> IssuerCheckpoint list \<Rightarrow> instant" where
  "earliest_update earliest [] = earliest"
| "earliest_update earliest (issuer # issuers) =
    (if earliest = 0 \<or> NextUpdate issuer < earliest then earliest_update (NextUpdate issuer) issuers
     else earliest_update earliest issuers)"

definition scheduleExpiryLocked :: "instant \<Rightarrow> IssuerCheckpoint list \<Rightarrow> RevocationManager \<Rightarrow> RevocationManager" where
  "scheduleExpiryLocked now issuers m =
    (let generation = rm_timerGeneration m + 1;
         m = m\<lparr>rm_timerGeneration := generation, rm_expiryTimer := None\<rparr>;
         earliest = earliest_update 0 issuers
     in if earliest = 0 then m
        else let delay = (if earliest - now < 0 then 0 else earliest - now)
             in m\<lparr>rm_expiryTimer := Some (generation, now + delay)\<rparr>)"

text \<open>The callback of the timer; the second component is what it fences.\<close>

definition expiry_callback :: "u64 \<Rightarrow> RevocationManager \<Rightarrow> RevocationManager \<times> connection list" where
  "expiry_callback generation m =
    (if generation \<noteq> rm_timerGeneration m then (m, [])
     else (m\<lparr>rm_active := [], rm_expiryTimer := None\<rparr>, rm_active m))"

text \<open>The loop that parses the roots: the pool and the copies of the DER so far.\<close>

fun parse_roots :: "pki \<Rightarrow> bytes list \<Rightarrow> Certificate list \<times> bytes list \<Rightarrow> (Certificate list \<times> bytes list) option" where
  "parse_roots pki [] (pool, canonical) = Some (pool, canonical)"
| "parse_roots pki (der # ders) (pool, canonical) =
    (case ParseCertificate pki der of
       None \<Rightarrow> None
     | Some cert \<Rightarrow>
         if \<not> Cert_IsCA cert \<or> Cert_Raw cert \<noteq> der then None
         else parse_roots pki ders (AddCert pool cert, canonical @ [der]))"

definition roots_covered :: "pki \<Rightarrow> bytes list \<Rightarrow> string list \<Rightarrow> bool" where
  "roots_covered pki rootDER issuers = list_all (\<lambda>der. hexsum pki der \<in> set issuers) rootDER"

definition NewRevocationManager :: "pki \<Rightarrow> instant \<Rightarrow> bytes list \<Rightarrow> CRLCheckpoint option
    \<Rightarrow> go_error + RevocationManager" where
  "NewRevocationManager pki now rootDER checkpoint =
    (if rootDER = [] then Inl (Plain ''security: revocation requires trust roots'')
     else case CanonicalTrustRootsDigest pki rootDER of
       Inl e \<Rightarrow> Inl e
     | Inr digest \<Rightarrow>
         (case parse_roots pki rootDER ([], []) of
            None \<Rightarrow> Inl (Plain ''security: invalid revocation trust root'')
          | Some (pool, canonical) \<Rightarrow>
              (let m = \<lparr>rm_rootDER = sort canonical, rm_roots = pool, rm_rootDigest = digest,
                        rm_checkpoint = no_checkpoint, rm_active = [], rm_bundleHash = [],
                        rm_expiryTimer = None, rm_timerGeneration = 0, rm_closed = False\<rparr>
               in case checkpoint of
                    None \<Rightarrow> Inr m
                  | Some cp \<Rightarrow>
                      if CP_TrustRootsDigest cp \<noteq> digest
                      then Inl (Plain ''security: revocation checkpoint trust-root digest mismatch'')
                      else (case validateCheckpoint pki cp of
                        Some e \<Rightarrow> Inl e
                      | None \<Rightarrow>
                          if CP_Issuers cp \<noteq> [] \<and>
                             \<not> roots_covered pki (sort canonical) (map IssuerSHA256 (CP_Issuers cp))
                          then Inl (Plain ''security: revocation checkpoint omits a trust-root issuer'')
                          else Inr (scheduleExpiryLocked now (CP_Issuers cp)
                                 (m\<lparr>rm_checkpoint := cloneCheckpoint cp,
                                    rm_bundleHash := checkpointBundleHash pki cp\<rparr>))))))"

definition TrustRoots :: "RevocationManager option \<Rightarrow> Certificate list option" where
  "TrustRoots m = (case m of None \<Rightarrow> None | Some m \<Rightarrow> Some (rm_roots m))"

definition TrustRootsDigest :: "RevocationManager option \<Rightarrow> string" where
  "TrustRootsDigest m = (case m of None \<Rightarrow> [] | Some m \<Rightarrow> rm_rootDigest m)"

definition Checkpoint :: "RevocationManager option \<Rightarrow> CRLCheckpoint" where
  "Checkpoint m = (case m of None \<Rightarrow> no_checkpoint | Some m \<Rightarrow> cloneCheckpoint (rm_checkpoint m))"

section \<open>Validation of a bundle\<close>

definition supportedCRLExtensions :: "Extension list \<Rightarrow> bool" where
  "supportedCRLExtensions extensions =
    list_all (\<lambda>e. \<not> (Ext_Critical e \<or> Ext_Id e \<noteq> [2, 5, 29, 20] \<and> Ext_Id e \<noteq> [2, 5, 29, 35])) extensions"

definition supportedRevokedEntryExtensions :: "Extension list \<Rightarrow> bool" where
  "supportedRevokedEntryExtensions extensions =
    list_all (\<lambda>e. \<not> (Ext_Critical e \<or> Ext_Id e \<noteq> [2, 5, 29, 21] \<and> Ext_Id e \<noteq> [2, 5, 29, 24])) extensions"

text \<open>The first loop: every issuer certificate by its hash, and the pool of all of them.\<close>

fun collect_issuers :: "pki \<Rightarrow> SignedCRL list \<Rightarrow> (string, Certificate) table \<times> Certificate list
    \<Rightarrow> go_error + (string, Certificate) table \<times> Certificate list" where
  "collect_issuers pki [] (certs, pool) = Inr (certs, pool)"
| "collect_issuers pki (r # rs) (certs, pool) =
    (case ParseCertificate pki (IssuerDER r) of
       None \<Rightarrow> Inl (Plain ''security: invalid CRL issuer certificate'')
     | Some issuer \<Rightarrow>
         if \<not> Cert_IsCA issuer \<or> Cert_Raw issuer \<noteq> IssuerDER r
         then Inl (Plain ''security: invalid CRL issuer certificate'')
         else if map_get certs (hexsum pki (IssuerDER r)) \<noteq> None
         then Inl (Plain ''security: duplicate CRL issuer'')
         else collect_issuers pki rs
                (map_set (hexsum pki (IssuerDER r)) issuer certs, AddCert pool issuer))"

fun collect_revoked :: "RevocationListEntry list \<Rightarrow> string list \<Rightarrow> go_error + string list" where
  "collect_revoked [] revoked = Inr revoked"
| "collect_revoked (entry # entries) revoked =
    (if \<not> supportedRevokedEntryExtensions (Entry_Extensions entry)
     then Inl (Plain ''security: unsupported revoked-certificate entry extension'')
     else case Entry_SerialNumber entry of
            None \<Rightarrow> Inl (Plain ''security: CRL contains an invalid revoked serial'')
          | Some n \<Rightarrow>
              if n < 0 then Inl (Plain ''security: CRL contains an invalid revoked serial'')
              else if big_String n \<in> set revoked
              then Inl (Plain ''security: CRL contains a duplicate revoked serial'')
              else collect_revoked entries (revoked @ [big_String n]))"

record parsedRecord =
  pr_issuer :: Certificate
  pr_crl :: RevocationList
  pr_issuerHash :: string
  pr_crlHash :: string
  pr_revoked :: "string list"

text \<open>\<^verbatim>\<open>crl.Number\<close> of a list that was accepted, so that it is not nil.\<close>

definition crl_number :: "RevocationList \<Rightarrow> int" where
  "crl_number crl = (case CRL_Number crl of None \<Rightarrow> 0 | Some n \<Rightarrow> n)"

definition crl_acceptable :: "pki \<Rightarrow> instant \<Rightarrow> Certificate \<Rightarrow> RevocationList \<Rightarrow> bool" where
  "crl_acceptable pki now issuer crl \<longleftrightarrow>
     CheckSignatureFrom pki crl issuer \<and> CRL_Issuer crl = Cert_Subject issuer
     \<and> (case CRL_Number crl of None \<Rightarrow> False | Some n \<Rightarrow> 0 \<le> n)
     \<and> now < CRL_NextUpdate crl \<and> \<not> now + time_minute < CRL_ThisUpdate crl
     \<and> \<not> CRL_NextUpdate crl < CRL_ThisUpdate crl"

text \<open>The body of the second loop, for one record; \<open>seen\<close> are the issuers of the earlier ones.\<close>

definition parse_record :: "pki \<Rightarrow> instant \<Rightarrow> Certificate list \<Rightarrow> (string, Certificate) table
    \<Rightarrow> Certificate list \<Rightarrow> string list \<Rightarrow> SignedCRL \<Rightarrow> go_error + parsedRecord" where
  "parse_record pki now roots certs pool seen r =
    (let issuerHash = hexsum pki (IssuerDER r) in
     case map_get certs issuerHash of
       None \<Rightarrow> Inl (Plain ''unreachable: every issuer was collected'')
     | Some issuer \<Rightarrow>
         if Verify pki issuer roots pool now = None \<or> Verify pki issuer roots pool now = Some []
         then Inl (Plain ''security: CRL issuer is not trusted'')
         else case ParseRevocationList pki (CRLDER r) of
           None \<Rightarrow> Inl (Plain ''security: invalid or expired signed CRL'')
         | Some crl \<Rightarrow>
             if \<not> crl_acceptable pki now issuer crl
             then Inl (Plain ''security: invalid or expired signed CRL'')
             else if Cert_SubjectKeyId issuer \<noteq> [] \<and> CRL_AuthorityKeyId crl \<noteq> []
               \<and> Cert_SubjectKeyId issuer \<noteq> CRL_AuthorityKeyId crl
             then Inl (Plain ''security: CRL authority key does not match issuer'')
             else if \<not> supportedCRLExtensions (CRL_Extensions crl)
             then Inl (Plain ''security: unsupported CRL extension'')
             else if issuerHash \<in> set seen then Inl (Plain ''security: duplicate CRL issuer'')
             else case collect_revoked (CRL_RevokedCertificateEntries crl) [] of
               Inl e \<Rightarrow> Inl e
             | Inr revoked \<Rightarrow>
                 Inr \<lparr>pr_issuer = issuer, pr_crl = crl, pr_issuerHash = issuerHash,
                      pr_crlHash = hexsum pki (CRLDER r), pr_revoked = revoked\<rparr>)"

fun parse_records :: "pki \<Rightarrow> instant \<Rightarrow> Certificate list \<Rightarrow> (string, Certificate) table
    \<Rightarrow> Certificate list \<Rightarrow> SignedCRL list \<Rightarrow> parsedRecord list \<Rightarrow> go_error + parsedRecord list" where
  "parse_records pki now roots certs pool [] parsed = Inr parsed"
| "parse_records pki now roots certs pool (r # rs) parsed =
    (case parse_record pki now roots certs pool (map pr_issuerHash parsed) r of
       Inl e \<Rightarrow> Inl e
     | Inr p \<Rightarrow> parse_records pki now roots certs pool rs (parsed @ [p]))"

text \<open>
  The body of the third loop: the new state of one issuer against its old one. The map
  \<^verbatim>\<open>revokedSet\<close> holds the serials of both, and the result lists them sorted.
\<close>

definition merge_issuer :: "(string, IssuerCheckpoint) table \<Rightarrow> parsedRecord \<Rightarrow> go_error + IssuerCheckpoint" where
  "merge_issuer old current =
    (let state = (\<lambda>seed. \<lparr>IssuerSHA256 = pr_issuerHash current, CRLNumber = big_String (crl_number (pr_crl current)),
                   CRLSHA256 = pr_crlHash current, NextUpdate = CRL_NextUpdate (pr_crl current),
                   Revoked = sort (remdups (seed @ pr_revoked current))\<rparr>)
     in case map_get old (pr_issuerHash current) of
          None \<Rightarrow> Inr (state [])
        | Some previous \<Rightarrow>
            (case big_SetString (CRLNumber previous) of
               None \<Rightarrow> Inl (Plain ''security: invalid CRL checkpoint'')
             | Some oldNumber \<Rightarrow>
                 if crl_number (pr_crl current) < oldNumber
                    \<or> crl_number (pr_crl current) = oldNumber \<and> pr_crlHash current \<noteq> CRLSHA256 previous
                 then Inl (Plain ''security: CRL number rollback or equivocation'')
                 else if \<not> list_all (\<lambda>prior. prior \<in> set (pr_revoked current)) (Revoked previous)
                 then Inl (Plain ''security: CRL removed a previously revoked serial'')
                 else Inr (state (Revoked previous))))"

fun merge_issuers :: "parsedRecord list \<Rightarrow> (string, IssuerCheckpoint) table \<Rightarrow> IssuerCheckpoint list
    \<Rightarrow> go_error + IssuerCheckpoint list \<times> (string, IssuerCheckpoint) table" where
  "merge_issuers [] old states = Inr (states, old)"
| "merge_issuers (current # parsed) old states =
    (case merge_issuer old current of
       Inl e \<Rightarrow> Inl e
     | Inr state \<Rightarrow> merge_issuers parsed (map_delete (pr_issuerHash current) old) (states @ [state]))"

definition old_states :: "IssuerCheckpoint list \<Rightarrow> (string, IssuerCheckpoint) table" where
  "old_states issuers = fold (\<lambda>state old. map_set (IssuerSHA256 state) state old) issuers []"

definition validateLocked :: "pki \<Rightarrow> instant \<Rightarrow> RevocationManager \<Rightarrow> RevocationBundle
    \<Rightarrow> go_error + CRLCheckpoint \<times> string" where
  "validateLocked pki now m bundle =
    (if Bundle_TrustRootsDigest bundle \<noteq> rm_rootDigest m
     then Inl (Plain ''security: revocation bundle trust-root digest mismatch'')
     else if Bundle_Records bundle = [] then Inl (Plain ''security: empty revocation bundle'')
     else case collect_issuers pki (Bundle_Records bundle) ([], []) of
       Inl e \<Rightarrow> Inl e
     | Inr (issuerCerts, issuerPool) \<Rightarrow>
         (case parse_records pki now (rm_roots m) issuerCerts issuerPool (Bundle_Records bundle) [] of
            Inl e \<Rightarrow> Inl e
          | Inr parsed \<Rightarrow>
              if \<not> roots_covered pki (rm_rootDER m) (map pr_issuerHash parsed)
              then Inl (Plain ''security: bundle omits a configured trust-root issuer'')
              else (case merge_issuers parsed (old_states (CP_Issuers (rm_checkpoint m))) [] of
                Inl e \<Rightarrow> Inl e
              | Inr (states, old) \<Rightarrow>
                  if old \<noteq> [] then Inl (Plain ''security: revocation bundle removed an issuer'')
                  else if CP_Issuers (rm_checkpoint m) \<noteq> []
                    \<and> length states \<noteq> length (CP_Issuers (rm_checkpoint m))
                  then Inl (Plain ''security: revocation issuer set changed'')
                  else (let checkpoint = \<lparr>CP_TrustRootsDigest = rm_rootDigest m, CP_BundleSHA256 = [],
                                          CP_Issuers = sort_key IssuerSHA256 states\<rparr>;
                            bundleHash = checkpointBundleHash pki checkpoint
                        in Inr (checkpoint\<lparr>CP_BundleSHA256 := bundleHash\<rparr>, bundleHash)))))"

section \<open>Operations\<close>

definition Apply :: "pki \<Rightarrow> instant \<Rightarrow> RevocationManager option \<Rightarrow> RevocationBundle
    \<Rightarrow> RevocationManager option \<times> (go_error + CRLCheckpoint) \<times> connection list" where
  "Apply pki now manager bundle =
    (case manager of
       None \<Rightarrow> (None, Inl (Plain ''security: revocation manager is required''), [])
     | Some m \<Rightarrow>
         if rm_closed m then (manager, Inl (Plain ''security: revocation manager is closed''), [])
         else case validateLocked pki now m bundle of
           Inl e \<Rightarrow> (manager, Inl e, [])
         | Inr (next, hash) \<Rightarrow>
             if hash = rm_bundleHash m then (manager, Inr (cloneCheckpoint (rm_checkpoint m)), [])
             else (let previous = rm_active m;
                       m' = scheduleExpiryLocked now (CP_Issuers next)
                              (m\<lparr>rm_active := [], rm_bundleHash := hash, rm_checkpoint := next\<rparr>)
                   in (Some m', Inr (cloneCheckpoint next), previous)))"

text \<open>The second component is what \<^verbatim>\<open>Close\<close> fences.\<close>

definition manager_Close :: "RevocationManager option \<Rightarrow> RevocationManager option \<times> connection list" where
  "manager_Close manager =
    (case manager of
       None \<Rightarrow> (None, [])
     | Some m \<Rightarrow>
         (Some (m\<lparr>rm_closed := True, rm_timerGeneration := rm_timerGeneration m + 1,
                  rm_expiryTimer := None, rm_active := []\<rparr>), rm_active m))"

text \<open>The links of one chain: every certificate but the last against its issuer.\<close>

fun verify_links :: "pki \<Rightarrow> (string, string list) table \<Rightarrow> Certificate list \<Rightarrow> go_error option" where
  "verify_links pki revokedSets (c # d # chain) =
    (case map_get revokedSets (hexsum pki (Cert_Raw d)) of
       None \<Rightarrow> Some (Plain ''security: certificate issuer has no current CRL'')
     | Some revoked \<Rightarrow>
         if big_String (Cert_SerialNumber c) \<in> set revoked
         then Some (Plain ''security: peer certificate is revoked'')
         else verify_links pki revokedSets (d # chain))"
| "verify_links pki revokedSets [c] =
    (case map_get revokedSets (hexsum pki (Cert_Raw c)) of
       None \<Rightarrow> Some (Plain ''security: certificate issuer has no current CRL'')
     | Some revoked \<Rightarrow>
         if big_String (Cert_SerialNumber c) \<in> set revoked
         then Some (Plain ''security: peer trust root is revoked'') else None)"
| "verify_links pki revokedSets [] =
    Some (Plain ''security: peer has an empty verified certificate chain'')"

fun verify_chains :: "pki \<Rightarrow> (string, string list) table \<Rightarrow> Certificate list list \<Rightarrow> go_error option" where
  "verify_chains pki revokedSets [] = None"
| "verify_chains pki revokedSets (chain # paths) =
    (case verify_links pki revokedSets chain of
       Some e \<Rightarrow> Some e
     | None \<Rightarrow> verify_chains pki revokedSets paths)"

text \<open>
  The loop that indexes the states by issuer; the maps \<^verbatim>\<open>states\<close> and \<^verbatim>\<open>revokedSets\<close> of the code have
  the same keys and the first one is used only to test for presence.
\<close>

fun fresh_states :: "instant \<Rightarrow> IssuerCheckpoint list \<Rightarrow> (string, string list) table
    \<Rightarrow> go_error + (string, string list) table" where
  "fresh_states now [] sets = Inr sets"
| "fresh_states now (state # states) sets =
    (if \<not> now < NextUpdate state then Inl (Plain ''security: current CRL has expired'')
     else fresh_states now states (map_set (IssuerSHA256 state) (Revoked state) sets))"

definition verifyLocked :: "pki \<Rightarrow> instant \<Rightarrow> RevocationManager \<Rightarrow> Certificate list list \<Rightarrow> go_error option" where
  "verifyLocked pki now m paths =
    (if rm_closed m then Some (Plain ''security: revocation manager is closed'')
     else if paths = [] then Some (Plain ''security: peer has no verified certificate chain'')
     else if rm_bundleHash m = [] \<or> CP_Issuers (rm_checkpoint m) = []
     then Some (Plain ''security: no current revocation bundle'')
     else case fresh_states now (CP_Issuers (rm_checkpoint m)) [] of
            Inl e \<Rightarrow> Some e
          | Inr revokedSets \<Rightarrow> verify_chains pki revokedSets paths)"

definition VerifyChain :: "pki \<Rightarrow> instant \<Rightarrow> RevocationManager option \<Rightarrow> Certificate list list \<Rightarrow> go_error option" where
  "VerifyChain pki now manager paths =
    (case manager of
       None \<Rightarrow> Some (Plain ''security: revocation manager is required'')
     | Some m \<Rightarrow> verifyLocked pki now m paths)"

text \<open>
  \<^verbatim>\<open>TrackConnection\<close> allocates the tracked connection; its pointer \<open>fresh\<close> is the caller's choice
  of an unused number.
\<close>

definition TrackConnection :: "pki \<Rightarrow> instant \<Rightarrow> connection \<Rightarrow> RevocationManager option \<Rightarrow> bool
    \<Rightarrow> Certificate list list \<Rightarrow> RevocationManager option \<times> (go_error + connection)" where
  "TrackConnection pki now fresh manager transport verifiedChains =
    (case manager of
       None \<Rightarrow> (manager, Inl (Plain ''security: revocation manager and transport are required''))
     | Some m \<Rightarrow>
         if \<not> transport
         then (manager, Inl (Plain ''security: revocation manager and transport are required''))
         else case verifyLocked pki now m verifiedChains of
                Some e \<Rightarrow> (manager, Inl e)
              | None \<Rightarrow> (Some (m\<lparr>rm_active := List.insert fresh (rm_active m)\<rparr>), Inr fresh))"

section \<open>The manager among its connections\<close>

text \<open>
  A tracked connection wraps a transport and a \<^verbatim>\<open>sync.Once\<close>. The state around the manager: the clock,
  the tracked connections in the order of their creation (the pointer is the position), the
  connections the goroutines of \<^verbatim>\<open>fenceLocked\<close> still have to close, the timer callbacks that may
  still run (a callback whose timer was stopped too late included), and the transports closed so
  far. \<open>rw_schedules\<close> counts how often the timer generation was advanced.
\<close>

record trackedConnection =
  tc_transport :: nat
  tc_verifiedChains :: "Certificate list list"
  tc_done :: bool

record revocation_world =
  rw_manager :: RevocationManager
  rw_now :: instant
  rw_conns :: "trackedConnection list"
  rw_fencing :: "connection list"
  rw_timers :: "(u64 \<times> instant) list"
  rw_closed :: "nat list"
  rw_schedules :: nat

text \<open>
  \<^verbatim>\<open>trackedConnection.Close\<close>: the first call closes the transport and leaves the active set.
\<close>

definition tracked_Close :: "connection \<Rightarrow> revocation_world \<Rightarrow> revocation_world" where
  "tracked_Close c w =
    (let tc = rw_conns w ! c in
     if tc_done tc then w
     else w\<lparr>rw_conns := (rw_conns w)[c := tc\<lparr>tc_done := True\<rparr>],
            rw_closed := rw_closed w @ [tc_transport tc],
            rw_manager := (rw_manager w)\<lparr>rm_active := removeAll c (rm_active (rw_manager w))\<rparr>\<rparr>)"

text \<open>
  \<^verbatim>\<open>fenceLocked\<close> hands the set to a goroutine that closes one connection after the other; the
  caller waits for it for at most five seconds.
\<close>

definition fenceLocked :: "connection list \<Rightarrow> revocation_world \<Rightarrow> revocation_world" where
  "fenceLocked closedSet w = w\<lparr>rw_fencing := rw_fencing w @ closedSet\<rparr>"

definition fence_close :: "connection \<Rightarrow> revocation_world \<Rightarrow> revocation_world" where
  "fence_close c w = tracked_Close c (w\<lparr>rw_fencing := remove1 c (rw_fencing w)\<rparr>)"

text \<open>A new manager state, whose timer, if it was armed again, is one more callback that may run.\<close>

definition manager_update :: "RevocationManager \<Rightarrow> revocation_world \<Rightarrow> revocation_world" where
  "manager_update m w =
    (if rm_timerGeneration m = rm_timerGeneration (rw_manager w) then w\<lparr>rw_manager := m\<rparr>
     else w\<lparr>rw_manager := m, rw_schedules := Suc (rw_schedules w),
            rw_timers := rw_timers w @ (case rm_expiryTimer m of None \<Rightarrow> [] | Some t \<Rightarrow> [t])\<rparr>)"

definition NewWorld :: "instant \<Rightarrow> RevocationManager \<Rightarrow> revocation_world" where
  "NewWorld now m = \<lparr>rw_manager = m, rw_now = now, rw_conns = [], rw_fencing = [],
     rw_timers = (case rm_expiryTimer m of None \<Rightarrow> [] | Some t \<Rightarrow> [t]), rw_closed = [],
     rw_schedules = unat (rm_timerGeneration m)\<rparr>"

definition world_apply :: "pki \<Rightarrow> RevocationBundle \<Rightarrow> revocation_world \<Rightarrow> revocation_world" where
  "world_apply pki bundle w =
    (case Apply pki (rw_now w) (Some (rw_manager w)) bundle of
       (Some m, _, fenced) \<Rightarrow> fenceLocked fenced (manager_update m w)
     | (None, _, _) \<Rightarrow> w)"

definition world_track :: "pki \<Rightarrow> nat \<Rightarrow> Certificate list list \<Rightarrow> revocation_world \<Rightarrow> revocation_world" where
  "world_track pki transport verifiedChains w =
    (case TrackConnection pki (rw_now w) (length (rw_conns w)) (Some (rw_manager w)) True verifiedChains of
       (Some m, Inr c) \<Rightarrow>
         w\<lparr>rw_manager := m, rw_conns := rw_conns w @
             [\<lparr>tc_transport = transport, tc_verifiedChains = verifiedChains, tc_done = False\<rparr>]\<rparr>
     | _ \<Rightarrow> w)"

definition world_close :: "revocation_world \<Rightarrow> revocation_world" where
  "world_close w =
    (case manager_Close (Some (rw_manager w)) of
       (Some m, fenced) \<Rightarrow> fenceLocked fenced (manager_update m w)
     | (None, _) \<Rightarrow> w)"

definition world_expire :: "u64 \<times> instant \<Rightarrow> revocation_world \<Rightarrow> revocation_world" where
  "world_expire t w =
    (case expiry_callback (fst t) (rw_manager w) of
       (m, fenced) \<Rightarrow> fenceLocked fenced (w\<lparr>rw_manager := m, rw_timers := remove1 t (rw_timers w)\<rparr>))"

text \<open>Everything that can happen next, in any order.\<close>

inductive rev_step :: "pki \<Rightarrow> revocation_world \<Rightarrow> revocation_world \<Rightarrow> bool" for pki where
  step_apply: "rev_step pki w (world_apply pki bundle w)"
| step_track: "rev_step pki w (world_track pki transport verifiedChains w)"
| step_user_close: "c < length (rw_conns w) \<Longrightarrow> rev_step pki w (tracked_Close c w)"
| step_fence: "c \<in> set (rw_fencing w) \<Longrightarrow> rev_step pki w (fence_close c w)"
| step_manager_close: "rev_step pki w (world_close w)"
| step_expire: "t \<in> set (rw_timers w) \<Longrightarrow> snd t \<le> rw_now w \<Longrightarrow> rev_step pki w (world_expire t w)"
| step_tick: "rw_now w \<le> now \<Longrightarrow> rev_step pki w (w\<lparr>rw_now := now\<rparr>)"

abbreviation rev_steps :: "pki \<Rightarrow> revocation_world \<Rightarrow> revocation_world \<Rightarrow> bool" where
  "rev_steps pki \<equiv> (rev_step pki)\<^sup>*\<^sup>*"

inductive_cases rev_stepE: "rev_step pki w w'"

end
