(* ===== verification/Revocation_Facts.thy ===== *)
theory Revocation_Facts
  imports Revocation
begin

text \<open>
  What the validation and verification routines of the revocation manager compute: the accepted
  checkpoints and bundles in closed form, the relation between a checkpoint and its successor, and
  the declarative meaning of a successful chain verification.
\<close>

section \<open>Verification\<close>

text \<open>
  The certificate with this serial, issued by the certificate with this hash, is covered by the
  checkpoint and not revoked in it.
\<close>

definition cleared :: "IssuerCheckpoint list \<Rightarrow> string \<Rightarrow> string \<Rightarrow> bool" where
  "cleared issuers issuerHash serial \<longleftrightarrow>
     (\<exists>st\<in>set issuers. IssuerSHA256 st = issuerHash \<and> serial \<notin> set (Revoked st))"

text \<open>The issuer of the certificate at a position of a chain: the next one, or itself for the root.\<close>

definition issuer_at :: "Certificate list \<Rightarrow> nat \<Rightarrow> Certificate" where
  "issuer_at chain i = chain ! (if Suc i < length chain then Suc i else i)"

definition chain_cleared :: "pki \<Rightarrow> IssuerCheckpoint list \<Rightarrow> Certificate list \<Rightarrow> bool" where
  "chain_cleared pki issuers chain \<longleftrightarrow> chain \<noteq> [] \<and>
     (\<forall>i < length chain. cleared issuers (hexsum pki (Cert_Raw (issuer_at chain i)))
        (big_String (Cert_SerialNumber (chain ! i))))"

abbreviation issuer_keys :: "IssuerCheckpoint list \<Rightarrow> string list" where
  "issuer_keys issuers \<equiv> map IssuerSHA256 issuers"

abbreviation revoked_table :: "IssuerCheckpoint list \<Rightarrow> (string, string list) table" where
  "revoked_table issuers \<equiv> map (\<lambda>st. (IssuerSHA256 st, Revoked st)) issuers"

lemma fresh_states_result:
  "fresh_states now issuers sets =
     (if \<forall>st\<in>set issuers. now < NextUpdate st
      then Inr (fold (\<lambda>st. map_set (IssuerSHA256 st) (Revoked st)) issuers sets)
      else Inl (Plain ''security: current CRL has expired''))"
  by (induction issuers arbitrary: sets) auto

lemma map_of_fold_set:
  "distinct (map f xs) \<Longrightarrow>
   map_of (fold (\<lambda>x. map_set (f x) (g x)) xs m) = map_of m ++ map_of (map (\<lambda>x. (f x, g x)) xs)"
proof (induction xs arbitrary: m)
  case (Cons x xs)
  have "map_of (map (\<lambda>x. (f x, g x)) xs) (f x) = None"
    using Cons.prems by (auto simp: map_of_eq_None_iff)
  then show ?case using Cons by (auto simp: fun_eq_iff map_add_def split: option.splits)
qed simp

lemma revoked_table_None: "map_of (revoked_table issuers) h = None \<longleftrightarrow> h \<notin> set (issuer_keys issuers)"
  by (force simp: map_of_eq_None_iff)

lemma cleared_lookup:
  assumes "distinct (issuer_keys issuers)"
  shows "cleared issuers h serial \<longleftrightarrow>
    (\<exists>revoked. map_of (revoked_table issuers) h = Some revoked \<and> serial \<notin> set revoked)"
proof -
  have d: "distinct (map fst (revoked_table issuers))" using assms by (simp add: comp_def)
  show ?thesis
    by (auto simp: cleared_def map_of_eq_Some_iff[OF d])
qed

lemma chain_cleared_simps [simp]:
  "chain_cleared pki issuers [] = False"
  "chain_cleared pki issuers [c] \<longleftrightarrow>
     cleared issuers (hexsum pki (Cert_Raw c)) (big_String (Cert_SerialNumber c))"
  "chain_cleared pki issuers (c # d # chain) \<longleftrightarrow>
     cleared issuers (hexsum pki (Cert_Raw d)) (big_String (Cert_SerialNumber c))
     \<and> chain_cleared pki issuers (d # chain)"
proof -
  have shift: "issuer_at (c # d # chain) (Suc i) = issuer_at (d # chain) i" for i
    by (simp add: issuer_at_def)
  have split_head: "(\<forall>i < length (c # d # chain). P i) \<longleftrightarrow> P 0 \<and> (\<forall>i < length (d # chain). P (Suc i))"
    for P by (simp only: length_Cons[of c] All_less_Suc2)
  show "chain_cleared pki issuers (c # d # chain) \<longleftrightarrow>
     cleared issuers (hexsum pki (Cert_Raw d)) (big_String (Cert_SerialNumber c))
     \<and> chain_cleared pki issuers (d # chain)"
    unfolding chain_cleared_def split_head shift nth_Cons_Suc by (simp add: issuer_at_def)
qed (simp_all add: chain_cleared_def issuer_at_def)

lemma verify_links_iff:
  assumes "map_of sets = map_of (revoked_table issuers)" "distinct (issuer_keys issuers)"
  shows "verify_links pki sets chain = None \<longleftrightarrow> chain_cleared pki issuers chain"
proof (induction chain rule: induct_list012)
  case (2 c)
  then show ?case by (simp add: assms cleared_lookup split: option.splits)
next
  case (3 c d chain)
  then show ?case by (simp add: assms cleared_lookup split: option.splits)
qed simp

lemma verify_chains_iff:
  "verify_chains pki sets cs = None \<longleftrightarrow> (\<forall>chain\<in>set cs. verify_links pki sets chain = None)"
  by (induction cs) (auto split: option.splits)

lemma verifyLocked_iff:
  assumes "distinct (issuer_keys (CP_Issuers (rm_checkpoint m)))"
  shows "verifyLocked pki now m cs = None \<longleftrightarrow>
    \<not> rm_closed m \<and> cs \<noteq> [] \<and> rm_bundleHash m \<noteq> [] \<and> CP_Issuers (rm_checkpoint m) \<noteq> []
    \<and> (\<forall>st\<in>set (CP_Issuers (rm_checkpoint m)). now < NextUpdate st)
    \<and> (\<forall>chain\<in>set cs. chain_cleared pki (CP_Issuers (rm_checkpoint m)) chain)"
proof -
  have "map_of (fold (\<lambda>st. map_set (IssuerSHA256 st) (Revoked st)) (CP_Issuers (rm_checkpoint m)) [])
    = map_of (revoked_table (CP_Issuers (rm_checkpoint m)))"
    using map_of_fold_set[OF assms, of Revoked "[]"] by simp
  from verify_links_iff[OF this assms] show ?thesis
    by (simp add: verifyLocked_def fresh_states_result verify_chains_iff)
qed

section \<open>Well-formed checkpoints\<close>

definition issuer_ok :: "IssuerCheckpoint \<Rightarrow> bool" where
  "issuer_ok st \<longleftrightarrow> sha256_text (IssuerSHA256 st) \<and> sha256_text (CRLSHA256 st)
     \<and> natural_text (CRLNumber st) \<and> NextUpdate st \<noteq> 0
     \<and> distinct (Revoked st) \<and> (\<forall>v\<in>set (Revoked st). natural_text v)"

lemma validate_serials_iff:
  "validate_serials serials vs = None \<longleftrightarrow>
     (\<forall>v\<in>set vs. natural_text v \<and> v \<notin> set serials) \<and> distinct vs"
  by (induction vs arbitrary: serials) (auto simp: natural_text_def split: option.splits)

lemma validate_issuers_iff:
  "validate_issuers seen issuers = None \<longleftrightarrow>
     (\<forall>st\<in>set issuers. issuer_ok st \<and> IssuerSHA256 st \<notin> set seen) \<and> distinct (issuer_keys issuers)"
proof (induction issuers arbitrary: seen)
  case (Cons st issuers)
  show ?case
  proof (cases "validate_serials [] (Revoked st)")
    case None
    then have "distinct (Revoked st) \<and> (\<forall>v\<in>set (Revoked st). natural_text v)"
      by (simp add: validate_serials_iff)
    then show ?thesis using None by (auto simp: Cons.IH issuer_ok_def image_iff)
  next
    case (Some e)
    then have "\<not> (distinct (Revoked st) \<and> (\<forall>v\<in>set (Revoked st). natural_text v))"
      using validate_serials_iff[of "[]" "Revoked st"] by auto
    then show ?thesis using Some by (auto simp: issuer_ok_def)
  qed
qed simp

lemma validateCheckpoint_iff:
  "validateCheckpoint pki cp = None \<longleftrightarrow>
     (if CP_Issuers cp = [] then CP_BundleSHA256 cp = []
      else sha256_text (CP_BundleSHA256 cp) \<and> checkpointBundleHash pki cp = CP_BundleSHA256 cp
        \<and> (\<forall>st\<in>set (CP_Issuers cp). issuer_ok st) \<and> distinct (issuer_keys (CP_Issuers cp)))"
  by (simp add: validateCheckpoint_def validate_issuers_iff)

lemma hexsum_text [simp]: "sha256_sized pki \<Longrightarrow> sha256_text (hexsum pki bs)"
  by (simp add: sha256_text_def sha256_sized_def)

lemma hexsum_nonempty [simp]: "sha256_sized pki \<Longrightarrow> hexsum pki bs \<noteq> []"
  by (metis length_hex_Encode length_0_conv mult_is_0 sha256_sized_def zero_neq_numeral)

lemma natural_text_big_String [simp]: "natural_text (big_String n) \<longleftrightarrow> 0 \<le> n"
  by (simp add: natural_text_def)

section \<open>Accepted bundles\<close>

abbreviation record_key :: "pki \<Rightarrow> SignedCRL \<Rightarrow> string" where
  "record_key pki r \<equiv> hexsum pki (IssuerDER r)"

lemma collect_issuers_ok:
  "collect_issuers pki rs (certs, pool) = Inr (certs', pool') \<Longrightarrow>
   dom (map_of certs') = dom (map_of certs) \<union> record_key pki ` set rs
   \<and> distinct (map (record_key pki) rs) \<and> (\<forall>r\<in>set rs. record_key pki r \<notin> dom (map_of certs))"
proof (induction rs arbitrary: certs pool)
  case (Cons r rs)
  then obtain issuer where new: "map_get certs (record_key pki r) = None"
    and rest: "collect_issuers pki rs (map_set (record_key pki r) issuer certs, AddCert pool issuer)
      = Inr (certs', pool')"
    by (auto split: option.splits if_splits)
  from Cons.IH[OF rest] new show ?case by auto
qed auto

definition parsed_ok :: "pki \<Rightarrow> instant \<Rightarrow> SignedCRL \<Rightarrow> parsedRecord \<Rightarrow> bool" where
  "parsed_ok pki now r p \<longleftrightarrow> pr_issuerHash p = record_key pki r \<and> pr_crlHash p = hexsum pki (CRLDER r)
     \<and> 0 \<le> crl_number (pr_crl p) \<and> now < CRL_NextUpdate (pr_crl p)
     \<and> distinct (pr_revoked p) \<and> (\<forall>v\<in>set (pr_revoked p). natural_text v)"

lemma collect_revoked_ok:
  "collect_revoked es acc = Inr revoked \<Longrightarrow> distinct acc \<Longrightarrow> \<forall>v\<in>set acc. natural_text v \<Longrightarrow>
   distinct revoked \<and> (\<forall>v\<in>set revoked. natural_text v)"
  by (induction es arbitrary: acc) (auto split: if_splits option.splits)

lemma parse_record_ok:
  assumes "parse_record pki now roots certs pool seen r = Inr p"
  shows "parsed_ok pki now r p"
  using assms collect_revoked_ok[of _ "[]" "pr_revoked p"]
  by (auto simp: parse_record_def parsed_ok_def crl_acceptable_def crl_number_def Let_def
      split: option.splits if_splits sum.splits)

lemma parse_records_ok:
  "parse_records pki now roots certs pool rs parsed = Inr ps \<Longrightarrow>
   \<exists>qs. ps = parsed @ qs \<and> list_all2 (parsed_ok pki now) rs qs"
proof (induction rs arbitrary: parsed)
  case (Cons r rs)
  then obtain p where p: "parse_record pki now roots certs pool (map pr_issuerHash parsed) r = Inr p"
    and rest: "parse_records pki now roots certs pool rs (parsed @ [p]) = Inr ps"
    by (auto split: sum.splits)
  obtain qs where "ps = (parsed @ [p]) @ qs" "list_all2 (parsed_ok pki now) rs qs"
    using Cons.IH[OF rest] by blast
  then show ?case using parse_record_ok[OF p] by (intro exI[of _ "p # qs"]) simp
qed simp

text \<open>How a new state of an issuer relates to its old one: it only moves forward.\<close>

definition issuer_le :: "IssuerCheckpoint \<Rightarrow> IssuerCheckpoint \<Rightarrow> bool" where
  "issuer_le st st' \<longleftrightarrow> IssuerSHA256 st' = IssuerSHA256 st
     \<and> (\<exists>n n'. big_SetString (CRLNumber st) = Some n \<and> big_SetString (CRLNumber st') = Some n'
         \<and> n \<le> n' \<and> (n = n' \<longrightarrow> CRLSHA256 st = CRLSHA256 st'))
     \<and> set (Revoked st) \<subseteq> set (Revoked st')"

definition checkpoint_le :: "CRLCheckpoint \<Rightarrow> CRLCheckpoint \<Rightarrow> bool" where
  "checkpoint_le cp cp' \<longleftrightarrow> (\<forall>st\<in>set (CP_Issuers cp). \<exists>st'\<in>set (CP_Issuers cp'). issuer_le st st')
     \<and> (CP_Issuers cp \<noteq> [] \<longrightarrow> set (issuer_keys (CP_Issuers cp')) = set (issuer_keys (CP_Issuers cp)))"

lemma issuer_le_trans: "issuer_le a b \<Longrightarrow> issuer_le b c \<Longrightarrow> issuer_le a c"
  unfolding issuer_le_def by (auto 4 4)

lemma checkpoint_le_trans:
  assumes "checkpoint_le a b" "checkpoint_le b c"
  shows "checkpoint_le a c"
proof -
  have "CP_Issuers a \<noteq> [] \<Longrightarrow> CP_Issuers b \<noteq> []"
    using assms(1) unfolding checkpoint_le_def by (metis list.set_intros(1) neq_Nil_conv empty_iff list.set(1))
  then show ?thesis
    using assms issuer_le_trans unfolding checkpoint_le_def by (metis (no_types, lifting))
qed

lemma checkpoint_le_refl:
  assumes "\<forall>st\<in>set (CP_Issuers cp). natural_text (CRLNumber st)"
  shows "checkpoint_le cp cp"
  using assms unfolding checkpoint_le_def issuer_le_def natural_text_def
  by (auto split: option.splits) (metis option.exhaust_sel option.simps(4) order_refl)

lemma merge_issuer_cong:
  "map_get old (pr_issuerHash p) = map_get old' (pr_issuerHash p) \<Longrightarrow> merge_issuer old p = merge_issuer old' p"
  by (simp add: merge_issuer_def)

lemma merge_issuers_ok:
  "merge_issuers parsed old states = Inr (states', old') \<Longrightarrow> distinct (map pr_issuerHash parsed) \<Longrightarrow>
   \<exists>ss. states' = states @ ss \<and> list_all2 (\<lambda>p s. merge_issuer old p = Inr s) parsed ss
     \<and> map_of old' = map_of old |` (- pr_issuerHash ` set parsed)"
proof (induction parsed arbitrary: old states)
  case (Cons p parsed)
  then obtain s where s: "merge_issuer old p = Inr s"
    and rest: "merge_issuers parsed (map_delete (pr_issuerHash p) old) (states @ [s]) = Inr (states', old')"
    by (auto split: sum.splits)
  have "distinct (map pr_issuerHash parsed)" using Cons.prems(2) by simp
  from Cons.IH[OF rest this] obtain ss where ss: "states' = (states @ [s]) @ ss"
    and all: "list_all2 (\<lambda>q t. merge_issuer (map_delete (pr_issuerHash p) old) q = Inr t) parsed ss"
    and old': "map_of old' = map_of (map_delete (pr_issuerHash p) old) |` (- pr_issuerHash ` set parsed)"
    by blast
  have "merge_issuer (map_delete (pr_issuerHash p) old) q = merge_issuer old q" if "q \<in> set parsed" for q
    using that Cons.prems(2) by (intro merge_issuer_cong) (auto simp: image_iff)
  then have "list_all2 (\<lambda>q t. merge_issuer old q = Inr t) parsed ss"
    using all by (auto simp: list_all2_conv_all_nth)
  then show ?case using ss s old'
    by (intro exI[of _ "s # ss"]) (auto simp: restrict_map_def fun_eq_iff)
qed (auto simp: restrict_map_def fun_eq_iff)

lemma merge_issuer_ok:
  assumes "merge_issuer old p = Inr st"
  shows "IssuerSHA256 st = pr_issuerHash p" "CRLSHA256 st = pr_crlHash p"
    "CRLNumber st = big_String (crl_number (pr_crl p))" "NextUpdate st = CRL_NextUpdate (pr_crl p)"
    "set (Revoked st) = set (pr_revoked p)" "distinct (Revoked st)"
    "map_get old (pr_issuerHash p) = Some prev \<Longrightarrow> IssuerSHA256 prev = pr_issuerHash p \<Longrightarrow> issuer_le prev st"
  using assms
  by (auto simp: merge_issuer_def issuer_le_def list_all_iff split: option.splits if_splits)

lemma map_of_old_states:
  assumes "distinct (issuer_keys issuers)"
  shows "map_of (old_states issuers) = map_of (map (\<lambda>st. (IssuerSHA256 st, st)) issuers)"
  using map_of_fold_set[OF assms, of "\<lambda>st. st" "[]"] by (simp add: old_states_def comp_def)

lemma list_all2_right: "list_all2 P xs ys \<Longrightarrow> y \<in> set ys \<Longrightarrow> \<exists>x\<in>set xs. P x y"
  by (induction rule: list_all2_induct) auto

lemma list_all2_left: "list_all2 P xs ys \<Longrightarrow> x \<in> set xs \<Longrightarrow> \<exists>y\<in>set ys. P x y"
  by (induction rule: list_all2_induct) auto

lemma list_all2_map_eq: "list_all2 P xs ys \<Longrightarrow> (\<And>x y. P x y \<Longrightarrow> g y = f x) \<Longrightarrow> map g ys = map f xs"
  by (induction rule: list_all2_induct) auto

text \<open>
  The intermediate results of a successful \<^verbatim>\<open>validateLocked\<close>: one parsed record per record of the
  bundle and one state per parsed record.
\<close>

lemma validateLocked_E:
  assumes "validateLocked pki now m bundle = Inr (cp, hash)"
  obtains parsed states where
    "list_all2 (parsed_ok pki now) (Bundle_Records bundle) parsed"
    "list_all2 (\<lambda>p s. merge_issuer (old_states (CP_Issuers (rm_checkpoint m))) p = Inr s) parsed states"
    "Bundle_Records bundle \<noteq> []" "distinct (issuer_keys states)"
    "roots_covered pki (rm_rootDER m) (issuer_keys states)"
    "dom (map_of (old_states (CP_Issuers (rm_checkpoint m)))) \<subseteq> set (issuer_keys states)"
    "CP_Issuers (rm_checkpoint m) \<noteq> [] \<longrightarrow> length states = length (CP_Issuers (rm_checkpoint m))"
    "cp = \<lparr>CP_TrustRootsDigest = rm_rootDigest m, CP_BundleSHA256 = hash,
           CP_Issuers = sort_key IssuerSHA256 states\<rparr>"
    "hash = checkpointBundleHash pki cp"
proof -
  let ?old = "old_states (CP_Issuers (rm_checkpoint m))"
  obtain certs pool parsed states where
    rs: "Bundle_Records bundle \<noteq> []" and
    certs: "collect_issuers pki (Bundle_Records bundle) ([], []) = Inr (certs, pool)" and
    parsed: "parse_records pki now (rm_roots m) certs pool (Bundle_Records bundle) [] = Inr parsed" and
    cover: "roots_covered pki (rm_rootDER m) (map pr_issuerHash parsed)" and
    merged: "merge_issuers parsed ?old [] = Inr (states, [])" and
    size: "CP_Issuers (rm_checkpoint m) \<noteq> [] \<longrightarrow> length states = length (CP_Issuers (rm_checkpoint m))" and
    cp: "cp = \<lparr>CP_TrustRootsDigest = rm_rootDigest m, CP_BundleSHA256 = hash,
               CP_Issuers = sort_key IssuerSHA256 states\<rparr>" and
    hash: "hash = checkpointBundleHash pki cp"
    using assms by (auto simp: validateLocked_def Let_def checkpointBundleHash_def checkpoint_canonical_def
        split: if_splits sum.splits)
  have recs: "list_all2 (parsed_ok pki now) (Bundle_Records bundle) parsed"
    using parse_records_ok[OF parsed] by simp
  have "map pr_issuerHash parsed = map (record_key pki) (Bundle_Records bundle)"
    by (rule list_all2_map_eq[OF recs]) (simp add: parsed_ok_def)
  then have dist: "distinct (map pr_issuerHash parsed)"
    using collect_issuers_ok[OF certs] by simp
  from merge_issuers_ok[OF merged dist]
  have mstates: "list_all2 (\<lambda>p s. merge_issuer ?old p = Inr s) parsed states"
    and gone: "map_of ?old |` (- pr_issuerHash ` set parsed) = Map.empty" by auto
  have skeys: "issuer_keys states = map pr_issuerHash parsed"
    by (rule list_all2_map_eq[OF mstates]) (simp add: merge_issuer_ok(1))
  have "dom (map_of ?old) \<subseteq> set (issuer_keys states)"
    using gone unfolding skeys by (auto simp: restrict_map_def fun_eq_iff split: if_splits)
  moreover have "distinct (issuer_keys states)" "roots_covered pki (rm_rootDER m) (issuer_keys states)"
    using dist cover by (simp_all add: skeys)
  ultimately show ?thesis using that[OF recs mstates rs _ _ _ size cp hash] by blast
qed

text \<open>
  On success the new checkpoint is well-formed, fresh, covers the roots and carries its own digest.
\<close>

definition checkpoint_ok :: "pki \<Rightarrow> RevocationManager \<Rightarrow> CRLCheckpoint \<Rightarrow> bool" where
  "checkpoint_ok pki m cp \<longleftrightarrow> CP_TrustRootsDigest cp = rm_rootDigest m
     \<and> validateCheckpoint pki cp = None
     \<and> (CP_Issuers cp \<noteq> [] \<longrightarrow> roots_covered pki (rm_rootDER m) (issuer_keys (CP_Issuers cp)))"

lemma validateLocked_ok:
  assumes "validateLocked pki now m bundle = Inr (cp, hash)"
    and sized: "sha256_sized pki" and clock: "0 \<le> now"
  shows "checkpoint_ok pki m cp" "hash = checkpointBundleHash pki cp" "CP_Issuers cp \<noteq> []"
    "\<forall>st\<in>set (CP_Issuers cp). now < NextUpdate st"
proof -
  from assms(1) show hash: "hash = checkpointBundleHash pki cp" by (rule validateLocked_E)
  from assms(1) obtain parsed states where
    recs: "list_all2 (parsed_ok pki now) (Bundle_Records bundle) parsed" and
    ms: "list_all2 (\<lambda>p s. merge_issuer (old_states (CP_Issuers (rm_checkpoint m))) p = Inr s) parsed states" and
    ne: "Bundle_Records bundle \<noteq> []" and dist: "distinct (issuer_keys states)" and
    cover: "roots_covered pki (rm_rootDER m) (issuer_keys states)" and
    cp: "cp = \<lparr>CP_TrustRootsDigest = rm_rootDigest m, CP_BundleSHA256 = hash,
           CP_Issuers = sort_key IssuerSHA256 states\<rparr>"
    by (rule validateLocked_E)
  have sts: "set (CP_Issuers cp) = set states" by (simp add: cp)
  have each: "issuer_ok st \<and> now < NextUpdate st" if st: "st \<in> set states" for st
  proof -
    obtain p where p: "p \<in> set parsed" "merge_issuer (old_states (CP_Issuers (rm_checkpoint m))) p = Inr st"
      using list_all2_right[OF ms st] by blast
    obtain r where "parsed_ok pki now r p" using list_all2_right[OF recs p(1)] by blast
    then show ?thesis
      using merge_issuer_ok(1-6)[OF p(2)] sized clock by (auto simp: parsed_ok_def issuer_ok_def)
  qed
  then show "\<forall>st\<in>set (CP_Issuers cp). now < NextUpdate st" by (simp add: sts)
  have "states \<noteq> []"
    using ne list_all2_lengthD[OF recs] list_all2_lengthD[OF ms] by auto
  then have issuers: "CP_Issuers cp \<noteq> []" using sts by auto
  then show "CP_Issuers cp \<noteq> []" .
  have "distinct (issuer_keys (CP_Issuers cp))" using dist by (simp add: cp distinct_map)
  moreover have "CP_BundleSHA256 cp = checkpointBundleHash pki cp"
    unfolding hash[symmetric] by (simp add: cp)
  moreover have "sha256_text (checkpointBundleHash pki cp)"
    using sized by (simp add: checkpointBundleHash_def)
  ultimately have "validateCheckpoint pki cp = None"
    using issuers each sts by (simp add: validateCheckpoint_iff)
  then show "checkpoint_ok pki m cp"
    using cover issuers sts by (simp add: checkpoint_ok_def roots_covered_def) (simp add: cp)
qed

text \<open>And it only moves the old checkpoint forward.\<close>

lemma validateLocked_forward:
  assumes "validateLocked pki now m bundle = Inr (cp, hash)"
    and old: "distinct (issuer_keys (CP_Issuers (rm_checkpoint m)))"
  shows "checkpoint_le (rm_checkpoint m) cp"
proof -
  let ?is = "CP_Issuers (rm_checkpoint m)"
  from assms(1) obtain parsed states where
    ms: "list_all2 (\<lambda>p s. merge_issuer (old_states ?is) p = Inr s) parsed states" and
    dist: "distinct (issuer_keys states)" and
    sub: "dom (map_of (old_states ?is)) \<subseteq> set (issuer_keys states)" and
    size: "?is \<noteq> [] \<longrightarrow> length states = length ?is" and
    cp: "cp = \<lparr>CP_TrustRootsDigest = rm_rootDigest m, CP_BundleSHA256 = hash,
           CP_Issuers = sort_key IssuerSHA256 states\<rparr>"
    by (rule validateLocked_E)
  have look: "map_of (old_states ?is) (IssuerSHA256 st) = Some st" if "st \<in> set ?is" for st
    using that old unfolding map_of_old_states[OF old] by (intro map_of_is_SomeI) (auto simp: comp_def)
  have sub': "set (issuer_keys ?is) \<subseteq> set (issuer_keys states)"
    using sub look by (force simp: dom_def)
  have "\<exists>st'\<in>set states. issuer_le st st'" if st: "st \<in> set ?is" for st
  proof -
    obtain st' where st': "st' \<in> set states" "IssuerSHA256 st' = IssuerSHA256 st"
      using sub' st by force
    obtain p where p: "merge_issuer (old_states ?is) p = Inr st'" using list_all2_right[OF ms st'(1)] by blast
    then have "issuer_le st st'"
      using look[OF st] st'(2) merge_issuer_ok(1,7)[OF p] by simp
    then show ?thesis using st'(1) by blast
  qed
  moreover have "set (issuer_keys states) = set (issuer_keys ?is)" if "?is \<noteq> []"
    using card_subset_eq[OF _ sub'] size that dist old by (metis List.finite_set distinct_card length_map)
  ultimately show ?thesis by (simp add: checkpoint_le_def cp)
qed

end
