(* ===== verification/Revocation_Safety.thy ===== *)
theory Revocation_Safety
  imports Revocation_Facts
begin

text \<open>
  The invariant of a revocation manager among its connections, timers and clock, and that every
  step keeps it.
\<close>

section \<open>Timers\<close>

definition armed_for :: "IssuerCheckpoint list \<Rightarrow> instant \<Rightarrow> instant \<Rightarrow> bool" where
  "armed_for issuers now due \<longleftrightarrow> (\<exists>st\<in>set issuers. NextUpdate st \<le> due)
     \<and> (due \<le> now \<or> (\<forall>st\<in>set issuers. due \<le> NextUpdate st))"

lemma earliest_update_acc:
  "\<forall>st\<in>set issuers. NextUpdate st \<noteq> 0 \<Longrightarrow> e \<noteq> 0 \<Longrightarrow>
   (earliest_update e issuers = e \<or> earliest_update e issuers \<in> NextUpdate ` set issuers)
   \<and> earliest_update e issuers \<le> e \<and> (\<forall>st\<in>set issuers. earliest_update e issuers \<le> NextUpdate st)"
proof (induction issuers arbitrary: e)
  case (Cons st issuers)
  show ?case
  proof (cases "NextUpdate st < e")
    case True
    then show ?thesis using Cons.IH[of "NextUpdate st"] Cons.prems by auto
  next
    case False
    then show ?thesis using Cons.IH[of e] Cons.prems by auto
  qed
qed simp

lemma earliest_update_min:
  assumes "issuers \<noteq> []" "\<forall>st\<in>set issuers. NextUpdate st \<noteq> 0"
  shows "earliest_update 0 issuers \<in> NextUpdate ` set issuers"
    "\<forall>st\<in>set issuers. earliest_update 0 issuers \<le> NextUpdate st"
proof -
  obtain st sts where issuers: "issuers = st # sts" using assms(1) by (cases issuers) auto
  show "earliest_update 0 issuers \<in> NextUpdate ` set issuers"
    "\<forall>st\<in>set issuers. earliest_update 0 issuers \<le> NextUpdate st"
    using earliest_update_acc[of sts "NextUpdate st"] assms(2) by (auto simp: issuers)
qed

lemma scheduleExpiry_armed:
  assumes "issuers \<noteq> []" "\<forall>st\<in>set issuers. NextUpdate st \<noteq> 0"
  obtains due where "armed_for issuers now due"
    "scheduleExpiryLocked now issuers m =
       m\<lparr>rm_timerGeneration := rm_timerGeneration m + 1,
         rm_expiryTimer := Some (rm_timerGeneration m + 1, due)\<rparr>"
proof -
  let ?e = "earliest_update 0 issuers"
  have e: "?e \<in> NextUpdate ` set issuers" "\<forall>st\<in>set issuers. ?e \<le> NextUpdate st"
    using earliest_update_min[OF assms] by auto
  then have "?e \<noteq> 0" using assms(2) by auto
  then have "scheduleExpiryLocked now issuers m =
       m\<lparr>rm_timerGeneration := rm_timerGeneration m + 1,
         rm_expiryTimer := Some (rm_timerGeneration m + 1, max now ?e)\<rparr>"
    by (auto simp: scheduleExpiryLocked_def Let_def max_def)
  moreover have "armed_for issuers now (max now ?e)"
    using e by (auto simp: armed_for_def max_def) (meson linear)
  ultimately show ?thesis using that by blast
qed

section \<open>The invariant\<close>

text \<open>The bookkeeping of connections: nothing open is forgotten.\<close>

definition conns_inv :: "trackedConnection list \<Rightarrow> connection list \<Rightarrow> connection list \<Rightarrow> bool" where
  "conns_inv conns active fencing \<longleftrightarrow> set active \<subseteq> {..<length conns} \<and> set fencing \<subseteq> {..<length conns}
     \<and> distinct active \<and> (\<forall>c\<in>set active. \<not> tc_done (conns ! c)) \<and> set active \<inter> set fencing = {}
     \<and> (\<forall>c < length conns. \<not> tc_done (conns ! c) \<longrightarrow> c \<in> set active \<union> set fencing)"

definition snapshot_inv :: "pki \<Rightarrow> RevocationManager \<Rightarrow> bool" where
  "snapshot_inv pki m \<longleftrightarrow>
     rm_checkpoint m = no_checkpoint \<and> rm_bundleHash m = []
     \<or> checkpoint_ok pki m (rm_checkpoint m) \<and> rm_bundleHash m = checkpointBundleHash pki (rm_checkpoint m)"

abbreviation current :: "RevocationManager \<Rightarrow> IssuerCheckpoint list" where
  "current m \<equiv> CP_Issuers (rm_checkpoint m)"

text \<open>Whoever is active was admitted by the current snapshot.\<close>

definition admitted_inv :: "pki \<Rightarrow> IssuerCheckpoint list \<Rightarrow> trackedConnection list \<Rightarrow> connection list \<Rightarrow> bool" where
  "admitted_inv pki issuers conns active \<longleftrightarrow>
     (\<forall>c\<in>set active. issuers \<noteq> [] \<and> tc_verifiedChains (conns ! c) \<noteq> []
       \<and> (\<forall>chain\<in>set (tc_verifiedChains (conns ! c)). chain_cleared pki issuers chain))"

text \<open>While the 64-bit generation has not wrapped, an armed timer guards every active connection.\<close>

definition timer_inv :: "IssuerCheckpoint list \<Rightarrow> instant \<Rightarrow> bool \<Rightarrow> connection list \<Rightarrow> (u64 \<times> instant) option
    \<Rightarrow> u64 \<Rightarrow> (u64 \<times> instant) list \<Rightarrow> nat \<Rightarrow> bool" where
  "timer_inv issuers now closed active timer gen timers schedules \<longleftrightarrow>
     unat gen = schedules \<and> distinct timers
     \<and> (\<forall>t\<in>set timers. unat (fst t) < schedules \<or> timer = Some t)
     \<and> (case timer of
          None \<Rightarrow> active = [] \<and> (closed \<or> issuers = [] \<or> (\<exists>st\<in>set issuers. NextUpdate st \<le> now))
        | Some t \<Rightarrow> fst t = gen \<and> t \<in> set timers \<and> armed_for issuers now (snd t)
            \<and> (active \<noteq> [] \<longrightarrow> (\<forall>st\<in>set issuers. snd t \<le> NextUpdate st)))"

definition rev_inv :: "pki \<Rightarrow> revocation_world \<Rightarrow> bool" where
  "rev_inv pki w \<longleftrightarrow> (let m = rw_manager w in
     0 \<le> rw_now w \<and> (rm_closed m \<longrightarrow> rm_active m = [])
     \<and> snapshot_inv pki m \<and> conns_inv (rw_conns w) (rm_active m) (rw_fencing w)
     \<and> admitted_inv pki (current m) (rw_conns w) (rm_active m)
     \<and> (rw_schedules w < 2 ^ 64 \<longrightarrow>
          timer_inv (current m) (rw_now w) (rm_closed m) (rm_active m) (rm_expiryTimer m)
            (rm_timerGeneration m) (rw_timers w) (rw_schedules w)))"

lemma snapshot_inv_distinct: "snapshot_inv pki m \<Longrightarrow> distinct (issuer_keys (current m))"
  by (auto simp: snapshot_inv_def checkpoint_ok_def validateCheckpoint_iff split: if_splits)

lemma snapshot_inv_ok: "snapshot_inv pki m \<Longrightarrow> st \<in> set (current m) \<Longrightarrow> issuer_ok st"
  by (auto simp: snapshot_inv_def checkpoint_ok_def validateCheckpoint_iff split: if_splits)

section \<open>The connections\<close>

lemma conns_inv_close:
  assumes "conns_inv conns active fencing" "c < length conns"
  shows "conns_inv (conns[c := (conns ! c)\<lparr>tc_done := True\<rparr>]) (removeAll c active) fencing"
  using assms unfolding conns_inv_def by (auto simp: nth_list_update distinct_removeAll)

lemma conns_inv_fenced:
  "conns_inv conns active fencing \<Longrightarrow> conns_inv conns [] (fencing @ active)"
  unfolding conns_inv_def by auto

lemma conns_inv_unfence:
  assumes "conns_inv conns active fencing" "c < length conns" "tc_done (conns ! c)"
  shows "conns_inv conns active (remove1 c fencing)"
proof -
  have "set (remove1 c fencing) \<subseteq> set fencing" by (rule set_remove1_subset)
  moreover have "d \<in> set (remove1 c fencing)" if "d \<in> set fencing" "d \<noteq> c" for d
    using that by simp
  ultimately show ?thesis using assms unfolding conns_inv_def by blast
qed

lemma conns_inv_new:
  assumes "conns_inv conns active fencing" "\<not> tc_done tc"
  shows "conns_inv (conns @ [tc]) (List.insert (length conns) active) fencing"
  using assms unfolding conns_inv_def by (auto simp: nth_append less_Suc_eq)

lemma admitted_inv_update:
  assumes "admitted_inv pki issuers conns active"
  shows "admitted_inv pki issuers (conns[c := (conns ! c)\<lparr>tc_done := True\<rparr>]) (removeAll c active)"
  using assms unfolding admitted_inv_def by (auto simp: nth_list_update)

lemma admitted_inv_new:
  assumes "admitted_inv pki issuers conns active" "set active \<subseteq> {..<length conns}" "issuers \<noteq> []"
    "tc_verifiedChains tc \<noteq> []" "\<forall>chain\<in>set (tc_verifiedChains tc). chain_cleared pki issuers chain"
  shows "admitted_inv pki issuers (conns @ [tc]) (List.insert (length conns) active)"
  using assms unfolding admitted_inv_def by (auto simp: nth_append)

section \<open>Preservation\<close>

lemma rev_inv_tracked_Close:
  assumes "rev_inv pki w" "c < length (rw_conns w)"
  shows "rev_inv pki (tracked_Close c w)"
  using assms conns_inv_close[of "rw_conns w" "rm_active (rw_manager w)" "rw_fencing w" c]
    admitted_inv_update[of pki "current (rw_manager w)" "rw_conns w" "rm_active (rw_manager w)" c]
  unfolding rev_inv_def tracked_Close_def
  by (auto simp: Let_def snapshot_inv_def checkpoint_ok_def timer_inv_def split: option.splits)

lemma tracked_Close_done:
  "c < length (rw_conns w) \<Longrightarrow> tc_done (rw_conns (tracked_Close c w) ! c)"
  by (simp add: tracked_Close_def Let_def)

lemma tracked_Close_fencing: "tracked_Close c (w\<lparr>rw_fencing := f\<rparr>) = (tracked_Close c w)\<lparr>rw_fencing := f\<rparr>"
  by (simp add: tracked_Close_def Let_def)

lemma tracked_Close_frames [simp]:
  "rw_fencing (tracked_Close c w) = rw_fencing w" "length (rw_conns (tracked_Close c w)) = length (rw_conns w)"
  by (simp_all add: tracked_Close_def Let_def)

lemma rev_inv_fence_close:
  assumes "rev_inv pki w" "c \<in> set (rw_fencing w)"
  shows "rev_inv pki (fence_close c w)"
proof -
  have c: "c < length (rw_conns w)"
    using assms by (auto simp: rev_inv_def Let_def conns_inv_def)
  let ?w = "tracked_Close c w"
  have inv: "rev_inv pki ?w" using rev_inv_tracked_Close[OF assms(1) c] .
  then have "conns_inv (rw_conns ?w) (rm_active (rw_manager ?w)) (remove1 c (rw_fencing ?w))"
    using conns_inv_unfence tracked_Close_done[OF c] c by (simp add: rev_inv_def Let_def)
  then show ?thesis
    using inv unfolding fence_close_def tracked_Close_fencing by (simp add: rev_inv_def Let_def)
qed

lemma rev_inv_track:
  assumes "rev_inv pki w"
  shows "rev_inv pki (world_track pki transport cs w)"
proof (cases "verifyLocked pki (rw_now w) (rw_manager w) cs")
  case (Some e)
  then show ?thesis using assms by (simp add: world_track_def TrackConnection_def)
next
  case None
  let ?m = "rw_manager w"
  have snap: "snapshot_inv pki ?m" using assms by (simp add: rev_inv_def Let_def)
  note ver = None[unfolded verifyLocked_iff[OF snapshot_inv_distinct[OF snap]]]
  let ?tc = "\<lparr>tc_transport = transport, tc_verifiedChains = cs, tc_done = False\<rparr>"
  have w': "world_track pki transport cs w = w\<lparr>
      rw_manager := ?m\<lparr>rm_active := List.insert (length (rw_conns w)) (rm_active ?m)\<rparr>,
      rw_conns := rw_conns w @ [?tc]\<rparr>"
    using None by (simp add: world_track_def TrackConnection_def)
  have "timer_inv (current ?m) (rw_now w) (rm_closed ?m) (List.insert (length (rw_conns w)) (rm_active ?m))
      (rm_expiryTimer ?m) (rm_timerGeneration ?m) (rw_timers w) (rw_schedules w)"
    if "timer_inv (current ?m) (rw_now w) (rm_closed ?m) (rm_active ?m)
      (rm_expiryTimer ?m) (rm_timerGeneration ?m) (rw_timers w) (rw_schedules w)"
    using that ver by (fastforce simp: timer_inv_def armed_for_def split: option.splits)
  moreover have "conns_inv (rw_conns w @ [?tc]) (List.insert (length (rw_conns w)) (rm_active ?m)) (rw_fencing w)"
    using assms by (intro conns_inv_new) (simp_all add: rev_inv_def Let_def)
  moreover have "admitted_inv pki (current ?m) (rw_conns w @ [?tc]) (List.insert (length (rw_conns w)) (rm_active ?m))"
    using assms ver by (intro admitted_inv_new) (simp_all add: rev_inv_def Let_def conns_inv_def)
  ultimately show ?thesis
    using assms ver unfolding w' by (simp add: rev_inv_def Let_def snapshot_inv_def checkpoint_ok_def)
qed

text \<open>Either nothing changed, or the snapshot was replaced and everything active goes to the fence.\<close>

lemma Apply_cases:
  assumes "Apply pki now (Some m) bundle = (m', r, fenced)"
  obtains (same) "m' = Some m" "fenced = []"
      "\<And>cp. r = Inr cp \<Longrightarrow> cp = rm_checkpoint m \<and> \<not> rm_closed m
        \<and> (\<exists>cp'. validateLocked pki now m bundle = Inr (cp', rm_bundleHash m))"
  | (replaced) cp hash where "validateLocked pki now m bundle = Inr (cp, hash)" "hash \<noteq> rm_bundleHash m"
      "\<not> rm_closed m" "r = Inr cp" "fenced = rm_active m"
      "m' = Some (scheduleExpiryLocked now (CP_Issuers cp)
          (m\<lparr>rm_active := [], rm_bundleHash := hash, rm_checkpoint := cp\<rparr>))"
  using assms by (auto simp: Apply_def Let_def split: if_splits sum.splits)

lemma timer_inv_rearmed:
  assumes "timer_inv issuers now closed active timer gen timers n" "Suc n < 2 ^ 64"
    "armed_for issuers' now due"
  shows "timer_inv issuers' now closed' [] (Some (gen + 1, due)) (gen + 1) (timers @ [(gen + 1, due)]) (Suc n)"
proof -
  have gen: "unat gen = n" using assms(1) by (simp add: timer_inv_def)
  then have next_gen: "unat (gen + 1) = Suc n" using assms(2) by (simp add: unat_word_ariths)
  have "unat (fst t) \<le> n" if "t \<in> set timers" for t
    using that assms(1) gen by (auto simp: timer_inv_def split: option.splits)
  then have "(gen + 1, due) \<notin> set timers" "\<forall>t\<in>set timers. unat (fst t) < Suc n"
    using next_gen by force+
  then show ?thesis using assms next_gen by (auto simp: timer_inv_def)
qed

lemma timer_inv_stopped:
  assumes "timer_inv issuers now closed active timer gen timers n" "Suc n < 2 ^ 64"
  shows "timer_inv issuers now True [] None (gen + 1) timers (Suc n)"
proof -
  have gen: "unat gen = n" using assms(1) by (simp add: timer_inv_def)
  then have "unat (gen + 1) = Suc n" using assms(2) by (simp add: unat_word_ariths)
  moreover have "unat (fst t) \<le> n" if "t \<in> set timers" for t
    using that assms(1) gen by (auto simp: timer_inv_def split: option.splits)
  ultimately show ?thesis using assms by (auto simp: timer_inv_def less_Suc_eq_le)
qed

lemma timer_inv_fired:
  assumes "timer_inv issuers now closed active timer gen timers n" "t \<in> set timers" "snd t \<le> now" "fst t = gen"
  shows "timer_inv issuers now closed [] None gen (remove1 t timers) n"
proof -
  have "timer = Some t" using assms by (auto simp: timer_inv_def)
  then show ?thesis using assms by (fastforce simp: timer_inv_def armed_for_def)
qed

lemma timer_inv_stale:
  assumes "timer_inv issuers now closed active timer gen timers n" "t \<in> set timers" "fst t \<noteq> gen"
  shows "timer_inv issuers now closed active timer gen (remove1 t timers) n"
  using assms by (auto simp: timer_inv_def split: option.splits dest: notin_set_remove1)

lemma timer_inv_tick:
  "timer_inv issuers now closed active timer gen timers n \<Longrightarrow> now \<le> now' \<Longrightarrow>
   timer_inv issuers now' closed active timer gen timers n"
  by (fastforce simp: timer_inv_def armed_for_def split: option.splits)

lemma rev_inv_apply:
  assumes inv: "rev_inv pki w" and sized: "sha256_sized pki"
  shows "rev_inv pki (world_apply pki bundle w)"
proof -
  let ?m = "rw_manager w"
  obtain m' r fenced where ap: "Apply pki (rw_now w) (Some ?m) bundle = (m', r, fenced)"
    by (cases "Apply pki (rw_now w) (Some ?m) bundle") auto
  from ap show ?thesis
  proof (cases rule: Apply_cases)
    case same
    then show ?thesis using inv ap
      by (simp add: world_apply_def manager_update_def fenceLocked_def)
  next
    case (replaced cp hash)
    have clock: "0 \<le> rw_now w" using inv by (simp add: rev_inv_def Let_def)
    note ok = validateLocked_ok[OF replaced(1) sized clock]
    have "\<forall>st\<in>set (CP_Issuers cp). NextUpdate st \<noteq> 0" using ok(4) clock by auto
    let ?m' = "?m\<lparr>rm_active := [], rm_bundleHash := hash, rm_checkpoint := cp\<rparr>"
    from scheduleExpiry_armed[OF ok(3) \<open>\<forall>st\<in>set (CP_Issuers cp). NextUpdate st \<noteq> 0\<close>,
        where m = ?m' and now = "rw_now w"] obtain due where
      armed: "armed_for (CP_Issuers cp) (rw_now w) due" and
      m': "m' = Some (?m\<lparr>rm_active := [], rm_bundleHash := hash, rm_checkpoint := cp,
         rm_timerGeneration := rm_timerGeneration ?m + 1,
         rm_expiryTimer := Some (rm_timerGeneration ?m + 1, due)\<rparr>)"
      using replaced(6) by auto
    have w': "world_apply pki bundle w = w\<lparr>
        rw_manager := ?m\<lparr>rm_active := [], rm_bundleHash := hash, rm_checkpoint := cp,
           rm_timerGeneration := rm_timerGeneration ?m + 1,
           rm_expiryTimer := Some (rm_timerGeneration ?m + 1, due)\<rparr>,
        rw_schedules := Suc (rw_schedules w),
        rw_timers := rw_timers w @ [(rm_timerGeneration ?m + 1, due)],
        rw_fencing := rw_fencing w @ rm_active ?m\<rparr>"
      using ap by (simp add: world_apply_def m' manager_update_def fenceLocked_def replaced(5))
    show ?thesis
      using inv conns_inv_fenced timer_inv_rearmed[OF _ _ armed] ok(1,2) unfolding w'
      by (auto simp: rev_inv_def Let_def snapshot_inv_def checkpoint_ok_def admitted_inv_def)
  qed
qed

lemma rev_inv_manager_close:
  assumes inv: "rev_inv pki w"
  shows "rev_inv pki (world_close w)"
proof -
  let ?m = "rw_manager w"
  have w': "world_close w = w\<lparr>
      rw_manager := ?m\<lparr>rm_closed := True, rm_timerGeneration := rm_timerGeneration ?m + 1,
        rm_expiryTimer := None, rm_active := []\<rparr>,
      rw_schedules := Suc (rw_schedules w), rw_fencing := rw_fencing w @ rm_active ?m\<rparr>"
    by (simp add: world_close_def manager_Close_def manager_update_def fenceLocked_def)
  show ?thesis
    using inv conns_inv_fenced timer_inv_stopped unfolding w'
    by (auto simp: rev_inv_def Let_def snapshot_inv_def checkpoint_ok_def admitted_inv_def)
qed

lemma rev_inv_expire:
  assumes inv: "rev_inv pki w" and t: "t \<in> set (rw_timers w)" "snd t \<le> rw_now w"
  shows "rev_inv pki (world_expire t w)"
proof (cases "fst t = rm_timerGeneration (rw_manager w)")
  case True
  then show ?thesis
    using inv t conns_inv_fenced timer_inv_fired[OF _ t True]
    by (auto simp: rev_inv_def Let_def world_expire_def expiry_callback_def fenceLocked_def
        snapshot_inv_def checkpoint_ok_def admitted_inv_def)
next
  case False
  then show ?thesis
    using inv t timer_inv_stale[OF _ t(1) False]
    by (auto simp: rev_inv_def Let_def world_expire_def expiry_callback_def fenceLocked_def)
qed

lemma rev_inv_step:
  assumes "rev_step pki w w'" "sha256_sized pki" "rev_inv pki w"
  shows "rev_inv pki w'"
  using assms(1)
proof (cases rule: rev_step.cases)
  case (step_tick now)
  then show ?thesis using assms(3) timer_inv_tick by (auto simp: rev_inv_def Let_def)
qed (use assms rev_inv_apply rev_inv_track rev_inv_tracked_Close rev_inv_fence_close
      rev_inv_manager_close rev_inv_expire in auto)

lemma rev_inv_steps:
  "rev_steps pki w w' \<Longrightarrow> sha256_sized pki \<Longrightarrow> rev_inv pki w \<Longrightarrow> rev_inv pki w'"
  by (induction rule: rtranclp_induct) (auto intro: rev_inv_step)

definition new_manager :: "Certificate list \<Rightarrow> bytes list \<Rightarrow> string \<Rightarrow> RevocationManager" where
  "new_manager pool canonical digest = \<lparr>rm_rootDER = sort canonical, rm_roots = pool, rm_rootDigest = digest,
     rm_checkpoint = no_checkpoint, rm_active = [], rm_bundleHash = [],
     rm_expiryTimer = None, rm_timerGeneration = 0, rm_closed = False\<rparr>"

lemma new_manager_simps [simp]:
  "rm_rootDER (new_manager pool canonical digest) = sort canonical"
  "rm_rootDigest (new_manager pool canonical digest) = digest"
  "rm_active (new_manager pool canonical digest) = []"
  "rm_timerGeneration (new_manager pool canonical digest) = 0"
  "rm_closed (new_manager pool canonical digest) = False"
  "rm_checkpoint (new_manager pool canonical digest) = no_checkpoint"
  "rm_bundleHash (new_manager pool canonical digest) = []"
  "rm_expiryTimer (new_manager pool canonical digest) = None"
  by (simp_all add: new_manager_def)

text \<open>A manager starts from nothing or from a checkpoint that passed every test.\<close>

lemma NewRevocationManager_eq:
  assumes "rootDER \<noteq> []" "CanonicalTrustRootsDigest pki rootDER = Inr digest"
    "parse_roots pki rootDER ([], []) = Some (pool, canonical)"
  shows "NewRevocationManager pki now rootDER None = Inr (new_manager pool canonical digest)"
    "checkpoint_ok pki (new_manager pool canonical digest) cp \<Longrightarrow>
     NewRevocationManager pki now rootDER (Some cp) =
       Inr (scheduleExpiryLocked now (CP_Issuers cp) ((new_manager pool canonical digest)
         \<lparr>rm_checkpoint := cp, rm_bundleHash := checkpointBundleHash pki cp\<rparr>))"
    "NewRevocationManager pki now rootDER (Some cp) = Inr m \<Longrightarrow>
     checkpoint_ok pki (new_manager pool canonical digest) cp"
  using assms by (auto simp: NewRevocationManager_def Let_def checkpoint_ok_def new_manager_def split: if_splits option.splits)

lemma NewRevocationManager_Inr:
  assumes "NewRevocationManager pki now rootDER checkpoint = Inr m"
  obtains digest pool canonical where "rootDER \<noteq> []" "CanonicalTrustRootsDigest pki rootDER = Inr digest"
    "parse_roots pki rootDER ([], []) = Some (pool, canonical)"
  using assms by (auto simp: NewRevocationManager_def split: if_splits sum.splits option.splits)

lemma rev_inv_restored:
  assumes "checkpoint_ok pki (new_manager pool canonical digest) cp" "0 \<le> now"
  shows "rev_inv pki (NewWorld now (scheduleExpiryLocked now (CP_Issuers cp) ((new_manager pool canonical digest)
         \<lparr>rm_checkpoint := cp, rm_bundleHash := checkpointBundleHash pki cp\<rparr>)))"
proof (cases "CP_Issuers cp = []")
  case True
  then show ?thesis using assms
    by (simp add: scheduleExpiryLocked_def Let_def NewWorld_def rev_inv_def snapshot_inv_def
        checkpoint_ok_def conns_inv_def admitted_inv_def timer_inv_def)
next
  case False
  let ?m = "(new_manager pool canonical digest)\<lparr>rm_checkpoint := cp, rm_bundleHash := checkpointBundleHash pki cp\<rparr>"
  have "\<forall>st\<in>set (CP_Issuers cp). NextUpdate st \<noteq> 0"
    using assms False by (auto simp: checkpoint_ok_def validateCheckpoint_iff issuer_ok_def)
  from scheduleExpiry_armed[OF False this, where m = ?m and now = now] obtain due where
    "armed_for (CP_Issuers cp) now due" and
    m: "scheduleExpiryLocked now (CP_Issuers cp) ?m = ?m\<lparr>rm_timerGeneration := rm_timerGeneration ?m + 1,
         rm_expiryTimer := Some (rm_timerGeneration ?m + 1, due)\<rparr>" .
  then show ?thesis using assms unfolding m
    by (simp add: NewWorld_def rev_inv_def snapshot_inv_def checkpoint_ok_def conns_inv_def
        admitted_inv_def timer_inv_def)
qed

lemma rev_inv_initial:
  assumes "NewRevocationManager pki now rootDER checkpoint = Inr m" "0 \<le> now"
  shows "rev_inv pki (NewWorld now m)"
proof -
  from assms(1) obtain digest pool canonical where
    roots: "rootDER \<noteq> []" "CanonicalTrustRootsDigest pki rootDER = Inr digest"
    "parse_roots pki rootDER ([], []) = Some (pool, canonical)"
    by (rule NewRevocationManager_Inr)
  note new = NewRevocationManager_eq[OF roots]
  show ?thesis
  proof (cases checkpoint)
    case None
    then have m: "m = new_manager pool canonical digest" using assms(1) new(1) by simp
    show ?thesis using assms(2) unfolding m
      by (simp add: NewWorld_def rev_inv_def snapshot_inv_def conns_inv_def admitted_inv_def timer_inv_def)
  next
    case (Some cp)
    then have ok: "checkpoint_ok pki (new_manager pool canonical digest) cp" using assms(1) new(3) by simp
    then show ?thesis using rev_inv_restored[OF ok assms(2)] assms(1) new(2)[OF ok] Some by simp
  qed
qed

end
