(* ===== verification/Revocation_Properties.thy ===== *)
theory Revocation_Properties
  imports Revocation_Safety "HOL-Library.Multiset"
begin

text \<open>
  What the revocation manager promises its users, over every history of bundles, connections,
  timers and restarts.
\<close>

definition rev_reachable :: "pki \<Rightarrow> revocation_world \<Rightarrow> bool" where
  "rev_reachable pki w \<longleftrightarrow> (\<exists>now rootDER checkpoint m. 0 \<le> now
     \<and> NewRevocationManager pki now rootDER checkpoint = Inr m \<and> rev_steps pki (NewWorld now m) w)"

lemma rev_reachable_inv: "rev_reachable pki w \<Longrightarrow> sha256_sized pki \<Longrightarrow> rev_inv pki w"
  unfolding rev_reachable_def using rev_inv_initial rev_inv_steps by blast

lemma rev_reachable_distinct:
  "rev_reachable pki w \<Longrightarrow> sha256_sized pki \<Longrightarrow> distinct (issuer_keys (current (rw_manager w)))"
  using rev_reachable_inv snapshot_inv_distinct by (fastforce simp: rev_inv_def Let_def)

section \<open>A library for the examples\<close>

text \<open>
  A certificate is its own DER, every signature is good, and the hash of a short slice is the slice
  padded to 32 bytes.
\<close>

definition sample_cert :: "bytes \<Rightarrow> int \<Rightarrow> Certificate" where
  "sample_cert der serial = \<lparr>Cert_Raw = der, Cert_IsCA = True, Cert_SerialNumber = serial,
     Cert_Subject = ''CN=sample'', Cert_SubjectKeyId = [], Cert_URIs = []\<rparr>"

definition sample_crl :: RevocationList where
  "sample_crl = \<lparr>CRL_Issuer = ''CN=sample'', CRL_AuthorityKeyId = [], CRL_Number = Some 7,
     CRL_ThisUpdate = 0, CRL_NextUpdate = 100, CRL_Extensions = [],
     CRL_RevokedCertificateEntries = [\<lparr>Entry_SerialNumber = Some 5, Entry_Extensions = []\<rparr>]\<rparr>"

definition sample_pki :: pki where
  "sample_pki = \<lparr>ParseCertificate = (\<lambda>der. Some (sample_cert der 1)), ParseRevocationList = (\<lambda>der. Some sample_crl),
     CheckSignatureFrom = (\<lambda>crl issuer. True), Verify = (\<lambda>c roots pool now. Some [[c]]),
     Sum256 = (\<lambda>bs. take 32 (bs @ replicate 32 0))\<rparr>"

definition sample_root :: bytes where "sample_root = [1]"

definition sample_state :: IssuerCheckpoint where
  "sample_state = \<lparr>IssuerSHA256 = hexsum sample_pki sample_root, CRLNumber = big_String 7,
     CRLSHA256 = hexsum sample_pki [2], NextUpdate = 100, Revoked = [big_String 5]\<rparr>"

definition sample_checkpoint :: CRLCheckpoint where
  "sample_checkpoint = (let cp = \<lparr>CP_TrustRootsDigest = hexsum sample_pki sample_root, CP_BundleSHA256 = [],
       CP_Issuers = [sample_state]\<rparr> in cp\<lparr>CP_BundleSHA256 := checkpointBundleHash sample_pki cp\<rparr>)"

definition sample_manager :: RevocationManager where
  "sample_manager = \<lparr>rm_rootDER = [sample_root], rm_roots = [sample_cert sample_root 1],
     rm_rootDigest = hexsum sample_pki sample_root, rm_checkpoint = sample_checkpoint, rm_active = [],
     rm_bundleHash = checkpointBundleHash sample_pki sample_checkpoint,
     rm_expiryTimer = Some (1, 100), rm_timerGeneration = 1, rm_closed = False\<rparr>"

lemma sample_sized [simp]: "sha256_sized sample_pki"
  by (auto simp: sha256_sized_def sample_pki_def min_def)

lemma sample_digest [simp]: "CanonicalTrustRootsDigest sample_pki [sample_root] = Inr (hexsum sample_pki sample_root)"
  by (simp add: CanonicalTrustRootsDigest_def)

lemma sample_parse [simp]:
  "parse_roots sample_pki [sample_root] ([], []) = Some ([sample_cert sample_root 1], [sample_root])"
  by (simp add: sample_pki_def AddCert_def sample_cert_def)

lemma sample_checkpoint_simps [simp]:
  "CP_Issuers sample_checkpoint = [sample_state]"
  "CP_TrustRootsDigest sample_checkpoint = hexsum sample_pki sample_root"
  "CP_BundleSHA256 sample_checkpoint = checkpointBundleHash sample_pki sample_checkpoint"
  by (simp_all add: sample_checkpoint_def Let_def checkpointBundleHash_def checkpoint_canonical_def)

lemma sample_state_simps [simp]:
  "IssuerSHA256 sample_state = hexsum sample_pki sample_root" "CRLNumber sample_state = big_String 7"
  "CRLSHA256 sample_state = hexsum sample_pki [2]" "NextUpdate sample_state = 100"
  "Revoked sample_state = [big_String 5]"
  by (simp_all add: sample_state_def)

lemma sample_valid [simp]: "validateCheckpoint sample_pki sample_checkpoint = None"
  by (simp add: validateCheckpoint_iff issuer_ok_def) (simp add: checkpointBundleHash_def)

lemma sample_restores:
  "NewRevocationManager sample_pki 0 [sample_root] (Some sample_checkpoint) = Inr sample_manager"
  using NewRevocationManager_eq(2)[of "[sample_root]" sample_pki "hexsum sample_pki sample_root"
      "[sample_cert sample_root 1]" "[sample_root]" sample_checkpoint 0, OF _ sample_digest sample_parse]
  by (simp add: checkpoint_ok_def new_manager_def roots_covered_def sample_manager_def
      scheduleExpiryLocked_def Let_def)

lemma sample_world_reachable: "rev_reachable sample_pki (NewWorld 0 sample_manager)"
  unfolding rev_reachable_def using sample_restores by blast

section \<open>Histories\<close>

lemma rev_inv_current:
  assumes "rev_inv pki w"
  shows "distinct (issuer_keys (current (rw_manager w)))"
    "\<forall>st\<in>set (current (rw_manager w)). natural_text (CRLNumber st)"
  using assms snapshot_inv_distinct[of pki "rw_manager w"] snapshot_inv_ok[of pki "rw_manager w"]
  by (auto simp: rev_inv_def Let_def issuer_ok_def)

lemma rev_step_checkpoint:
  assumes "rev_step pki w w'"
  shows "rm_checkpoint (rw_manager w') = rm_checkpoint (rw_manager w)
    \<or> (\<exists>bundle hash. validateLocked pki (rw_now w) (rw_manager w) bundle = Inr (rm_checkpoint (rw_manager w'), hash))"
  using assms
proof (cases rule: rev_step.cases)
  case (step_apply b)
  obtain m' r fenced where ap: "Apply pki (rw_now w) (Some (rw_manager w)) b = (m', r, fenced)"
    by (cases "Apply pki (rw_now w) (Some (rw_manager w)) b") auto
  have sched: "rm_checkpoint (scheduleExpiryLocked now issuers m) = rm_checkpoint m" for now issuers m
    by (simp add: scheduleExpiryLocked_def Let_def)
  from ap show ?thesis
    by (cases rule: Apply_cases)
      (auto simp: step_apply world_apply_def ap manager_update_def fenceLocked_def sched)
qed (auto simp: world_track_def TrackConnection_def tracked_Close_def fence_close_def world_close_def
    manager_Close_def manager_update_def fenceLocked_def world_expire_def expiry_callback_def Let_def
    split: option.splits prod.splits sum.splits)

lemma rev_steps_forward:
  assumes "rev_steps pki w w'" "sha256_sized pki" "rev_inv pki w"
  shows "checkpoint_le (rm_checkpoint (rw_manager w)) (rm_checkpoint (rw_manager w'))"
  using assms(1)
proof (induction rule: rtranclp_induct)
  case base
  then show ?case using rev_inv_current(2)[OF assms(3)] by (rule checkpoint_le_refl)
next
  case (step y z)
  have inv: "rev_inv pki y" using rev_inv_steps[OF step.hyps(1) assms(2,3)] .
  have "checkpoint_le (rm_checkpoint (rw_manager y)) (rm_checkpoint (rw_manager z))"
    using rev_step_checkpoint[OF step.hyps(2)] validateLocked_forward rev_inv_current[OF inv]
      checkpoint_le_refl by metis
  then show ?case using step.IH checkpoint_le_trans by blast
qed

section \<open>Revocation is permanent\<close>

lemma revoked_not_cleared:
  assumes "st \<in> set issuers" "distinct (issuer_keys issuers)" "serial \<in> set (Revoked st)"
  shows "\<not> cleared issuers (IssuerSHA256 st) serial"
  using assms by (auto simp: cleared_def distinct_map dest: inj_onD)

text \<open>
  C6. Once a reachable manager holds a serial as revoked for an issuer, no later state of it lets a
  certificate chain with that certificate through: neither the check of the handshake nor the
  registration of the connection accepts it, whatever bundles were applied, connections closed,
  timers run or time passed in between, and no connection with such a chain is active any more.
\<close>

theorem revoked_never_admitted:
  assumes reach: "rev_reachable pki w" and sized: "sha256_sized pki"
    and revoked: "st \<in> set (CP_Issuers (rm_checkpoint (rw_manager w)))" "big_String serial \<in> set (Revoked st)"
    and later: "rev_steps pki w w'"
    and chain: "chain \<in> set verifiedChains" "i < length chain" "Cert_SerialNumber (chain ! i) = serial"
      "hexsum pki (Cert_Raw (issuer_at chain i)) = IssuerSHA256 st"
  shows "VerifyChain pki now (Some (rw_manager w')) verifiedChains \<noteq> None
    \<and> (\<exists>e. TrackConnection pki now c (Some (rw_manager w')) True verifiedChains = (Some (rw_manager w'), Inl e))
    \<and> (\<forall>d\<in>set (rm_active (rw_manager w')). chain \<notin> set (tc_verifiedChains (rw_conns w' ! d)))"
proof -
  have inv: "rev_inv pki w" and inv': "rev_inv pki w'"
    using rev_reachable_inv[OF reach sized] rev_inv_steps[OF later sized] by auto
  obtain st' where st': "st' \<in> set (current (rw_manager w'))" "issuer_le st st'"
    using rev_steps_forward[OF later sized inv] revoked(1) by (auto simp: checkpoint_le_def)
  note dist = rev_inv_current(1)[OF inv']
  have "\<not> cleared (current (rw_manager w')) (IssuerSHA256 st) (big_String serial)"
    using revoked_not_cleared[OF st'(1) dist] st'(2) revoked(2) by (auto simp: issuer_le_def)
  then have bad: "\<not> chain_cleared pki (current (rw_manager w')) chain"
    using chain by (auto simp: chain_cleared_def)
  then have "verifyLocked pki now (rw_manager w') verifiedChains \<noteq> None"
    using chain(1) by (auto simp: verifyLocked_iff[OF dist])
  moreover have "\<forall>d\<in>set (rm_active (rw_manager w')). chain \<notin> set (tc_verifiedChains (rw_conns w' ! d))"
    using bad inv' by (auto simp: rev_inv_def Let_def admitted_inv_def)
  ultimately show ?thesis by (auto simp: VerifyChain_def TrackConnection_def)
qed

theorem revoked_never_admitted_witness:
  "VerifyChain sample_pki 10 (Some sample_manager) [[sample_cert [9] 5, sample_cert sample_root 1]] \<noteq> None"
  using revoked_never_admitted[where pki = sample_pki and w = "NewWorld 0 sample_manager"
      and w' = "NewWorld 0 sample_manager" and st = sample_state and serial = 5 and i = 0
      and chain = "[sample_cert [9] 5, sample_cert sample_root 1]" and now = 10
      and verifiedChains = "[[sample_cert [9] 5, sample_cert sample_root 1]]"] sample_world_reachable
  by (simp add: NewWorld_def sample_manager_def issuer_at_def sample_cert_def)

text \<open>
  C16. Along every history the checkpoint only moves forward: an issuer stays, its CRL number never
  decreases, the same number means the same CRL, its revoked set only grows, and once there are
  issuers no other issuer can appear.
\<close>

theorem checkpoint_only_grows:
  assumes "rev_reachable pki w" "sha256_sized pki" "rev_steps pki w w'"
    and st: "st \<in> set (CP_Issuers (rm_checkpoint (rw_manager w)))"
  shows "\<exists>st'\<in>set (CP_Issuers (rm_checkpoint (rw_manager w'))). IssuerSHA256 st' = IssuerSHA256 st
      \<and> (\<exists>n n'. big_SetString (CRLNumber st) = Some n \<and> big_SetString (CRLNumber st') = Some n' \<and> n \<le> n'
           \<and> (n = n' \<longrightarrow> CRLSHA256 st' = CRLSHA256 st))
      \<and> set (Revoked st) \<subseteq> set (Revoked st')
      \<and> IssuerSHA256 ` set (CP_Issuers (rm_checkpoint (rw_manager w')))
        = IssuerSHA256 ` set (CP_Issuers (rm_checkpoint (rw_manager w)))"
proof -
  have le: "checkpoint_le (rm_checkpoint (rw_manager w)) (rm_checkpoint (rw_manager w'))"
    using rev_steps_forward[OF assms(3,2) rev_reachable_inv[OF assms(1,2)]] .
  then obtain st' where st': "st' \<in> set (current (rw_manager w'))" "issuer_le st st'"
    using st by (auto simp: checkpoint_le_def)
  moreover have "IssuerSHA256 ` set (current (rw_manager w')) = IssuerSHA256 ` set (current (rw_manager w))"
    using le st by (auto simp: checkpoint_le_def)
  ultimately show ?thesis unfolding issuer_le_def by (metis (no_types, lifting))
qed

theorem checkpoint_only_grows_witness:
  "\<exists>st'\<in>set (CP_Issuers (rm_checkpoint (rw_manager ((NewWorld 0 sample_manager)\<lparr>rw_now := 3\<rparr>)))).
     set (Revoked sample_state) \<subseteq> set (Revoked st')"
proof -
  have step: "rev_steps sample_pki (NewWorld 0 sample_manager) ((NewWorld 0 sample_manager)\<lparr>rw_now := 3\<rparr>)"
    by (rule r_into_rtranclp, rule step_tick) (simp add: NewWorld_def)
  have "sample_state \<in> set (CP_Issuers (rm_checkpoint (rw_manager (NewWorld 0 sample_manager))))"
    by (simp add: NewWorld_def sample_manager_def)
  from checkpoint_only_grows[OF sample_world_reachable sample_sized step this] show ?thesis by blast
qed

section \<open>Verification\<close>

text \<open>
  C20. Chain verification fails closed: on a reachable manager it succeeds exactly when the manager
  is open, the peer has at least one verified chain, a bundle is loaded, every CRL of it is still
  fresh, and every certificate of every chain, the root included, is covered by a CRL of its issuer
  and not listed in it.
\<close>

theorem VerifyChain_iff:
  assumes "rev_reachable pki w" "sha256_sized pki"
  shows "VerifyChain pki now (Some (rw_manager w)) verifiedChains = None \<longleftrightarrow>
    (let issuers = CP_Issuers (rm_checkpoint (rw_manager w)) in
     \<not> rm_closed (rw_manager w) \<and> verifiedChains \<noteq> [] \<and> issuers \<noteq> []
     \<and> (\<forall>st\<in>set issuers. now < NextUpdate st)
     \<and> (\<forall>chain\<in>set verifiedChains. chain \<noteq> [] \<and> (\<forall>i < length chain. \<exists>st\<in>set issuers.
          IssuerSHA256 st = hexsum pki (Cert_Raw (chain ! (if Suc i < length chain then Suc i else i)))
          \<and> big_String (Cert_SerialNumber (chain ! i)) \<notin> set (Revoked st))))"
proof -
  have inv: "rev_inv pki w" using rev_reachable_inv[OF assms] .
  have "current (rw_manager w) \<noteq> [] \<Longrightarrow> rm_bundleHash (rw_manager w) \<noteq> []"
    using inv assms(2) by (auto simp: rev_inv_def Let_def snapshot_inv_def checkpointBundleHash_def)
  then show ?thesis
    unfolding VerifyChain_def option.simps verifyLocked_iff[OF rev_inv_current(1)[OF inv]]
    by (auto simp: Let_def chain_cleared_def cleared_def issuer_at_def)
qed

theorem VerifyChain_iff_witness:
  "VerifyChain sample_pki 10 (Some (rw_manager (NewWorld 0 sample_manager))) [[sample_cert sample_root 1]] = None"
  using VerifyChain_iff[OF sample_world_reachable sample_sized, of 10 "[[sample_cert sample_root 1]]"]
  by (simp add: NewWorld_def sample_manager_def sample_cert_def)

section \<open>Fencing\<close>

lemma rev_reachable_step: "rev_reachable pki w \<Longrightarrow> rev_step pki w w' \<Longrightarrow> rev_reachable pki w'"
  unfolding rev_reachable_def by (meson rtranclp.rtrancl_into_rtrancl)

text \<open>A manager without a checkpoint, and a bundle it accepts.\<close>

definition fresh_manager :: RevocationManager where
  "fresh_manager = new_manager [sample_cert sample_root 1] [sample_root] (hexsum sample_pki sample_root)"

definition sample_bundle :: RevocationBundle where
  "sample_bundle = \<lparr>Bundle_TrustRootsDigest = hexsum sample_pki sample_root,
     Bundle_Records = [\<lparr>IssuerDER = sample_root, CRLDER = [2]\<rparr>]\<rparr>"

lemma fresh_reachable: "rev_reachable sample_pki (NewWorld 0 fresh_manager)"
  unfolding rev_reachable_def fresh_manager_def
  using NewRevocationManager_eq(1)[OF _ sample_digest sample_parse] by blast

lemma sample_bundle_valid:
  "validateLocked sample_pki 0 fresh_manager sample_bundle
    = Inr (sample_checkpoint, checkpointBundleHash sample_pki sample_checkpoint)"
proof -
  let ?certs = "[(hexsum sample_pki sample_root, sample_cert sample_root 1)]"
  have "collect_issuers sample_pki (Bundle_Records sample_bundle) ([], []) = Inr (?certs, [sample_cert sample_root 1])"
    by (simp add: sample_bundle_def) (simp add: sample_pki_def AddCert_def sample_cert_def)
  moreover have "parse_records sample_pki 0 (rm_roots fresh_manager) ?certs [sample_cert sample_root 1]
      (Bundle_Records sample_bundle) [] = Inr [\<lparr>pr_issuer = sample_cert sample_root 1, pr_crl = sample_crl,
        pr_issuerHash = hexsum sample_pki sample_root, pr_crlHash = hexsum sample_pki [2], pr_revoked = [big_String 5]\<rparr>]"
    by (simp add: sample_bundle_def parse_record_def Let_def)
      (simp add: sample_pki_def sample_crl_def crl_acceptable_def sample_cert_def supportedCRLExtensions_def
        supportedRevokedEntryExtensions_def)
  ultimately show ?thesis
    by (simp add: validateLocked_def fresh_manager_def roots_covered_def merge_issuer_def old_states_def Let_def
        crl_number_def)
      (simp add: sample_bundle_def sample_crl_def sample_checkpoint_def sample_state_def Let_def
        checkpointBundleHash_def checkpoint_canonical_def)
qed

text \<open>The goroutine of \<^verbatim>\<open>fenceLocked\<close> run to its end.\<close>

definition fence_drain :: "revocation_world \<Rightarrow> revocation_world" where
  "fence_drain w = fold fence_close (rw_fencing w) w"

lemma tracked_Close_keeps_done:
  "tc_done (rw_conns w ! d) \<Longrightarrow> d < length (rw_conns w) \<Longrightarrow> tc_done (rw_conns (tracked_Close c w) ! d)"
  by (cases "c = d") (simp_all add: tracked_Close_def Let_def)

lemma fence_close_conns: "rw_conns (fence_close c w) = rw_conns (tracked_Close c w)"
  by (simp add: fence_close_def tracked_Close_fencing)

lemma fold_fence_done:
  "d < length (rw_conns w) \<Longrightarrow> d \<in> set cs \<or> tc_done (rw_conns w ! d) \<Longrightarrow>
   tc_done (rw_conns (fold fence_close cs w) ! d)"
proof (induction cs arbitrary: w)
  case (Cons c cs)
  then show ?case
    using tracked_Close_done[of d w] tracked_Close_keeps_done[of w d c]
    by (simp, intro Cons.IH) (auto simp: fence_close_conns)
qed simp

lemma rev_inv_drained:
  assumes "rev_inv pki w" "rm_active (rw_manager w) = []" "c < length (rw_conns w)"
  shows "tc_done (rw_conns (fence_drain w) ! c)"
  unfolding fence_drain_def using assms
  by (intro fold_fence_done) (auto simp: rev_inv_def Let_def conns_inv_def)



text \<open>
  C17. At every moment every connection that is not closed is either in the active set, and then the
  manager is open and every certificate of the chains it authenticated with is covered by the current
  checkpoint and not revoked in it, or it is waiting for the fence to close it.
\<close>

theorem open_connections_current:
  assumes "rev_reachable pki w" "sha256_sized pki"
    and c: "c < length (rw_conns w)" "\<not> tc_done (rw_conns w ! c)"
  shows "c \<in> set (rm_active (rw_manager w)) \<and> \<not> rm_closed (rw_manager w)
      \<and> (\<forall>chain\<in>set (tc_verifiedChains (rw_conns w ! c)).
           chain_cleared pki (CP_Issuers (rm_checkpoint (rw_manager w))) chain)
    \<or> c \<notin> set (rm_active (rw_manager w)) \<and> c \<in> set (rw_fencing w)"
proof -
  have "rev_inv pki w" using rev_reachable_inv[OF assms(1,2)] .
  then have "rm_closed (rw_manager w) \<longrightarrow> rm_active (rw_manager w) = []"
    and conns: "conns_inv (rw_conns w) (rm_active (rw_manager w)) (rw_fencing w)"
    and adm: "admitted_inv pki (current (rw_manager w)) (rw_conns w) (rm_active (rw_manager w))"
    by (simp_all add: rev_inv_def Let_def)
  then show ?thesis using c unfolding conns_inv_def admitted_inv_def by auto
qed

lemma sample_tracked:
  "rev_reachable sample_pki (world_track sample_pki 0 [[sample_cert sample_root 1]] (NewWorld 0 sample_manager))"
  by (rule rev_reachable_step[OF sample_world_reachable]) (rule step_track)

lemma sample_tracked_eq:
  "world_track sample_pki 0 [[sample_cert sample_root 1]] (NewWorld 0 sample_manager)
   = (NewWorld 0 sample_manager)\<lparr>rw_manager := sample_manager\<lparr>rm_active := [0]\<rparr>,
       rw_conns := [\<lparr>tc_transport = 0, tc_verifiedChains = [[sample_cert sample_root 1]], tc_done = False\<rparr>]\<rparr>"
proof -
  have "distinct (issuer_keys (current sample_manager))" by (simp add: sample_manager_def)
  then have "verifyLocked sample_pki 0 sample_manager [[sample_cert sample_root 1]] = None"
    by (simp add: verifyLocked_iff cleared_def) (simp add: sample_manager_def sample_cert_def checkpointBundleHash_def)
  then show ?thesis by (simp add: world_track_def TrackConnection_def NewWorld_def) (simp add: sample_manager_def)
qed

theorem open_connections_current_witness:
  "chain_cleared sample_pki [sample_state] [sample_cert sample_root 1]"
  using open_connections_current[OF sample_tracked sample_sized, of 0]
  unfolding sample_tracked_eq by (simp add: NewWorld_def sample_manager_def)

text \<open>
  C40. While the 64-bit generation of the timer has not wrapped, active connections are guarded: a
  timer that is due no later than the first CRL expires is pending, and when its callback runs, every
  active connection goes to the fence, the active set is empty, and nobody is admitted again before a
  new bundle is applied, because a CRL of the current one has expired.
\<close>

theorem expiry_guard:
  assumes "rev_reachable pki w" "sha256_sized pki" "rw_schedules w < 2 ^ 64"
    and active: "rm_active (rw_manager w) \<noteq> []"
  shows "\<exists>t\<in>set (rw_timers w). rm_expiryTimer (rw_manager w) = Some t
    \<and> (\<forall>st\<in>set (CP_Issuers (rm_checkpoint (rw_manager w))). snd t \<le> NextUpdate st)
    \<and> rm_active (rw_manager (world_expire t w)) = []
    \<and> set (rm_active (rw_manager w)) \<subseteq> set (rw_fencing (world_expire t w))
    \<and> (\<forall>now cs. snd t \<le> now \<longrightarrow> VerifyChain pki now (Some (rw_manager (world_expire t w))) cs \<noteq> None)"
proof -
  let ?m = "rw_manager w"
  have inv: "rev_inv pki w" using rev_reachable_inv[OF assms(1,2)] .
  then have "timer_inv (current ?m) (rw_now w) (rm_closed ?m) (rm_active ?m) (rm_expiryTimer ?m)
      (rm_timerGeneration ?m) (rw_timers w) (rw_schedules w)"
    using assms(3) by (simp add: rev_inv_def Let_def)
  then obtain t where t: "rm_expiryTimer ?m = Some t" "t \<in> set (rw_timers w)" "fst t = rm_timerGeneration ?m"
    "\<forall>st\<in>set (current ?m). snd t \<le> NextUpdate st" "\<exists>st\<in>set (current ?m). NextUpdate st \<le> snd t"
    using active by (auto simp: timer_inv_def armed_for_def split: option.splits)
  have w': "rw_manager (world_expire t w) = ?m\<lparr>rm_active := [], rm_expiryTimer := None\<rparr>"
    "rw_fencing (world_expire t w) = rw_fencing w @ rm_active ?m"
    by (simp_all add: world_expire_def expiry_callback_def fenceLocked_def t(3))
  have "VerifyChain pki now (Some (rw_manager (world_expire t w))) cs \<noteq> None" if "snd t \<le> now" for now cs
    using t(5) that rev_inv_current(1)[OF inv]
    by (auto simp: VerifyChain_def w'(1) verifyLocked_iff) (meson not_less order_trans)
  then show ?thesis using t by (intro bexI[of _ t]) (auto simp: w')
qed

theorem expiry_guard_witness:
  "\<exists>t. rm_expiryTimer (sample_manager\<lparr>rm_active := [0]\<rparr>) = Some t \<and> snd t \<le> 100"
  using expiry_guard[OF sample_tracked sample_sized]
  unfolding sample_tracked_eq by (simp add: NewWorld_def sample_manager_def)

section \<open>Restarts\<close>

lemma scheduleExpiry_frames [simp]:
  "rm_rootDER (scheduleExpiryLocked now issuers m) = rm_rootDER m"
  "rm_rootDigest (scheduleExpiryLocked now issuers m) = rm_rootDigest m"
  "rm_checkpoint (scheduleExpiryLocked now issuers m) = rm_checkpoint m"
  "rm_bundleHash (scheduleExpiryLocked now issuers m) = rm_bundleHash m"
  "rm_closed (scheduleExpiryLocked now issuers m) = rm_closed m"
  by (simp_all add: scheduleExpiryLocked_def Let_def)

lemma rev_steps_roots:
  assumes "rev_steps pki w w'"
  shows "rm_rootDER (rw_manager w') = rm_rootDER (rw_manager w) \<and> rm_rootDigest (rw_manager w') = rm_rootDigest (rw_manager w)"
  using assms
proof (induction rule: rtranclp_induct)
  case (step y z)
  from step.hyps(2) have "rm_rootDER (rw_manager z) = rm_rootDER (rw_manager y) \<and> rm_rootDigest (rw_manager z) = rm_rootDigest (rw_manager y)"
    by (cases rule: rev_step.cases)
      (auto simp: world_apply_def Apply_def world_track_def TrackConnection_def tracked_Close_def fence_close_def
        world_close_def manager_Close_def manager_update_def fenceLocked_def world_expire_def expiry_callback_def Let_def
        split: option.splits prod.splits sum.splits if_splits)
  then show ?case using step.IH by simp
qed simp

text \<open>
  C38. The checkpoint a manager hands out survives a restart: at any point of any history, once a
  bundle is in force, a new manager for the same roots accepts the checkpoint, has the same checkpoint
  in force, and verifies every chain at every time exactly like the manager that produced it, as long
  as that one is open.
\<close>

theorem checkpoint_restorable:
  assumes new: "NewRevocationManager pki t0 rootDER cp0 = Inr m" and "0 \<le> t0" "sha256_sized pki"
    and later: "rev_steps pki (NewWorld t0 m) w"
    and cp: "cp = Checkpoint (Some (rw_manager w))" "CP_Issuers cp \<noteq> []"
    and still_open: "\<not> rm_closed (rw_manager w)"
  shows "\<exists>m'. NewRevocationManager pki t1 rootDER (Some cp) = Inr m' \<and> Checkpoint (Some m') = cp
    \<and> (\<forall>now cs. VerifyChain pki now (Some m') cs = VerifyChain pki now (Some (rw_manager w)) cs)"
proof -
  from new obtain digest pool canonical where
    roots: "rootDER \<noteq> []" "CanonicalTrustRootsDigest pki rootDER = Inr digest"
    "parse_roots pki rootDER ([], []) = Some (pool, canonical)"
    by (rule NewRevocationManager_Inr)
  note eq = NewRevocationManager_eq[OF roots]
  have m: "rm_rootDER m = sort canonical \<and> rm_rootDigest m = digest"
  proof (cases cp0)
    case None
    then show ?thesis using new eq(1) by auto
  next
    case (Some c)
    then show ?thesis using new eq(2)[OF eq(3)[of t0 c m], of t0] by auto
  qed
  have inv: "rev_inv pki w" using rev_inv_steps[OF later assms(3) rev_inv_initial[OF new assms(2)]] .
  have w: "rm_rootDER (rw_manager w) = sort canonical" "rm_rootDigest (rw_manager w) = digest"
    using rev_steps_roots[OF later] m by (simp_all add: NewWorld_def)
  have cpw: "cp = rm_checkpoint (rw_manager w)" using cp(1) by (simp add: Checkpoint_def)
  have snap: "checkpoint_ok pki (rw_manager w) cp" "rm_bundleHash (rw_manager w) = checkpointBundleHash pki cp"
    using inv cp(2) by (auto simp: rev_inv_def Let_def snapshot_inv_def cpw)
  then have "checkpoint_ok pki (new_manager pool canonical digest) cp" by (simp add: checkpoint_ok_def w)
  from eq(2)[OF this] show ?thesis
    using snap(2) still_open
    by (auto simp: Checkpoint_def VerifyChain_def verifyLocked_def cpw)
qed

theorem checkpoint_restorable_witness:
  "\<exists>m'. NewRevocationManager sample_pki 50 [sample_root] (Some sample_checkpoint) = Inr m'
     \<and> Checkpoint (Some m') = sample_checkpoint"
proof -
  have "sample_checkpoint = Checkpoint (Some (rw_manager (NewWorld 0 sample_manager)))"
    "\<not> rm_closed (rw_manager (NewWorld 0 sample_manager))"
    by (simp_all add: NewWorld_def sample_manager_def Checkpoint_def)
  from checkpoint_restorable[OF sample_restores _ sample_sized _ this(1) _ this(2), of 50]
  show ?thesis by auto
qed

text \<open>
  Before the first bundle the checkpoint does not name its roots, so that it is the one checkpoint a
  manager hands out that no manager accepts back.
\<close>

lemma fresh_checkpoint_refused:
  assumes "NewRevocationManager pki t0 rootDER None = Inr m" "sha256_sized pki"
  shows "NewRevocationManager pki t1 rootDER (Some (Checkpoint (Some m)))
    = Inl (Plain ''security: revocation checkpoint trust-root digest mismatch'')"
proof -
  from assms(1) obtain digest pool canonical where
    roots: "rootDER \<noteq> []" "CanonicalTrustRootsDigest pki rootDER = Inr digest"
    "parse_roots pki rootDER ([], []) = Some (pool, canonical)"
    by (rule NewRevocationManager_Inr)
  have "digest \<noteq> []"
    using roots(2) assms(2) by (auto simp: CanonicalTrustRootsDigest_def split: if_splits option.splits)
  then show ?thesis
    using roots assms(1) NewRevocationManager_eq(1)[OF roots] by (auto simp: NewRevocationManager_def Checkpoint_def)
qed

section \<open>What the digests bind\<close>

lemma sha256_text_length: "sha256_text s \<Longrightarrow> length s = 64"
proof -
  have "hex_DecodeString s = Some bs \<Longrightarrow> length s = 2 * length bs" for bs
    by (induction s arbitrary: bs rule: hex_DecodeString.induct) (auto split: option.splits)
  then show "sha256_text s \<Longrightarrow> length s = 64" by (auto simp: sha256_text_def split: option.splits)
qed

lemma append_sep_eq:
  "z \<notin> set x \<Longrightarrow> z \<notin> set y \<Longrightarrow> x @ z # r = y @ z # r' \<Longrightarrow> x = y \<and> r = r'"
  by (induction x arbitrary: y) (auto simp: append_eq_Cons_conv Cons_eq_append_conv)

abbreviation serial_bytes :: "string list \<Rightarrow> bytes" where
  "serial_bytes xs \<equiv> concat (map (\<lambda>serial. string_bytes serial @ [0]) xs)"

lemma natural_text_bytes:
  assumes "natural_text s"
  shows "0 \<notin> set (string_bytes s)" "0xFF \<notin> set (string_bytes s)"
proof -
  obtain n where "big_SetString s = Some n" using assms by (auto simp: natural_text_def split: option.splits)
  note chars = big_SetString_chars[OF this]
  have "char_byte c \<noteq> 0 \<and> char_byte c \<noteq> 0xFF" if "c \<in> set s" for c
  proof -
    have "char_byte (CHR 0x00) = 0" "char_byte (CHR 0xFF) = 0xFF" by (simp_all add: char_byte_def)
    moreover have "c \<noteq> CHR 0x00" "c \<noteq> CHR 0xFF" using that chars by auto
    ultimately show ?thesis by (metis char_byte_eq)
  qed
  then show "0 \<notin> set (string_bytes s)" "0xFF \<notin> set (string_bytes s)"
    by (force simp: string_bytes_def)+
qed

lemma serial_bytes_inject:
  "\<forall>v\<in>set xs \<union> set ys. natural_text v \<Longrightarrow>
   serial_bytes xs @ 0xFF # r = serial_bytes ys @ 0xFF # r' \<Longrightarrow> xs = ys \<and> r = r'"
proof (induction xs arbitrary: ys)
  case Nil
  then show ?case
    using natural_text_bytes(2) by (cases ys) (auto simp: Cons_eq_append_conv append_eq_Cons_conv, metis list.set_intros(1))
next
  case (Cons x xs)
  have ne: "ys \<noteq> []"
    using Cons.prems natural_text_bytes(2)[of x] by (auto simp: Cons_eq_append_conv append_eq_Cons_conv)
  then obtain y ys' where ys: "ys = y # ys'" by (cases ys) auto
  from append_sep_eq[of 0 "string_bytes x" "string_bytes y"] Cons.prems
  have "x = y" "serial_bytes xs @ 0xFF # r = serial_bytes ys' @ 0xFF # r'"
    by (auto simp: ys natural_text_bytes(1))
  then show ?case using Cons.IH[of ys'] Cons.prems(1) by (simp add: ys)
qed

definition issuer_view :: "IssuerCheckpoint \<Rightarrow> string \<times> string \<times> string list" where
  "issuer_view st = (IssuerSHA256 st, CRLSHA256 st, sort (Revoked st))"

lemma issuer_bytes_inject:
  assumes "issuer_ok a" "issuer_ok b" "checkpoint_issuer_bytes a @ r = checkpoint_issuer_bytes b @ r'"
  shows "issuer_view a = issuer_view b \<and> r = r'"
proof -
  have len: "length (IssuerSHA256 a) = 64" "length (IssuerSHA256 b) = 64" "length (CRLSHA256 a) = 64" "length (CRLSHA256 b) = 64"
    using assms(1,2) sha256_text_length by (simp_all add: issuer_ok_def)
  have eq: "string_bytes (IssuerSHA256 a) @ string_bytes (CRLSHA256 a) @ serial_bytes (sort (Revoked a)) @ 0xFF # r
    = string_bytes (IssuerSHA256 b) @ string_bytes (CRLSHA256 b) @ serial_bytes (sort (Revoked b)) @ 0xFF # r'"
    using assms(3) by (simp add: checkpoint_issuer_bytes_def)
  then have "IssuerSHA256 a = IssuerSHA256 b" "CRLSHA256 a = CRLSHA256 b"
    "serial_bytes (sort (Revoked a)) @ 0xFF # r = serial_bytes (sort (Revoked b)) @ 0xFF # r'"
    using len by (simp_all add: append_eq_append_conv)
  then show ?thesis
    using serial_bytes_inject[of "sort (Revoked a)" "sort (Revoked b)"] assms(1,2)
    by (auto simp: issuer_view_def issuer_ok_def)
qed

lemma canonical_inject:
  "\<forall>st\<in>set xs \<union> set ys. issuer_ok st \<Longrightarrow>
   concat (map checkpoint_issuer_bytes xs) = concat (map checkpoint_issuer_bytes ys) \<Longrightarrow>
   map issuer_view xs = map issuer_view ys"
proof (induction xs arbitrary: ys)
  case Nil
  then show ?case by (cases ys) (auto simp: checkpoint_issuer_bytes_def)
next
  case (Cons x xs)
  obtain y ys' where ys: "ys = y # ys'" using Cons.prems(2) by (cases ys) (auto simp: checkpoint_issuer_bytes_def)
  have "issuer_view x = issuer_view y"
    "concat (map checkpoint_issuer_bytes xs) = concat (map checkpoint_issuer_bytes ys')"
    using issuer_bytes_inject[of x y "concat (map checkpoint_issuer_bytes xs)" "concat (map checkpoint_issuer_bytes ys')"]
      Cons.prems by (auto simp: ys)
  then show ?case using Cons.IH[of ys'] Cons.prems(1) by (simp add: ys)
qed

text \<open>
  What the digest does not bind: the CRL number and the expiry of an issuer. A checkpoint whose
  numbers were lowered or whose expiries were postponed passes validation just as well.
\<close>

lemma digest_ignores_number_and_expiry:
  assumes "validateCheckpoint pki cp = None" "\<forall>st\<in>set (CP_Issuers cp). natural_text (n st) \<and> u st \<noteq> 0"
  shows "validateCheckpoint pki
    (cp\<lparr>CP_Issuers := map (\<lambda>st. st\<lparr>CRLNumber := n st, NextUpdate := u st\<rparr>) (CP_Issuers cp)\<rparr>) = None"
proof -
  let ?f = "\<lambda>st. st\<lparr>CRLNumber := n st, NextUpdate := u st\<rparr>"
  have "checkpoint_issuer_bytes (?f st) = checkpoint_issuer_bytes st" for st
    by (simp add: checkpoint_issuer_bytes_def)
  moreover have "sort_key IssuerSHA256 (map ?f xs) = map ?f (sort_key IssuerSHA256 xs)" for xs
  proof (induction xs)
    case (Cons x xs)
    have "insort_key IssuerSHA256 (?f x) (map ?f ys) = map ?f (insort_key IssuerSHA256 x ys)" for ys
      by (induction ys) auto
    then show ?case using Cons by simp
  qed simp
  ultimately have "checkpointBundleHash pki (cp\<lparr>CP_Issuers := map ?f (CP_Issuers cp)\<rparr>) = checkpointBundleHash pki cp"
    by (simp add: checkpointBundleHash_def checkpoint_canonical_def comp_def)
  then show ?thesis using assms
    by (auto simp: validateCheckpoint_iff issuer_ok_def comp_def split: if_splits)
qed

text \<open>
  C39. The digest a checkpoint carries binds its issuers, the CRL of each and its revoked serials: two
  checkpoints that both pass validation under the same digest have the same set of issuers with the
  same CRL hashes and the same revoked serials, unless they exhibit two different byte strings with
  the same SHA-256.
\<close>

theorem bundle_digest_binds:
  assumes "validateCheckpoint pki a = None" "validateCheckpoint pki b = None"
    "CP_BundleSHA256 a = CP_BundleSHA256 b" "CP_Issuers a \<noteq> []" "CP_Issuers b \<noteq> []"
  shows "(\<lambda>st. (IssuerSHA256 st, CRLSHA256 st, set (Revoked st))) ` set (CP_Issuers a)
      = (\<lambda>st. (IssuerSHA256 st, CRLSHA256 st, set (Revoked st))) ` set (CP_Issuers b)
    \<or> checkpoint_canonical a \<noteq> checkpoint_canonical b
      \<and> Sum256 pki (checkpoint_canonical a) = Sum256 pki (checkpoint_canonical b)"
proof (cases "checkpoint_canonical a = checkpoint_canonical b")
  case True
  have "\<forall>st\<in>set (CP_Issuers a) \<union> set (CP_Issuers b). issuer_ok st"
    using assms by (auto simp: validateCheckpoint_iff)
  then have "map issuer_view (sort_key IssuerSHA256 (CP_Issuers a)) = map issuer_view (sort_key IssuerSHA256 (CP_Issuers b))"
    using True by (intro canonical_inject) (auto simp: checkpoint_canonical_def)
  then have "issuer_view ` set (CP_Issuers a) = issuer_view ` set (CP_Issuers b)"
    by (metis list.set_map set_sort)
  then have "(\<lambda>(i, c, r). (i, c, set r)) ` issuer_view ` set (CP_Issuers a)
      = (\<lambda>(i, c, r). (i, c, set r)) ` issuer_view ` set (CP_Issuers b)" by simp
  then show ?thesis by (simp add: image_image issuer_view_def)
next
  case False
  have "checkpointBundleHash pki a = checkpointBundleHash pki b"
    using assms by (simp add: validateCheckpoint_iff)
  then show ?thesis using False by (simp add: checkpointBundleHash_def)
qed

theorem bundle_digest_binds_witness:
  "(\<lambda>st. (IssuerSHA256 st, CRLSHA256 st, set (Revoked st))) ` {sample_state}
     = (\<lambda>st. (IssuerSHA256 st, CRLSHA256 st, set (Revoked st)))
         ` {sample_state\<lparr>CRLNumber := big_String 0, NextUpdate := 999\<rparr>}"
proof -
  have "validateCheckpoint sample_pki (sample_checkpoint\<lparr>CP_Issuers :=
      [sample_state\<lparr>CRLNumber := big_String 0, NextUpdate := 999\<rparr>]\<rparr>) = None"
    using digest_ignores_number_and_expiry[OF sample_valid, of "\<lambda>_. big_String 0" "\<lambda>_. 999"] by simp
  from bundle_digest_binds[OF sample_valid this] show ?thesis
    by (simp add: checkpoint_canonical_def checkpoint_issuer_bytes_def)
qed

section \<open>Trust roots\<close>

lemma canonical_roots_sorted:
  "sorted ds \<Longrightarrow> canonical_roots prev ds = (if distinct ds \<and> (ds = [] \<or> prev \<noteq> Some (hd ds)) then Some (concat ds) else None)"
proof (induction ds arbitrary: prev)
  case (Cons d ds)
  have "d \<in> set ds \<longleftrightarrow> ds \<noteq> [] \<and> hd ds = d"
    using Cons.prems by (cases ds) auto
  then show ?case using Cons by auto
qed simp

definition prefix_free :: "bytes set \<Rightarrow> bool" where
  "prefix_free X \<longleftrightarrow> (\<forall>x\<in>X. x \<noteq> [] \<and> (\<forall>z. x @ z \<in> X \<longrightarrow> z = []))"

lemma prefix_free_concat:
  "concat xs = concat ys \<Longrightarrow> prefix_free (set xs \<union> set ys) \<Longrightarrow> xs = ys"
proof (induction xs arbitrary: ys)
  case Nil
  then show ?case by (cases ys) (auto simp: prefix_free_def)
next
  case (Cons x xs)
  obtain y ys' where ys: "ys = y # ys'" using Cons.prems by (cases ys) (auto simp: prefix_free_def)
  have "x = y" using Cons.prems by (auto simp: ys append_eq_append_conv2 prefix_free_def)
  then show ?case using Cons.IH[of ys'] Cons.prems by (simp add: ys prefix_free_def)
qed

lemma distinct_mset: "mset xs = mset ys \<Longrightarrow> distinct xs = distinct ys"
  by (metis card_distinct distinct_card mset_eq_length set_mset_mset)

text \<open>
  The digest of a set of trust roots exists exactly for a non-empty list without repetitions and
  does not depend on the order of the list; and if no root is a proper prefix of another, as holds for
  DER, two lists with the same digest are the same set of roots, unless they exhibit a collision of
  SHA-256.
\<close>

theorem root_digest_canonical:
  shows "((\<exists>d. CanonicalTrustRootsDigest pki xs = Inr d) \<longleftrightarrow> xs \<noteq> [] \<and> distinct xs)
    \<and> (mset xs = mset ys \<longrightarrow> CanonicalTrustRootsDigest pki xs = CanonicalTrustRootsDigest pki ys)
    \<and> (CanonicalTrustRootsDigest pki xs = Inr d \<and> CanonicalTrustRootsDigest pki ys = Inr d
       \<and> prefix_free (set xs \<union> set ys)
       \<longrightarrow> set xs = set ys
         \<or> concat (sort xs) \<noteq> concat (sort ys) \<and> Sum256 pki (concat (sort xs)) = Sum256 pki (concat (sort ys)))"
proof -
  have eq: "CanonicalTrustRootsDigest pki zs = (if zs = [] then Inl (Plain ''security: trust roots are required'')
      else if distinct zs then Inr (hexsum pki (concat (sort zs))) else Inl (Plain ''security: duplicate trust root''))" for zs
    by (simp add: CanonicalTrustRootsDigest_def canonical_roots_sorted)
  have "CanonicalTrustRootsDigest pki xs = CanonicalTrustRootsDigest pki ys" if "mset xs = mset ys"
    using that properties_for_sort[of "sort xs" ys] distinct_mset[OF that]
    by (auto simp: eq)
  moreover have "set xs = set ys" if "prefix_free (set xs \<union> set ys)" "concat (sort xs) = concat (sort ys)"
    using that prefix_free_concat[of "sort xs" "sort ys"] by (metis set_sort)
  ultimately show ?thesis by (auto simp: eq split: if_splits)
qed

theorem root_digest_canonical_witness:
  "CanonicalTrustRootsDigest sample_pki [[1], [2]] = CanonicalTrustRootsDigest sample_pki [[2], [1]]"
  using root_digest_canonical[of sample_pki "[[1], [2]]" "[[2], [1]]"] by simp

end
