(* ===== verification/Security.thy ===== *)
theory Security
  imports Revocation_Properties
begin

text \<open>
  Peer identities and transport security profiles, \<^verbatim>\<open>src/infrastructure/peer/security/identity.go\<close> and
  \<^verbatim>\<open>profile.go\<close>.

  \<^verbatim>\<open>net/url\<close>, address parsing and the resolver are fields of a record \<open>host\<close> that the operations take.
  A \<^verbatim>\<open>*RevocationManager\<close> is a reference into a heap of managers, so that a profile and the code that
  applies bundles share it; a nil pointer is \<^term>\<open>None\<close>. A \<^verbatim>\<open>tls.Config\<close> carries the fields the code
  sets, and its \<^verbatim>\<open>VerifyConnection\<close> callback is the manager whose \<^verbatim>\<open>VerifyChain\<close> it calls.
\<close>

section \<open>The host\<close>

record URL =
  URL_Scheme :: string
  URL_User :: "string option"
  URL_Host :: string
  URL_Path :: string
  URL_RawQuery :: string
  URL_Fragment :: string
  URL_String :: string

record host =
  url_Parse :: "string \<Rightarrow> go_error + URL"
  net_ParseIP :: "string \<Rightarrow> IP option"
  net_LookupIPAddr :: "string \<Rightarrow> go_error + IP list"

type_synonym managers = "nat \<Rightarrow> RevocationManager"

section \<open>Identities\<close>

abbreviation ErrNoPeerIdentity :: go_error where
  "ErrNoPeerIdentity \<equiv> Plain ''security: peer presented no usable URI SAN''"

definition Identity :: "host \<Rightarrow> string \<Rightarrow> go_error + PeerIdentity" where
  "Identity host uri =
    (let trimmed = strings_TrimSpace uri in
     if trimmed = [] then Inl ErrNoPeerIdentity
     else case url_Parse host trimmed of
            Inl err \<Rightarrow> Inl (Wrap ''security: peer identity is not a URI'' err)
          | Inr parsed \<Rightarrow>
              if URL_Scheme parsed = [] \<or> URL_Host parsed = [] \<or> URL_Path parsed = []
              then Inl (Plain ''security: peer identity is not an absolute URI'')
              else Inr \<lparr>URI = URL_String parsed\<rparr>)"

definition IdentityOf :: "host \<Rightarrow> Certificate option \<Rightarrow> go_error + PeerIdentity" where
  "IdentityOf host certificate =
    (case certificate of
       None \<Rightarrow> Inl ErrNoPeerIdentity
     | Some cert \<Rightarrow>
         if length (Cert_URIs cert) \<noteq> 1
         then Inl (Wrap ''certificate carries another number of URI SANs'' ErrNoPeerIdentity)
         else Identity host (Cert_URIs cert ! 0))"

record ConnectionState =
  PeerCertificates :: "Certificate list"
  VerifiedChains :: "Certificate list list"

definition PeerIdentityOf :: "host \<Rightarrow> ConnectionState \<Rightarrow> go_error + PeerIdentity" where
  "PeerIdentityOf host state =
    (if PeerCertificates state = [] then Inl ErrNoPeerIdentity
     else IdentityOf host (Some (PeerCertificates state ! 0)))"

section \<open>Profiles\<close>

datatype ClientAuthType = NoClientCert | RequireAndVerifyClientCert

record TLSCertificate =
  TLS_Certificate :: "bytes list"
  TLS_PrivateKey :: bool
  TLS_Leaf :: "Certificate option"

record TLSConfig =
  Config_Certificates :: "TLSCertificate list"
  Config_ClientCAs :: "Certificate list option"
  Config_ClientAuth :: ClientAuthType
  Config_RootCAs :: "Certificate list option"
  Config_MinVersion :: nat
  Config_InsecureSkipVerify :: bool
  Config_VerifyConnection :: "nat option"
  Config_ServerName :: string
  Config_NextProtos :: "string list"

abbreviation (input) VersionTLS13 :: nat where "VersionTLS13 \<equiv> 0x0304"

abbreviation (input) NameMTLS :: string where "NameMTLS \<equiv> ''mtls''"
abbreviation (input) NameLoopbackPlaintext :: string where "NameLoopbackPlaintext \<equiv> ''loopback-plaintext''"

abbreviation ErrPlaintextNotLoopback :: go_error where
  "ErrPlaintextNotLoopback \<equiv> Plain ''security: plaintext profile requires a loopback endpoint''"

record Credentials =
  Cred_Identity :: string
  Cred_Certificate :: TLSCertificate
  Cred_PeerRoots :: "Certificate list option"
  Cred_PeerIdentity :: string
  Cred_Revocation :: "nat option"

record Profile =
  prof_name :: string
  prof_encrypted :: bool
  prof_authenticated :: bool
  prof_pin :: string
  prof_server :: "TLSConfig option"
  prof_client :: "TLSConfig option"
  prof_revocation :: "nat option"

definition Profile_Name :: "Profile option \<Rightarrow> string" where
  "Profile_Name profile = (case profile of None \<Rightarrow> [] | Some p \<Rightarrow> prof_name p)"

definition Encrypted :: "Profile option \<Rightarrow> bool" where
  "Encrypted profile = (case profile of None \<Rightarrow> False | Some p \<Rightarrow> prof_encrypted p)"

definition Authenticated :: "Profile option \<Rightarrow> bool" where
  "Authenticated profile = (case profile of None \<Rightarrow> False | Some p \<Rightarrow> prof_authenticated p)"

definition Profile_ServerConfig :: "Profile option \<Rightarrow> TLSConfig option" where
  "Profile_ServerConfig profile = (case profile of None \<Rightarrow> None | Some p \<Rightarrow> prof_server p)"

definition Profile_ClientConfig :: "Profile option \<Rightarrow> TLSConfig option" where
  "Profile_ClientConfig profile = (case profile of None \<Rightarrow> None | Some p \<Rightarrow> prof_client p)"

definition requireLoopback :: "host \<Rightarrow> string \<Rightarrow> go_error option" where
  "requireLoopback hst endpoint =
    (let host = (case net_SplitHostPort endpoint of None \<Rightarrow> endpoint | Some (h, _) \<Rightarrow> h) in
     if host = [] then Some (Wrap ''endpoint'' ErrPlaintextNotLoopback)
     else case net_ParseIP hst host of
            Some address \<Rightarrow>
              if \<not> IP_IsLoopback address then Some (Wrap ''endpoint'' ErrPlaintextNotLoopback) else None
          | None \<Rightarrow>
              (case net_LookupIPAddr hst host of
                 Inl _ \<Rightarrow> Some (Wrap ''cannot be resolved'' ErrPlaintextNotLoopback)
               | Inr addresses \<Rightarrow>
                   if addresses = [] then Some (Wrap ''resolved to no address'' ErrPlaintextNotLoopback)
                   else if list_ex (\<lambda>a. \<not> IP_IsLoopback a) addresses
                   then Some (Wrap ''resolves off-loopback'' ErrPlaintextNotLoopback)
                   else None))"

definition RequireEncryptedEndpointContext :: "host \<Rightarrow> Profile option \<Rightarrow> string \<Rightarrow> go_error option" where
  "RequireEncryptedEndpointContext host profile endpoint =
    (case profile of
       None \<Rightarrow> Some (Plain ''security: no profile'')
     | Some p \<Rightarrow> if prof_encrypted p then None else requireLoopback host endpoint)"

definition RequireEncryptedEndpoint :: "host \<Rightarrow> Profile option \<Rightarrow> string \<Rightarrow> go_error option" where
  "RequireEncryptedEndpoint host profile endpoint = RequireEncryptedEndpointContext host profile endpoint"

text \<open>The certificate the endpoint will present: the parsed leaf, or the first one it has to parse.\<close>

definition own_leaf :: "pki \<Rightarrow> TLSCertificate \<Rightarrow> go_error + Certificate option" where
  "own_leaf pki certificate =
    (case TLS_Leaf certificate of
       Some leaf \<Rightarrow> Inr (Some leaf)
     | None \<Rightarrow>
         (case TLS_Certificate certificate of
            [] \<Rightarrow> Inr None
          | der # _ \<Rightarrow>
              (case ParseCertificate pki der of
                 None \<Rightarrow> Inl (Plain ''security: cannot parse own certificate'')
               | Some cert \<Rightarrow> Inr (Some cert))))"

definition MTLS :: "host \<Rightarrow> pki \<Rightarrow> managers \<Rightarrow> Credentials \<Rightarrow> go_error + Profile" where
  "MTLS host pki heap credentials =
    (if strings_TrimSpace (Cred_Identity credentials) = []
     then Inl (Plain ''security: mTLS requires an identity'')
     else if TLS_Certificate (Cred_Certificate credentials) = [] \<or> \<not> TLS_PrivateKey (Cred_Certificate credentials)
     then Inl (Plain ''security: mTLS requires a certificate'')
     else if Cred_PeerRoots credentials = None \<and> Cred_Revocation credentials = None
     then Inl (Plain ''security: mTLS requires a trust anchor for its peers'')
     else if Cred_Revocation credentials \<noteq> None \<and> Cred_PeerRoots credentials \<noteq> None
     then Inl (Plain ''security: use the revocation manager trust pool, not a separate root pool'')
     else (let peerRoots = (case Cred_Revocation credentials of
                              None \<Rightarrow> Cred_PeerRoots credentials
                            | Some r \<Rightarrow> TrustRoots (Some (heap r)))
      in if Cred_PeerIdentity credentials \<noteq> [] \<and> \<not> strings_HasPrefix (Cred_PeerIdentity credentials) ''spiffe://''
         then Inl (Plain ''security: mTLS requires a spiffe:// peer identity'')
         else case Identity host (Cred_Identity credentials) of
           Inl err \<Rightarrow> Inl err
         | Inr _ \<Rightarrow>
             (case own_leaf pki (Cred_Certificate credentials) of
                Inl err \<Rightarrow> Inl err
              | Inr leaf \<Rightarrow>
                  (case (case leaf of None \<Rightarrow> Inr no_identity | Some l \<Rightarrow> IdentityOf host (Some l)) of
                     Inl err \<Rightarrow> Inl (Wrap ''security: own certificate'' err)
                   | Inr _ \<Rightarrow>
                       Inr \<lparr>prof_name = NameMTLS, prof_encrypted = True, prof_authenticated = True,
                            prof_pin = Cred_PeerIdentity credentials,
                            prof_server = Some \<lparr>Config_Certificates = [Cred_Certificate credentials],
                              Config_ClientCAs = peerRoots, Config_ClientAuth = RequireAndVerifyClientCert,
                              Config_RootCAs = None, Config_MinVersion = VersionTLS13,
                              Config_InsecureSkipVerify = False,
                              Config_VerifyConnection = Cred_Revocation credentials,
                              Config_ServerName = [], Config_NextProtos = []\<rparr>,
                            prof_client = Some \<lparr>Config_Certificates = [Cred_Certificate credentials],
                              Config_ClientCAs = None, Config_ClientAuth = NoClientCert,
                              Config_RootCAs = peerRoots, Config_MinVersion = VersionTLS13,
                              Config_InsecureSkipVerify = False,
                              Config_VerifyConnection = Cred_Revocation credentials,
                              Config_ServerName = [], Config_NextProtos = []\<rparr>,
                            prof_revocation = Cred_Revocation credentials\<rparr>))))"

definition LoopbackPlaintext :: Profile where
  "LoopbackPlaintext = \<lparr>prof_name = NameLoopbackPlaintext, prof_encrypted = False, prof_authenticated = False,
     prof_pin = [], prof_server = None, prof_client = None, prof_revocation = None\<rparr>"

definition VerifyPeer :: "host \<Rightarrow> Profile option \<Rightarrow> ConnectionState \<Rightarrow> go_error + PeerIdentity" where
  "VerifyPeer host profile state =
    (let pin = (case profile of None \<Rightarrow> [] | Some p \<Rightarrow> prof_pin p) in
     case PeerIdentityOf host state of
       Inl err \<Rightarrow> Inl err
     | Inr identity \<Rightarrow>
         if pin \<noteq> [] \<and> URI identity \<noteq> pin
         then Inl (Plain ''security: peer is not the expected identity'') else Inr identity)"

text \<open>
  What a session is built on: a connection, or a connection tracked by a manager. \<open>fresh\<close> is the pointer of
  the tracked connection that may be allocated.
\<close>

datatype link = Link nat | Tracked nat connection

definition Profile_TrackConnection :: "pki \<Rightarrow> managers \<Rightarrow> instant \<Rightarrow> connection \<Rightarrow> Profile option \<Rightarrow> nat
    \<Rightarrow> ConnectionState \<Rightarrow> managers \<times> (go_error + link)" where
  "Profile_TrackConnection pki heap now fresh profile conn state =
    (case profile of
       None \<Rightarrow> (heap, Inr (Link conn))
     | Some p \<Rightarrow>
         (case prof_revocation p of
            None \<Rightarrow> (heap, Inr (Link conn))
          | Some r \<Rightarrow>
              (case TrackConnection pki now fresh (Some (heap r)) True (VerifiedChains state) of
                 (Some m, Inr c) \<Rightarrow> (heap(r := m), Inr (Tracked r c))
               | (_, Inl err) \<Rightarrow> (heap, Inl err)
               | (None, _) \<Rightarrow> (heap, Inl (Plain ''unreachable: the manager is not nil'')))))"

section \<open>Profiles fail closed\<close>

definition credentials_complete :: "host \<Rightarrow> pki \<Rightarrow> Credentials \<Rightarrow> bool" where
  "credentials_complete host pki c \<longleftrightarrow>
     (\<exists>i. Identity host (Cred_Identity c) = Inr i)
     \<and> TLS_Certificate (Cred_Certificate c) \<noteq> [] \<and> TLS_PrivateKey (Cred_Certificate c)
     \<and> (\<exists>leaf i. (TLS_Leaf (Cred_Certificate c) = Some leaf
           \<or> TLS_Leaf (Cred_Certificate c) = None \<and> ParseCertificate pki (hd (TLS_Certificate (Cred_Certificate c))) = Some leaf)
         \<and> IdentityOf host (Some leaf) = Inr i)
     \<and> (Cred_PeerRoots c = None \<longleftrightarrow> Cred_Revocation c \<noteq> None)
     \<and> (Cred_PeerIdentity c = [] \<or> strings_HasPrefix (Cred_PeerIdentity c) ''spiffe://'')"

definition trust_pool :: "managers \<Rightarrow> Credentials \<Rightarrow> Certificate list option" where
  "trust_pool heap c = (case Cred_Revocation c of None \<Rightarrow> Cred_PeerRoots c | Some r \<Rightarrow> Some (rm_roots (heap r)))"


lemma own_leaf_identity:
  assumes "TLS_Certificate tc \<noteq> []"
  shows "(\<exists>leaf. own_leaf pki tc = Inr (Some leaf) \<and> (\<exists>i. IdentityOf host (Some leaf) = Inr i)) \<longleftrightarrow>
    (\<exists>leaf i. (TLS_Leaf tc = Some leaf \<or> TLS_Leaf tc = None \<and> ParseCertificate pki (hd (TLS_Certificate tc)) = Some leaf)
       \<and> IdentityOf host (Some leaf) = Inr i)"
  using assms by (auto simp: own_leaf_def split: option.splits list.splits)

lemma own_leaf_not_None: "TLS_Certificate tc \<noteq> [] \<Longrightarrow> own_leaf pki tc \<noteq> Inr None"
  by (auto simp: own_leaf_def split: option.splits list.splits)

lemma Identity_trimmed: "Identity host uri = Inr i \<Longrightarrow> strings_TrimSpace uri \<noteq> []"
  by (auto simp: Identity_def Let_def split: if_splits)

lemma MTLS_complete: "(\<exists>p. MTLS host pki heap c = Inr p) \<longleftrightarrow> credentials_complete host pki c"
proof (cases "TLS_Certificate (Cred_Certificate c) = []")
  case True
  then show ?thesis by (auto simp: MTLS_def credentials_complete_def)
next
  case False
  show ?thesis
    using own_leaf_not_None[OF False, of pki] Identity_trimmed[of host "Cred_Identity c"]
    unfolding credentials_complete_def own_leaf_identity[OF False, symmetric]
    by (auto simp: MTLS_def Let_def False split: sum.splits option.splits if_splits)
qed

lemma MTLS_Inr:
  assumes "MTLS host pki heap c = Inr p"
  shows "prof_encrypted p" "prof_authenticated p" "prof_pin p = Cred_PeerIdentity c"
    "prof_revocation p = Cred_Revocation c" "prof_name p = NameMTLS"
    "\<exists>s. prof_server p = Some s \<and> Config_ClientAuth s = RequireAndVerifyClientCert
       \<and> Config_ClientCAs s = trust_pool heap c \<and> VersionTLS13 \<le> Config_MinVersion s
       \<and> Config_VerifyConnection s = Cred_Revocation c"
    "\<exists>s. prof_client p = Some s \<and> \<not> Config_InsecureSkipVerify s \<and> Config_RootCAs s = trust_pool heap c
       \<and> VersionTLS13 \<le> Config_MinVersion s \<and> Config_VerifyConnection s = Cred_Revocation c"
  using assms
  by (auto simp: MTLS_def Let_def trust_pool_def TrustRoots_def split: if_splits sum.splits option.splits)

definition sample_host :: host where
  "sample_host = \<lparr>url_Parse = (\<lambda>s. Inr \<lparr>URL_Scheme = ''spiffe'', URL_User = None, URL_Host = ''a'',
       URL_Path = ''/b'', URL_RawQuery = [], URL_Fragment = [], URL_String = s\<rparr>),
     net_ParseIP = (\<lambda>s. if s = ''127.0.0.1'' then Some [127, 0, 0, 1] else None),
     net_LookupIPAddr = (\<lambda>s. Inr [[8, 8, 8, 8]])\<rparr>"

definition sample_leaf :: Certificate where
  "sample_leaf = (sample_cert [7] 9)\<lparr>Cert_URIs := [''spiffe://a/b'']\<rparr>"

definition sample_credentials :: Credentials where
  "sample_credentials = \<lparr>Cred_Identity = ''spiffe://a/b'',
     Cred_Certificate = \<lparr>TLS_Certificate = [[7]], TLS_PrivateKey = True, TLS_Leaf = Some sample_leaf\<rparr>,
     Cred_PeerRoots = None, Cred_PeerIdentity = ''spiffe://a/b'', Cred_Revocation = Some 0\<rparr>"

lemma sample_trim [simp]: "strings_TrimSpace ''spiffe://a/b'' = ''spiffe://a/b''"
  by code_simp

lemma sample_complete: "credentials_complete sample_host sample_pki sample_credentials"
  by (simp add: credentials_complete_def sample_credentials_def Identity_def IdentityOf_def
      sample_leaf_def sample_host_def strings_HasPrefix_def)

text \<open>
  C21. A mutual-TLS profile exists exactly for complete credentials: an identity that is an absolute
  URI, a certificate with its key and exactly one usable URI name, one and only one source of trust,
  and a pin that is empty or a SPIFFE name. The profile it resolves to then encrypts and
  authenticates, and both of its TLS configurations demand TLS 1.3, verify the peer against that one
  trust pool, and consult the revocation manager if there is one.
\<close>

theorem MTLS_fail_closed:
  shows "((\<exists>p. MTLS host pki heap c = Inr p) \<longleftrightarrow> credentials_complete host pki c)
    \<and> (MTLS host pki heap c = Inr p \<longrightarrow>
        Encrypted (Some p) \<and> Authenticated (Some p) \<and> prof_pin p = Cred_PeerIdentity c
        \<and> prof_revocation p = Cred_Revocation c
        \<and> (\<exists>s. Profile_ServerConfig (Some p) = Some s \<and> Config_ClientAuth s = RequireAndVerifyClientCert
            \<and> Config_ClientCAs s = trust_pool heap c \<and> VersionTLS13 \<le> Config_MinVersion s
            \<and> Config_VerifyConnection s = Cred_Revocation c)
        \<and> (\<exists>s. Profile_ClientConfig (Some p) = Some s \<and> \<not> Config_InsecureSkipVerify s
            \<and> Config_RootCAs s = trust_pool heap c \<and> VersionTLS13 \<le> Config_MinVersion s
            \<and> Config_VerifyConnection s = Cred_Revocation c))"
  using MTLS_complete MTLS_Inr[of host pki heap c p]
  by (auto simp: Encrypted_def Authenticated_def Profile_ServerConfig_def Profile_ClientConfig_def)

theorem MTLS_fail_closed_witness:
  "\<exists>p. MTLS sample_host sample_pki (\<lambda>_. sample_manager) sample_credentials = Inr p \<and> Encrypted (Some p)"
  using MTLS_fail_closed[of sample_host sample_pki "\<lambda>_. sample_manager" sample_credentials] sample_complete by blast

text \<open>
  The identity of the own certificate is required to exist, not to be the identity the credentials
  name.
\<close>

lemma own_certificate_not_compared:
  "credentials_complete sample_host sample_pki (sample_credentials\<lparr>Cred_Identity := ''spiffe://a/x''\<rparr>)
   \<and> Identity sample_host ''spiffe://a/x'' \<noteq> IdentityOf sample_host (Some sample_leaf)"
proof -
  have "strings_TrimSpace ''spiffe://a/x'' = ''spiffe://a/x''" by code_simp
  then show ?thesis
    by (simp add: credentials_complete_def sample_credentials_def Identity_def IdentityOf_def
      sample_leaf_def sample_host_def strings_HasPrefix_def)
qed

section \<open>Which peers and endpoints a profile accepts\<close>

lemma VerifyPeer_Inr:
  "VerifyPeer host profile state = Inr identity \<longleftrightarrow>
     (\<exists>leaf rest uri. PeerCertificates state = leaf # rest \<and> Cert_URIs leaf = [uri] \<and> Identity host uri = Inr identity)
     \<and> (case profile of None \<Rightarrow> True | Some p \<Rightarrow> prof_pin p = [] \<or> URI identity = prof_pin p)"
proof -
  have "PeerIdentityOf host state = Inr i \<longleftrightarrow>
      (\<exists>leaf rest uri. PeerCertificates state = leaf # rest \<and> Cert_URIs leaf = [uri] \<and> Identity host uri = Inr i)" for i
    by (auto simp: PeerIdentityOf_def IdentityOf_def neq_Nil_conv length_Suc_conv split: if_splits)
  then show ?thesis unfolding VerifyPeer_def Let_def
    by (cases "PeerIdentityOf host state") (fastforce split: option.splits if_splits)+
qed

definition host_of :: "string \<Rightarrow> string" where
  "host_of endpoint = (case net_SplitHostPort endpoint of None \<Rightarrow> endpoint | Some (h, _) \<Rightarrow> h)"

text \<open>An endpoint every byte of which stays on the machine.\<close>

definition loopback_endpoint :: "host \<Rightarrow> string \<Rightarrow> bool" where
  "loopback_endpoint hst endpoint \<longleftrightarrow> host_of endpoint \<noteq> [] \<and>
     (case net_ParseIP hst (host_of endpoint) of
        Some address \<Rightarrow> IP_IsLoopback address
      | None \<Rightarrow> (\<exists>addresses. net_LookupIPAddr hst (host_of endpoint) = Inr addresses \<and> addresses \<noteq> []
                  \<and> (\<forall>a\<in>set addresses. IP_IsLoopback a)))"

lemma RequireEncryptedEndpoint_None:
  "RequireEncryptedEndpointContext host (Some p) endpoint = None \<longleftrightarrow> prof_encrypted p \<or> loopback_endpoint host endpoint"
  by (auto simp: RequireEncryptedEndpointContext_def requireLoopback_def loopback_endpoint_def host_of_def Let_def
      list_ex_iff split: option.splits sum.splits)

end
