(* ===== verification/Wire.thy ===== *)
theory Wire
  imports Peer_Domain
begin

text \<open>
  The messages of \<^verbatim>\<open>src/infrastructure/peer/wire/peer.pb.go\<close>, the bodies of the frames, with
  the unknown fields every generated struct keeps.

  The protobuf runtime that turns a message into bytes and back is not part of the
  repository. It is a parameter of the model: for each message type a marshaller, which may
  fail (a string field that is not valid UTF-8), and an unmarshaller, which may fail (bytes
  that are not an encoding of the type). What the code relies on is
  \<^emph>\<open>proto_roundtrip\<close>, that a message without unknown fields decodes to itself, and
  \<^emph>\<open>proto_framed\<close>, that a non-empty bytes field is encoded with a tag and a length in
  front of its contents. Both are the documented behaviour of the protobuf encoding.
\<close>

section \<open>Messages\<close>

record CallRequest =
  CallRequest_Method :: string
  CallRequest_Payload :: bytes
  CallRequest_unknownFields :: bytes

record CallResult =
  CallResult_Payload :: bytes
  CallResult_unknownFields :: bytes

record Status =
  Status_Code :: u32
  Status_Message :: string
  Status_unknownFields :: bytes

record Failure =
  Failure_Status :: "Status option"
  Failure_unknownFields :: bytes

record OpenStream =
  OpenStream_Method :: string
  OpenStream_unknownFields :: bytes

record StreamAccepted =
  StreamAccepted_unknownFields :: bytes

record Data =
  Data_Payload :: bytes
  Data_unknownFields :: bytes

record CloseMessage =
  Close_unknownFields :: bytes

record Ping =
  Ping_Nonce :: u64
  Ping_unknownFields :: bytes

record Pong =
  Pong_Nonce :: u64
  Pong_unknownFields :: bytes

abbreviation mkCallRequest :: "string \<Rightarrow> bytes \<Rightarrow> CallRequest" where
  "mkCallRequest m p \<equiv> \<lparr>CallRequest_Method = m, CallRequest_Payload = p, CallRequest_unknownFields = []\<rparr>"

abbreviation mkCallResult :: "bytes \<Rightarrow> CallResult" where
  "mkCallResult p \<equiv> \<lparr>CallResult_Payload = p, CallResult_unknownFields = []\<rparr>"

abbreviation mkFailure :: "u32 \<Rightarrow> string \<Rightarrow> Failure" where
  "mkFailure c m \<equiv> \<lparr>Failure_Status = Some \<lparr>Status_Code = c, Status_Message = m, Status_unknownFields = []\<rparr>,
     Failure_unknownFields = []\<rparr>"

abbreviation mkOpenStream :: "string \<Rightarrow> OpenStream" where
  "mkOpenStream m \<equiv> \<lparr>OpenStream_Method = m, OpenStream_unknownFields = []\<rparr>"

abbreviation mkStreamAccepted :: StreamAccepted where
  "mkStreamAccepted \<equiv> \<lparr>StreamAccepted_unknownFields = []\<rparr>"

abbreviation mkData :: "bytes \<Rightarrow> Data" where
  "mkData p \<equiv> \<lparr>Data_Payload = p, Data_unknownFields = []\<rparr>"

abbreviation mkClose :: CloseMessage where
  "mkClose \<equiv> \<lparr>Close_unknownFields = []\<rparr>"

abbreviation mkPing :: "u64 \<Rightarrow> Ping" where
  "mkPing n \<equiv> \<lparr>Ping_Nonce = n, Ping_unknownFields = []\<rparr>"

abbreviation mkPong :: "u64 \<Rightarrow> Pong" where
  "mkPong n \<equiv> \<lparr>Pong_Nonce = n, Pong_unknownFields = []\<rparr>"

text \<open>
  The accessors take a pointer: on a nil one (\<^emph>\<open>None\<close>) they return the zero value of the field. \<^verbatim>\<open>Reset\<close> makes a
  message the zero value of its type, the unknown fields included.
\<close>

fun CallRequest_GetMethod :: "CallRequest option \<Rightarrow> string" where
  "CallRequest_GetMethod (Some x) = CallRequest_Method x"
| "CallRequest_GetMethod None = []"

fun CallRequest_GetPayload :: "CallRequest option \<Rightarrow> bytes" where
  "CallRequest_GetPayload (Some x) = CallRequest_Payload x"
| "CallRequest_GetPayload None = []"

fun CallResult_GetPayload :: "CallResult option \<Rightarrow> bytes" where
  "CallResult_GetPayload (Some x) = CallResult_Payload x"
| "CallResult_GetPayload None = []"

fun Status_GetCode :: "Status option \<Rightarrow> u32" where
  "Status_GetCode (Some x) = Status_Code x"
| "Status_GetCode None = 0"

fun Status_GetMessage :: "Status option \<Rightarrow> string" where
  "Status_GetMessage (Some x) = Status_Message x"
| "Status_GetMessage None = []"

fun Failure_GetStatus :: "Failure option \<Rightarrow> Status option" where
  "Failure_GetStatus (Some x) = Failure_Status x"
| "Failure_GetStatus None = None"

fun OpenStream_GetMethod :: "OpenStream option \<Rightarrow> string" where
  "OpenStream_GetMethod (Some x) = OpenStream_Method x"
| "OpenStream_GetMethod None = []"

fun Data_GetPayload :: "Data option \<Rightarrow> bytes" where
  "Data_GetPayload (Some x) = Data_Payload x"
| "Data_GetPayload None = []"

fun Ping_GetNonce :: "Ping option \<Rightarrow> u64" where
  "Ping_GetNonce (Some x) = Ping_Nonce x"
| "Ping_GetNonce None = 0"

fun Pong_GetNonce :: "Pong option \<Rightarrow> u64" where
  "Pong_GetNonce (Some x) = Pong_Nonce x"
| "Pong_GetNonce None = 0"

definition CallRequest_Reset :: "CallRequest \<Rightarrow> CallRequest" where
  "CallRequest_Reset x = mkCallRequest [] []"

definition CallResult_Reset :: "CallResult \<Rightarrow> CallResult" where
  "CallResult_Reset x = mkCallResult []"

definition Status_Reset :: "Status \<Rightarrow> Status" where
  "Status_Reset x = \<lparr>Status_Code = 0, Status_Message = [], Status_unknownFields = []\<rparr>"

definition Failure_Reset :: "Failure \<Rightarrow> Failure" where
  "Failure_Reset x = \<lparr>Failure_Status = None, Failure_unknownFields = []\<rparr>"

definition OpenStream_Reset :: "OpenStream \<Rightarrow> OpenStream" where
  "OpenStream_Reset x = mkOpenStream []"

definition StreamAccepted_Reset :: "StreamAccepted \<Rightarrow> StreamAccepted" where
  "StreamAccepted_Reset x = mkStreamAccepted"

definition Data_Reset :: "Data \<Rightarrow> Data" where
  "Data_Reset x = mkData []"

definition Close_Reset :: "CloseMessage \<Rightarrow> CloseMessage" where
  "Close_Reset x = mkClose"

definition Ping_Reset :: "Ping \<Rightarrow> Ping" where
  "Ping_Reset x = mkPing 0"

definition Pong_Reset :: "Pong \<Rightarrow> Pong" where
  "Pong_Reset x = mkPong 0"

section \<open>The protobuf runtime as a parameter\<close>

record 'm message_codec =
  mc_marshal :: "'m \<Rightarrow> bytes option"
  mc_unmarshal :: "bytes \<Rightarrow> 'm option"

record proto =
  pb_CallRequest :: "CallRequest message_codec"
  pb_CallResult :: "CallResult message_codec"
  pb_Failure :: "Failure message_codec"
  pb_OpenStream :: "OpenStream message_codec"
  pb_StreamAccepted :: "StreamAccepted message_codec"
  pb_Data :: "Data message_codec"
  pb_Ping :: "Ping message_codec"
  pb_Pong :: "Pong message_codec"

definition codec_roundtrip :: "'m message_codec \<Rightarrow> ('m \<Rightarrow> bytes) \<Rightarrow> bool" where
  "codec_roundtrip c unknown \<longleftrightarrow>
    (\<forall>m b. unknown m = [] \<longrightarrow> mc_marshal c m = Some b \<longrightarrow> mc_unmarshal c b = Some m)"

text \<open>The unknown fields of a failure are its own and those of the status in it.\<close>

definition Failure_foreign :: "Failure \<Rightarrow> bytes" where
  "Failure_foreign m = Failure_unknownFields m @ (case Failure_Status m of None \<Rightarrow> [] | Some st \<Rightarrow> Status_unknownFields st)"

lemma mkFailure_foreign [simp]: "Failure_foreign (mkFailure c m) = []"
  by (simp add: Failure_foreign_def)

definition proto_roundtrip :: "proto \<Rightarrow> bool" where
  "proto_roundtrip pb \<longleftrightarrow>
     codec_roundtrip (pb_CallRequest pb) CallRequest_unknownFields \<and>
     codec_roundtrip (pb_CallResult pb) CallResult_unknownFields \<and>
     codec_roundtrip (pb_Failure pb) Failure_foreign \<and>
     codec_roundtrip (pb_OpenStream pb) OpenStream_unknownFields \<and>
     codec_roundtrip (pb_StreamAccepted pb) StreamAccepted_unknownFields \<and>
     codec_roundtrip (pb_Data pb) Data_unknownFields \<and>
     codec_roundtrip (pb_Ping pb) Ping_unknownFields \<and>
     codec_roundtrip (pb_Pong pb) Pong_unknownFields"

definition proto_framed :: "proto \<Rightarrow> bool" where
  "proto_framed pb \<longleftrightarrow>
     (\<forall>m p b. p \<noteq> [] \<longrightarrow> mc_marshal (pb_CallRequest pb) (mkCallRequest m p) = Some b \<longrightarrow>
        length p + 2 \<le> length b) \<and>
     (\<forall>p b. p \<noteq> [] \<longrightarrow> mc_marshal (pb_CallResult pb) (mkCallResult p) = Some b \<longrightarrow>
        length p + 2 \<le> length b) \<and>
     (\<forall>p b. p \<noteq> [] \<longrightarrow> mc_marshal (pb_Data pb) (mkData p) = Some b \<longrightarrow>
        length p + 2 \<le> length b)"

lemma codec_roundtripD:
  "codec_roundtrip c unknown \<Longrightarrow> unknown m = [] \<Longrightarrow> mc_marshal c m = Some b \<Longrightarrow> mc_unmarshal c b = Some m"
  by (simp add: codec_roundtrip_def)

lemmas proto_roundtripD = proto_roundtrip_def[THEN iffD1]

section \<open>A concrete runtime\<close>

text \<open>
  A runtime that satisfies both hypotheses, so that statements that assume them can be
  evaluated. It writes a tag byte, strings in a unary length prefix and integers in
  big-endian order; it makes no claim to be the protobuf format.
\<close>

definition str_bytes :: "string \<Rightarrow> bytes" where
  "str_bytes s = map of_char s"

definition bytes_str :: "bytes \<Rightarrow> string" where
  "bytes_str bs = map (\<lambda>b. char_of (unat b)) bs"

definition sample_put_string :: "string \<Rightarrow> bytes" where
  "sample_put_string s = replicate (length s) 1 @ 0 # str_bytes s"

definition sample_get_string :: "bytes \<Rightarrow> (string \<times> bytes) option" where
  "sample_get_string bs =
    (let n = length (takeWhile (\<lambda>b. b = 1) bs); rest = drop (Suc n) bs in
     if length rest < n then None else Some (bytes_str (take n rest), drop n rest))"

definition sample_bytes_codec :: "('m \<Rightarrow> bytes) \<Rightarrow> ('m \<Rightarrow> bytes) \<Rightarrow> (bytes \<Rightarrow> 'm) \<Rightarrow> 'm message_codec" where
  "sample_bytes_codec unknown get mk = \<lparr>
     mc_marshal = (\<lambda>m. if unknown m = [] then Some (10 # 0 # get m) else None),
     mc_unmarshal = (\<lambda>bs. case bs of a # b # p \<Rightarrow> if a = 10 \<and> b = 0 then Some (mk p) else None | _ \<Rightarrow> None)\<rparr>"

definition sample_string_codec :: "('m \<Rightarrow> bytes) \<Rightarrow> ('m \<Rightarrow> string \<times> bytes) \<Rightarrow> (string \<Rightarrow> bytes \<Rightarrow> 'm) \<Rightarrow> 'm message_codec" where
  "sample_string_codec unknown get mk = \<lparr>
     mc_marshal = (\<lambda>m. if unknown m = [] then Some (sample_put_string (fst (get m)) @ 18 # snd (get m)) else None),
     mc_unmarshal = (\<lambda>bs. case sample_get_string bs of
        Some (s, t # p) \<Rightarrow> if t = 18 then Some (mk s p) else None | _ \<Rightarrow> None)\<rparr>"

definition sample_Failure_codec :: "Failure message_codec" where
  "sample_Failure_codec = \<lparr>
     mc_marshal = (\<lambda>m. if Failure_unknownFields m \<noteq> [] then None else (case Failure_Status m of
        None \<Rightarrow> Some []
      | Some st \<Rightarrow> Some (put_be 4 (Status_Code st) @ sample_put_string (Status_Message st) @ Status_unknownFields st))),
     mc_unmarshal = (\<lambda>bs. if bs = [] then Some \<lparr>Failure_Status = None, Failure_unknownFields = []\<rparr>
        else (case sample_get_string (drop 4 bs) of
          Some (s, rest) \<Rightarrow> Some \<lparr>Failure_Status = Some \<lparr>Status_Code = get_be (take 4 bs), Status_Message = s,
              Status_unknownFields = rest\<rparr>, Failure_unknownFields = []\<rparr>
        | None \<Rightarrow> None))\<rparr>"

definition sample_proto :: proto where
  "sample_proto = \<lparr>
     pb_CallRequest = sample_string_codec CallRequest_unknownFields
        (\<lambda>m. (CallRequest_Method m, CallRequest_Payload m)) mkCallRequest,
     pb_CallResult = sample_bytes_codec CallResult_unknownFields CallResult_Payload mkCallResult,
     pb_Failure = sample_Failure_codec,
     pb_OpenStream = sample_string_codec OpenStream_unknownFields
        (\<lambda>m. (OpenStream_Method m, [])) (\<lambda>s p. mkOpenStream s),
     pb_StreamAccepted = sample_bytes_codec StreamAccepted_unknownFields (\<lambda>m. []) (\<lambda>p. mkStreamAccepted),
     pb_Data = sample_bytes_codec Data_unknownFields Data_Payload mkData,
     pb_Ping = sample_bytes_codec Ping_unknownFields (\<lambda>m. put_be 8 (Ping_Nonce m)) (\<lambda>p. mkPing (get_be p)),
     pb_Pong = sample_bytes_codec Pong_unknownFields (\<lambda>m. put_be 8 (Pong_Nonce m)) (\<lambda>p. mkPong (get_be p))\<rparr>"

lemma char_byte_roundtrip: "char_of (unat (of_char c :: byte)) = c"
proof -
  have "unat (of_char c :: byte) = of_char c"
    by (cases c) (simp add: of_char_def unat_of_nat)
  then show ?thesis by simp
qed

lemma bytes_str_str_bytes [simp]: "bytes_str (str_bytes s) = s"
  by (induction s) (simp_all add: bytes_str_def str_bytes_def char_byte_roundtrip)

lemma length_str_bytes [simp]: "length (str_bytes s) = length s"
  by (simp add: str_bytes_def)

lemma takeWhile_ones: "takeWhile (\<lambda>b. b = (1::byte)) (replicate n 1 @ 0 # xs) = replicate n 1"
  by (induction n) auto

lemma sample_string_roundtrip [simp]: "sample_get_string (sample_put_string s @ rest) = Some (s, rest)"
  by (simp add: sample_get_string_def sample_put_string_def takeWhile_ones Let_def)

lemma sample_bytes_roundtrip:
  "(\<And>m. unknown m = [] \<Longrightarrow> mk (get m) = m) \<Longrightarrow> codec_roundtrip (sample_bytes_codec unknown get mk) unknown"
  by (auto simp: codec_roundtrip_def sample_bytes_codec_def)

lemma sample_string_codec_roundtrip:
  "(\<And>m. unknown m = [] \<Longrightarrow> mk (fst (get m)) (snd (get m)) = m) \<Longrightarrow>
   codec_roundtrip (sample_string_codec unknown get mk) unknown"
  by (auto simp: codec_roundtrip_def sample_string_codec_def)

lemma sample_Failure_roundtrip: "codec_roundtrip sample_Failure_codec Failure_foreign"
proof -
  have be: "get_be (put_be 4 (w::u32)) = w" for w by (rule get_put_be) simp
  have "mc_unmarshal sample_Failure_codec b = Some m"
    if "Failure_foreign m = []" "mc_marshal sample_Failure_codec m = Some b" for m b
  proof (cases "Failure_Status m")
    case None
    with that show ?thesis by (cases m) (simp add: sample_Failure_codec_def Failure_foreign_def)
  next
    case (Some st)
    with that have "b = put_be 4 (Status_Code st) @ sample_put_string (Status_Message st) @ Status_unknownFields st"
      by (simp add: sample_Failure_codec_def Failure_foreign_def)
    moreover have "put_be 4 (Status_Code st) \<noteq> []" by (metis length_put_be list.size(3) zero_neq_numeral)
    ultimately show ?thesis using Some that(1)
      by (cases m; cases st) (simp add: sample_Failure_codec_def Failure_foreign_def be
          sample_string_roundtrip[where rest = "[]", simplified])
  qed
  then show ?thesis by (simp add: codec_roundtrip_def)
qed

lemma sample_proto_roundtrip: "proto_roundtrip sample_proto"
proof -
  have be: "get_be (put_be 8 (w::u64)) = w" for w by (rule get_put_be) simp
  show ?thesis
    unfolding proto_roundtrip_def sample_proto_def
    by (auto intro!: sample_bytes_roundtrip sample_string_codec_roundtrip sample_Failure_roundtrip simp: be)
qed

lemma sample_proto_framed: "proto_framed sample_proto"
  by (auto simp: proto_framed_def sample_proto_def sample_bytes_codec_def sample_string_codec_def sample_put_string_def)

end
