(* ===== verification/Codec.thy ===== *)
theory Codec
  imports Wire
begin

text \<open>
  The framing of \<^verbatim>\<open>src/infrastructure/peer/codec/frame.go\<close>: a 13-byte header (type, stream ID,
  body length, both integers big-endian) and an uninterpreted body, the reader and the
  writer with their limits, and the strict encoding of message bodies.

  The connection is modelled from the codec's side. What the peer sends is a byte sequence
  together with the error the source reports once it is exhausted. What is written goes to a
  target whose \<^verbatim>\<open>Write\<close> may accept any number of bytes with or without an error: its
  answers are a script, and an empty script accepts everything.
\<close>

section \<open>Frames\<close>

abbreviation (input) HeaderSize :: nat where "HeaderSize \<equiv> 13"
abbreviation (input) MaxStreamID :: u64 where "MaxStreamID \<equiv> 9223372036854775807"

abbreviation (input) FrameOpenCall :: byte where "FrameOpenCall \<equiv> 1"
abbreviation (input) FrameCallResult :: byte where "FrameCallResult \<equiv> 2"
abbreviation (input) FrameOpenStream :: byte where "FrameOpenStream \<equiv> 3"
abbreviation (input) FrameStreamOpenAck :: byte where "FrameStreamOpenAck \<equiv> 4"
abbreviation (input) FrameData :: byte where "FrameData \<equiv> 5"
abbreviation (input) FrameCloseSend :: byte where "FrameCloseSend \<equiv> 6"
abbreviation (input) FrameStreamEnd :: byte where "FrameStreamEnd \<equiv> 7"
abbreviation (input) FramePing :: byte where "FramePing \<equiv> 8"
abbreviation (input) FramePong :: byte where "FramePong \<equiv> 9"
abbreviation (input) FrameClose :: byte where "FrameClose \<equiv> 10"

definition FrameType_String :: "byte \<Rightarrow> string" where
  "FrameType_String t =
    (if t = FrameOpenCall then ''open-call''
     else if t = FrameCallResult then ''call-result''
     else if t = FrameOpenStream then ''open-stream''
     else if t = FrameStreamOpenAck then ''stream-open-ack''
     else if t = FrameData then ''data''
     else if t = FrameCloseSend then ''close-send''
     else if t = FrameStreamEnd then ''stream-end''
     else if t = FramePing then ''ping''
     else if t = FramePong then ''pong''
     else if t = FrameClose then ''close''
     else ''unknown'')"

definition scoped :: "byte \<Rightarrow> bool" where
  "scoped t \<longleftrightarrow> t \<in> {FrameOpenCall, FrameCallResult, FrameOpenStream, FrameStreamOpenAck,
     FrameData, FrameCloseSend, FrameStreamEnd}"

record Frame =
  Frame_Type :: byte
  Frame_StreamID :: u64
  Frame_Payload :: bytes

definition frame_validate :: "Frame \<Rightarrow> go_error option" where
  "frame_validate f =
    (if Frame_Type f < FrameOpenCall \<or> FrameClose < Frame_Type f then Some (Sentinel ErrProtocolViolation)
     else if MaxStreamID < Frame_StreamID f then Some (Sentinel ErrProtocolViolation)
     else if \<not> scoped (Frame_Type f) \<and> Frame_StreamID f \<noteq> 0 then Some (Sentinel ErrProtocolViolation)
     else None)"

section \<open>Reading\<close>

text \<open>The bytes a peer sends, and the error reported when there are no more.\<close>

record source =
  src_bytes :: bytes
  src_end :: go_error

text \<open>\<^verbatim>\<open>io.ReadFull\<close> of the standard library: the bytes read, the error, and the rest.\<close>

definition io_ReadFull :: "nat \<Rightarrow> source \<Rightarrow> bytes \<times> go_error option \<times> source" where
  "io_ReadFull n s =
    (let got = take n (src_bytes s); s' = s\<lparr>src_bytes := drop n (src_bytes s)\<rparr> in
     if length got = n then (got, None, s')
     else if got \<noteq> [] \<and> src_end s = Sentinel IoEOF then (got, Some (Sentinel IoErrUnexpectedEOF), s')
     else (got, Some (src_end s), s'))"

definition truncated :: "go_error \<Rightarrow> string \<Rightarrow> go_error" where
  "truncated err what =
    (if errors_Is err IoEOF \<or> errors_Is err IoErrUnexpectedEOF
     then Wrap (''codec: '' @ what @ '' truncated'') (Sentinel ErrProtocolViolation)
     else Wrap (''codec: read '' @ what) (Sentinel ErrConnectionClosed))"

record Reader =
  rd_maxBodySize :: int

definition NewReader :: "int \<Rightarrow> Reader" where
  "NewReader maxBodySize = \<lparr>rd_maxBodySize =
     (if maxBodySize \<le> 0 then MaxMessageBytes DefaultLimits else maxBodySize)\<rparr>"

definition header_frame :: "bytes \<Rightarrow> Frame" where
  "header_frame header =
     \<lparr>Frame_Type = hd header, Frame_StreamID = get_be (take 8 (drop 1 header)), Frame_Payload = []\<rparr>"

definition header_bodyLength :: "bytes \<Rightarrow> u32" where
  "header_bodyLength header = get_be (take 4 (drop 9 header))"

definition ReadFrame :: "Reader \<Rightarrow> source \<Rightarrow> (go_error + Frame) \<times> source" where
  "ReadFrame reader s =
    (case io_ReadFull HeaderSize s of
       (header, Some err, s1) \<Rightarrow>
         (if errors_Is err IoEOF \<and> header = [] then (Inl (Sentinel IoEOF), s1)
          else (Inl (truncated err ''frame header''), s1))
     | (header, None, s1) \<Rightarrow>
         let frame = header_frame header; bodyLength = header_bodyLength header in
         case frame_validate frame of
           Some err \<Rightarrow> (Inl err, s1)
         | None \<Rightarrow>
             if uint bodyLength > rd_maxBodySize reader then (Inl (Sentinel ErrMessageTooLarge), s1)
             else if bodyLength = 0 then (Inr frame, s1)
             else (case io_ReadFull (unat bodyLength) s1 of
                 (body, Some err, s2) \<Rightarrow> (Inl (truncated err ''frame body''), s2)
               | (body, None, s2) \<Rightarrow> (Inr (frame\<lparr>Frame_Payload := body\<rparr>), s2)))"

section \<open>Writing\<close>

record transport =
  tr_accepted :: bytes
  tr_script :: "(int \<times> go_error option) list"
  tr_closed :: bool

text \<open>One \<^verbatim>\<open>Write\<close> on the connection, and its \<^verbatim>\<open>Close\<close>.\<close>

definition transport_write :: "transport \<Rightarrow> bytes \<Rightarrow> transport \<times> int \<times> go_error option" where
  "transport_write t data =
    (if tr_closed t then (t, 0, Some (Sentinel NetErrClosed))
     else case tr_script t of
       [] \<Rightarrow> (t\<lparr>tr_accepted := tr_accepted t @ data\<rparr>, int (length data), None)
     | (n, err) # rest \<Rightarrow>
         (t\<lparr>tr_accepted := tr_accepted t @ take (nat n) data, tr_script := rest\<rparr>, n, err))"

definition transport_close :: "transport \<Rightarrow> transport" where
  "transport_close t = t\<lparr>tr_closed := True\<rparr>"

function writeAll :: "('w \<Rightarrow> bytes \<Rightarrow> 'w \<times> int \<times> go_error option) \<Rightarrow> 'w \<Rightarrow> bytes \<Rightarrow> 'w \<times> go_error option" where
  "writeAll write target data =
    (if data = [] then (target, None)
     else case write target data of (target', written, err) \<Rightarrow>
       if written < 0 \<or> int (length data) < written then (target', Some (Sentinel ErrConnectionClosed))
       else if err \<noteq> None then (target', Some (Sentinel ErrConnectionClosed))
       else if written = 0 then (target', Some (Sentinel IoErrShortWrite))
       else writeAll write target' (drop (nat written) data))"
  by pat_completeness auto
termination
  by (relation "measure (\<lambda>(write, target, data). length data)") auto

declare writeAll.simps [simp del]

record Writer =
  wr_maxBodySize :: int

definition NewWriter :: "int \<Rightarrow> Writer" where
  "NewWriter maxBodySize = \<lparr>wr_maxBodySize =
     (if maxBodySize \<le> 0 then MaxMessageBytes DefaultLimits else maxBodySize)\<rparr>"

definition frame_header :: "Frame \<Rightarrow> bytes" where
  "frame_header f = Frame_Type f # put_be 8 (Frame_StreamID f)
     @ put_be 4 (word_of_nat (length (Frame_Payload f)) :: u32)"

definition WriteFrame :: "('w \<Rightarrow> bytes \<Rightarrow> 'w \<times> int \<times> go_error option) \<Rightarrow> Writer \<Rightarrow> 'w \<Rightarrow> Frame
    \<Rightarrow> 'w \<times> go_error option" where
  "WriteFrame write writer target f =
    (if int (length (Frame_Payload f)) > wr_maxBodySize writer then (target, Some (Sentinel ErrMessageTooLarge))
     else if length (Frame_Payload f) > 4294967295 then (target, Some (Sentinel ErrMessageTooLarge))
     else case frame_validate f of
       Some err \<Rightarrow> (target, Some err)
     | None \<Rightarrow>
         (case writeAll write target (frame_header f) of
            (target1, Some err) \<Rightarrow> (target1, Some err)
          | (target1, None) \<Rightarrow>
              if Frame_Payload f = [] then (target1, None)
              else writeAll write target1 (Frame_Payload f)))"

section \<open>Message bodies\<close>

definition Marshal :: "'m message_codec \<Rightarrow> 'm \<Rightarrow> go_error + bytes" where
  "Marshal c m = (case mc_marshal c m of
     None \<Rightarrow> Inl (Wrap ''codec: encode frame body'' (Sentinel ErrProtocolViolation))
   | Some b \<Rightarrow> Inr b)"

definition Unmarshal :: "'m message_codec \<Rightarrow> ('m \<Rightarrow> bytes) \<Rightarrow> bytes \<Rightarrow> go_error + 'm" where
  "Unmarshal c unknown body = (case mc_unmarshal c body of
     None \<Rightarrow> Inl (Wrap ''codec: decode frame body'' (Sentinel ErrProtocolViolation))
   | Some m \<Rightarrow>
       if unknown m \<noteq> []
       then Inl (Wrap ''codec: frame body carries unknown fields'' (Sentinel ErrProtocolViolation))
       else Inr m)"

section \<open>The writer's contract with its target\<close>

text \<open>
  What the codec relies on of an \<^verbatim>\<open>io.Writer\<close>: a write appends a prefix of its argument, of
  exactly the reported length when the reported count is within the argument's length.
\<close>

locale byte_sink =
  fixes wr :: "'w \<Rightarrow> bytes \<Rightarrow> 'w \<times> int \<times> go_error option"
    and contents :: "'w \<Rightarrow> bytes"
  assumes write_prefix: "wr w data = (w', n, e) \<Longrightarrow> contents w' = contents w @ take (nat n) data"
begin

lemma writeAll_step:
  "data \<noteq> [] \<Longrightarrow> wr w data = (w1, n, err) \<Longrightarrow>
   writeAll wr w data =
     (if n < 0 \<or> int (length data) < n \<or> err \<noteq> None then (w1, Some (Sentinel ErrConnectionClosed))
      else if n = 0 then (w1, Some (Sentinel IoErrShortWrite))
      else writeAll wr w1 (drop (nat n) data))"
  by (subst writeAll.simps) simp

lemma writeAll_prefix:
  "writeAll wr w data = (w', e) \<Longrightarrow>
   \<exists>k. contents w' = contents w @ take k data \<and> (e = None \<longrightarrow> length data \<le> k)"
proof (induction "length data" arbitrary: w data rule: less_induct)
  case less
  show ?case
  proof (cases "data = []")
    case True
    with less.prems show ?thesis by (subst (asm) writeAll.simps) auto
  next
    case False
    obtain w1 n err where wr: "wr w data = (w1, n, err)" by (cases "wr w data") auto
    note c1 = write_prefix[OF wr]
    show ?thesis
    proof (cases "0 < n \<and> n \<le> int (length data) \<and> err = None")
      case True
      then have "writeAll wr w1 (drop (nat n) data) = (w', e)"
        using less.prems writeAll_step[OF False wr] by (auto split: if_splits)
      moreover have "length (drop (nat n) data) < length data" using True False by simp
      ultimately obtain k where "contents w' = contents w1 @ take k (drop (nat n) data)"
        "e = None \<longrightarrow> length data - nat n \<le> k"
        using less.hyps by fastforce
      then have "contents w' = contents w @ take (nat n + k) data \<and> (e = None \<longrightarrow> length data \<le> nat n + k)"
        using c1 by (auto simp: take_add)
      then show ?thesis by blast
    next
      case nok: False
      then have "w' = w1 \<and> e \<noteq> None"
        using less.prems writeAll_step[OF False wr] by (auto split: if_splits)
      then show ?thesis using c1 by blast
    qed
  qed
qed

lemma writeAll_ok: "writeAll wr w data = (w', None) \<Longrightarrow> contents w' = contents w @ data"
  using writeAll_prefix by fastforce

lemma WriteFrame_ok:
  assumes "WriteFrame wr writer w f = (w', None)"
  shows "contents w' = contents w @ frame_header f @ Frame_Payload f"
    and "frame_validate f = None"
    and "int (length (Frame_Payload f)) \<le> wr_maxBodySize writer"
    and "length (Frame_Payload f) < 2 ^ 32"
  using assms
  by (auto simp: WriteFrame_def split: if_splits option.splits prod.splits dest!: writeAll_ok)

lemma WriteFrame_prefix:
  assumes "WriteFrame wr writer w f = (w', e)"
  shows "\<exists>k. contents w' = contents w @ take k (frame_header f @ Frame_Payload f)"
proof (cases "w' = w")
  case True
  then show ?thesis by (intro exI[of _ 0]) simp
next
  case False
  then obtain w1 e1 where h: "writeAll wr w (frame_header f) = (w1, e1)"
    and r: "(w', e) = (case e1 of Some err \<Rightarrow> (w1, Some err)
       | None \<Rightarrow> if Frame_Payload f = [] then (w1, None) else writeAll wr w1 (Frame_Payload f))"
    using assms by (auto simp: WriteFrame_def split: if_splits option.splits prod.splits)
  obtain k where k: "contents w1 = contents w @ take k (frame_header f)"
    using writeAll_prefix[OF h] by blast
  show ?thesis
  proof (cases e1)
    case (Some err)
    then have "w' = w1" using r by simp
    then have "contents w' = contents w @ take (min k (length (frame_header f))) (frame_header f @ Frame_Payload f)"
      using k by (simp add: min_def)
    then show ?thesis by blast
  next
    case None
    then have k': "contents w1 = contents w @ frame_header f" using h writeAll_ok by simp
    show ?thesis
    proof (cases "Frame_Payload f = []")
      case True
      then have "contents w' = contents w @ take (length (frame_header f)) (frame_header f @ Frame_Payload f)"
        using None k' r by simp
      then show ?thesis by blast
    next
      case False
      then have "writeAll wr w1 (Frame_Payload f) = (w', e)" using r None by simp
      then obtain j where "contents w' = contents w1 @ take j (Frame_Payload f)"
        using writeAll_prefix by blast
      then have "contents w' = contents w @ take (length (frame_header f) + j) (frame_header f @ Frame_Payload f)"
        using k' by simp
      then show ?thesis by blast
    qed
  qed
qed

end

interpretation conn_sink: byte_sink transport_write tr_accepted
  by unfold_locales (auto simp: transport_write_def split: if_splits list.splits)

section \<open>Header round trip\<close>

definition frame_encode :: "Frame \<Rightarrow> bytes" where
  "frame_encode f = frame_header f @ Frame_Payload f"

lemma length_frame_header [simp]: "length (frame_header f) = 13"
  by (simp add: frame_header_def)

lemma get_be_u64 [simp]: "get_be (put_be 8 (w::u64)) = w"
  by (rule get_put_be) simp

lemma get_be_u32 [simp]: "get_be (put_be 4 (w::u32)) = w"
  by (rule get_put_be) simp

lemma validate_payload_irrelevant [simp]: "frame_validate (f\<lparr>Frame_Payload := p\<rparr>) = frame_validate f"
  by (simp add: frame_validate_def)

lemma header_frame_header [simp]: "header_frame (frame_header f) = f\<lparr>Frame_Payload := []\<rparr>"
  by (cases f) (simp add: header_frame_def frame_header_def)

lemma header_bodyLength_header [simp]:
  "header_bodyLength (frame_header f) = word_of_nat (length (Frame_Payload f))"
  by (simp add: header_bodyLength_def frame_header_def)

lemma frame_header_inverse:
  assumes "length h = 13" and "length p = unat (header_bodyLength h)"
  shows "frame_header ((header_frame h)\<lparr>Frame_Payload := p\<rparr>) = h"
proof -
  have split: "hd h # take 8 (drop 1 h) @ take 4 (drop 9 h) = h"
  proof -
    have "take 4 (drop 9 h) = drop 9 h" using assms(1) by simp
    moreover have "take 8 (drop 1 h) @ drop 9 h = drop 1 h"
      using append_take_drop_id[of 8 "drop 1 h"] by simp
    moreover have "hd h # drop 1 h = h" using assms(1) by (cases h) auto
    ultimately show ?thesis by simp
  qed
  have "put_be (length (take 8 (drop 1 h))) (get_be (take 8 (drop 1 h)) :: u64) = take 8 (drop 1 h)"
    by (rule put_get_be) (use assms(1) in simp)
  then have sid: "put_be 8 (get_be (take 8 (drop 1 h)) :: u64) = take 8 (drop 1 h)" using assms(1) by simp
  have "put_be (length (take 4 (drop 9 h))) (get_be (take 4 (drop 9 h)) :: u32) = take 4 (drop 9 h)"
    by (rule put_get_be) (use assms(1) in simp)
  then have len: "put_be 4 (get_be (take 4 (drop 9 h)) :: u32) = take 4 (drop 9 h)" using assms(1) by simp
  have "word_of_nat (length p) = (get_be (take 4 (drop 9 h)) :: u32)"
    using assms(2) by (simp add: header_bodyLength_def)
  then show ?thesis unfolding frame_header_def header_frame_def
    using split sid len by (simp only: Frame.select_convs Frame.update_convs)
qed

lemma ReadFull_exact: "src_bytes s = pre @ rest \<Longrightarrow> length pre = n \<Longrightarrow>
  io_ReadFull n s = (pre, None, s\<lparr>src_bytes := rest\<rparr>)"
  by (auto simp: io_ReadFull_def Let_def)

lemma ReadFrame_encode:
  assumes "frame_validate f = None" and "int (length (Frame_Payload f)) \<le> rd_maxBodySize reader"
    and "length (Frame_Payload f) < 2 ^ 32" and "src_bytes s = frame_encode f @ rest"
  shows "ReadFrame reader s = (Inr f, s\<lparr>src_bytes := rest\<rparr>)"
proof -
  let ?s1 = "s\<lparr>src_bytes := Frame_Payload f @ rest\<rparr>"
  let ?n = "word_of_nat (length (Frame_Payload f)) :: u32"
  have n1: "unat ?n = length (Frame_Payload f)"
    using assms(3) by (simp add: unsigned_of_nat take_bit_nat_eq_self)
  have n: "unat ?n = length (Frame_Payload f)" "uint ?n = int (length (Frame_Payload f))"
    using n1 by (simp_all only: uint_nat)
  have z: "?n = 0 \<longleftrightarrow> Frame_Payload f = []"
    using n1 by (metis length_0_conv unat_eq_zero)
  have h: "io_ReadFull 13 s = (frame_header f, None, ?s1)"
    by (rule ReadFull_exact) (use assms(4) in \<open>simp_all add: frame_encode_def\<close>)
  have b: "io_ReadFull (length (Frame_Payload f)) ?s1 = (Frame_Payload f, None, s\<lparr>src_bytes := rest\<rparr>)"
    by (subst ReadFull_exact) auto
  show ?thesis using assms(1,2) b
    by (cases "Frame_Payload f = []") (auto simp: ReadFrame_def h Let_def n z)
qed

lemmas codec_eval = WriteFrame_def NewWriter_def frame_encode_def frame_header_def put_be_numeral
  writeAll.simps transport_write_def frame_validate_def scoped_def ReadFrame_def NewReader_def
  io_ReadFull_def Let_def header_frame_def header_bodyLength_def get_be_def truncated_def

lemma ReadFull_Some:
  "io_ReadFull n s = (got, None, s') \<Longrightarrow> src_bytes s = got @ src_bytes s' \<and> length got = n \<and> src_end s' = src_end s"
  by (auto simp: io_ReadFull_def Let_def split: if_splits)

lemma ReadFull_short:
  "io_ReadFull n s = (got, Some e, s') \<Longrightarrow>
   got = src_bytes s \<and> length got < n \<and> src_bytes s' = [] \<and>
   e = (if got \<noteq> [] \<and> src_end s = Sentinel IoEOF then Sentinel IoErrUnexpectedEOF else src_end s)"
  by (auto simp: io_ReadFull_def Let_def split: if_splits)

lemma ReadFrame_Inr:
  assumes "ReadFrame reader s = (Inr f, s')"
  shows "src_bytes s = frame_encode f @ src_bytes s'" and "src_end s' = src_end s"
    and "frame_validate f = None" and "int (length (Frame_Payload f)) \<le> rd_maxBodySize reader"
    and "length (Frame_Payload f) < 2 ^ 32"
proof -
  obtain h s1 where h: "io_ReadFull 13 s = (h, None, s1)" and v: "frame_validate (header_frame h) = None"
    and sz: "uint (header_bodyLength h) \<le> rd_maxBodySize reader"
    and b: "header_bodyLength h = 0 \<and> f = header_frame h \<and> s' = s1 \<or>
      header_bodyLength h \<noteq> 0 \<and> (\<exists>body. io_ReadFull (unat (header_bodyLength h)) s1 = (body, None, s')
        \<and> f = (header_frame h)\<lparr>Frame_Payload := body\<rparr>)"
    using assms by (auto simp: ReadFrame_def Let_def split: prod.splits option.splits if_splits)
  obtain p where p: "f = (header_frame h)\<lparr>Frame_Payload := p\<rparr>" "length p = unat (header_bodyLength h)"
    "src_bytes s1 = p @ src_bytes s'" "src_end s' = src_end s1"
    using b by (auto dest!: ReadFull_Some simp: header_frame_def)
  note hh = ReadFull_Some[OF h]
  have hdr: "frame_header f = h" using p hh by (simp add: frame_header_inverse)
  show "src_bytes s = frame_encode f @ src_bytes s'" using hh p hdr by (simp add: frame_encode_def)
  show "src_end s' = src_end s" using hh p by simp
  show "frame_validate f = None" using v p by simp
  show "int (length (Frame_Payload f)) \<le> rd_maxBodySize reader" using p sz by simp
  show "length (Frame_Payload f) < 2 ^ 32" using p unsigned_less[of "header_bodyLength h"] by simp
qed

lemma ReadFrame_consumes: "ReadFrame reader s = (Inr f, s') \<Longrightarrow> length (src_bytes s') < length (src_bytes s)"
  using ReadFrame_Inr(1) by (simp add: frame_encode_def)

text \<open>All the frames a source yields, and the error that ends the reading.\<close>

function ReadFrames :: "Reader \<Rightarrow> source \<Rightarrow> Frame list \<times> go_error" where
  "ReadFrames reader s =
    (case ReadFrame reader s of
       (Inl err, s') \<Rightarrow> ([], err)
     | (Inr f, s') \<Rightarrow> (case ReadFrames reader s' of (fs, err) \<Rightarrow> (f # fs, err)))"
  by pat_completeness auto
termination
  by (relation "measure (\<lambda>(r, s). length (src_bytes s))") (auto dest: ReadFrame_consumes[OF sym])

declare ReadFrames.simps [simp del]

definition frame_fits :: "int \<Rightarrow> Frame \<Rightarrow> bool" where
  "frame_fits n f \<longleftrightarrow> frame_validate f = None \<and> int (length (Frame_Payload f)) \<le> n \<and> length (Frame_Payload f) < 2 ^ 32"

text \<open>
  C23. Frame round trip. A frame the writer accepts, on any connection and whatever partial
  writes it goes through, is read back by a reader with the same limit as exactly that frame,
  and the reader is left on the first byte after it.
\<close>

theorem frame_roundtrip:
  assumes "WriteFrame transport_write (NewWriter n) t f = (t', None)"
  shows "\<exists>sent. tr_accepted t' = tr_accepted t @ sent \<and>
    ReadFrame (NewReader n) \<lparr>src_bytes = sent @ rest, src_end = e\<rparr> = (Inr f, \<lparr>src_bytes = rest, src_end = e\<rparr>)"
proof -
  note ok = conn_sink.WriteFrame_ok[OF assms]
  have "rd_maxBodySize (NewReader n) = wr_maxBodySize (NewWriter n)"
    by (simp add: NewReader_def NewWriter_def)
  then have "ReadFrame (NewReader n) \<lparr>src_bytes = frame_encode f @ rest, src_end = e\<rparr>
      = (Inr f, \<lparr>src_bytes = rest, src_end = e\<rparr>)"
    using ok ReadFrame_encode[where s = "\<lparr>src_bytes = frame_encode f @ rest, src_end = e\<rparr>"] by simp
  then show ?thesis using ok(1) by (auto simp: frame_encode_def)
qed

definition sample_frame :: Frame where
  "sample_frame = \<lparr>Frame_Type = FrameData, Frame_StreamID = 3, Frame_Payload = [7, 8, 9]\<rparr>"

definition sample_transport :: transport where
  "sample_transport = \<lparr>tr_accepted = [], tr_script = [(4, None), (9, None), (1, None)], tr_closed = False\<rparr>"

theorem frame_roundtrip_witness:
  "WriteFrame transport_write (NewWriter 16) sample_transport sample_frame
     = (sample_transport\<lparr>tr_accepted := frame_encode sample_frame, tr_script := []\<rparr>, None)
   \<and> (\<exists>sent. frame_encode sample_frame = sent \<and>
    ReadFrame (NewReader 16) \<lparr>src_bytes = sent @ [1, 2], src_end = Sentinel IoEOF\<rparr>
      = (Inr sample_frame, \<lparr>src_bytes = [1, 2], src_end = Sentinel IoEOF\<rparr>))"
proof -
  have w: "WriteFrame transport_write (NewWriter 16) sample_transport sample_frame
     = (sample_transport\<lparr>tr_accepted := frame_encode sample_frame, tr_script := []\<rparr>, None)"
    by (simp add: codec_eval sample_transport_def sample_frame_def)
  show ?thesis using w frame_roundtrip[OF w, of "[1, 2]" "Sentinel IoEOF"]
    by (simp add: sample_transport_def)
qed

text \<open>
  Framing of a whole conversation: any sequence of frames that fit the limit, written
  one after the other, is read back as the same sequence, after which the reader reports the
  end of the connection as a clean end of file.
\<close>

theorem frames_stream_roundtrip:
  assumes "\<forall>f \<in> set fs. frame_fits (rd_maxBodySize reader) f"
  shows "ReadFrames reader \<lparr>src_bytes = concat (map frame_encode fs), src_end = Sentinel IoEOF\<rparr>
    = (fs, Sentinel IoEOF)"
  using assms
proof (induction fs)
  case Nil
  then show ?case by (subst ReadFrames.simps) (simp add: ReadFrame_def io_ReadFull_def Let_def)
next
  case (Cons f fs)
  let ?s = "\<lparr>src_bytes = concat (map frame_encode (f # fs)), src_end = Sentinel IoEOF\<rparr>"
  have "ReadFrame reader ?s = (Inr f, \<lparr>src_bytes = concat (map frame_encode fs), src_end = Sentinel IoEOF\<rparr>)"
    using Cons.prems ReadFrame_encode[where s = "?s" and rest = "concat (map frame_encode fs)" and f = f]
    by (simp add: frame_fits_def)
  then show ?case using Cons by (subst ReadFrames.simps) simp
qed

theorem frames_stream_roundtrip_witness:
  "ReadFrames (NewReader 16) \<lparr>src_bytes = concat (map frame_encode [sample_frame, sample_frame\<lparr>Frame_Payload := []\<rparr>]),
     src_end = Sentinel IoEOF\<rparr>
   = ([sample_frame, sample_frame\<lparr>Frame_Payload := []\<rparr>], Sentinel IoEOF)"
  by (rule frames_stream_roundtrip)
    (simp add: frame_fits_def sample_frame_def frame_validate_def scoped_def NewReader_def)

text \<open>
  C24. The reader accepts exactly the canonical encodings: whatever it returns as a frame was
  on the wire as the encoding of that frame, is a valid frame and respects the limit. No
  byte is skipped and no two different byte sequences decode to one frame.
\<close>

theorem ReadFrame_exact:
  assumes "ReadFrame reader s = (Inr f, s')"
  shows "src_bytes s = frame_encode f @ src_bytes s' \<and> frame_fits (rd_maxBodySize reader) f"
  using ReadFrame_Inr[OF assms] by (simp add: frame_fits_def)

theorem ReadFrame_exact_witness:
  "src_bytes \<lparr>src_bytes = frame_encode sample_frame @ [1], src_end = Sentinel IoEOF\<rparr>
     = frame_encode sample_frame @ src_bytes \<lparr>src_bytes = [1], src_end = Sentinel IoEOF\<rparr>
   \<and> frame_fits (rd_maxBodySize (NewReader 16)) sample_frame"
proof -
  have "ReadFrame (NewReader 16) \<lparr>src_bytes = frame_encode sample_frame @ [1], src_end = Sentinel IoEOF\<rparr>
    = (Inr sample_frame, \<lparr>src_bytes = [1], src_end = Sentinel IoEOF\<rparr>)" by (simp add: codec_eval sample_transport_def sample_frame_def)
  then show ?thesis by (rule ReadFrame_exact)
qed

lemma status_truncated: "StatusOf (Some (truncated err what)) =
  (if errors_Is err IoEOF \<or> errors_Is err IoErrUnexpectedEOF then StatusProtocolViolation else StatusConnectionClosed)"
  by (simp add: truncated_def StatusOf_def)

lemma status_violation: "StatusOf (Some (Sentinel ErrProtocolViolation)) = StatusProtocolViolation"
  by (simp add: StatusOf_def)

lemma frame_validate_err: "frame_validate f = Some err \<Longrightarrow> err = Sentinel ErrProtocolViolation"
  by (auto simp: frame_validate_def split: if_splits)



text \<open>
  C26. A hostile length is refused before a single body byte is read: for a valid header that
  announces more than the limit the reader reports an oversized message and has consumed the
  13 header bytes and nothing else, whatever follows them.
\<close>

theorem oversized_header_rejected:
  assumes "length header = 13" and "frame_validate (header_frame header) = None"
    and "rd_maxBodySize reader < uint (header_bodyLength header)"
  shows "ReadFrame reader \<lparr>src_bytes = header @ rest, src_end = e\<rparr>
    = (Inl (Sentinel ErrMessageTooLarge), \<lparr>src_bytes = rest, src_end = e\<rparr>)"
  using assms ReadFull_exact[where s = "\<lparr>src_bytes = header @ rest, src_end = e\<rparr>" and pre = header]
  by (simp add: ReadFrame_def Let_def)

theorem oversized_header_rejected_witness:
  "ReadFrame (NewReader 64) \<lparr>src_bytes = (5 # put_be 8 (1::u64) @ put_be 4 (2147483648::u32)) @ [0], src_end = Sentinel IoEOF\<rparr>
    = (Inl (Sentinel ErrMessageTooLarge), \<lparr>src_bytes = [0], src_end = Sentinel IoEOF\<rparr>)"
  by (rule oversized_header_rejected; simp add: codec_eval)

text \<open>
  C27. What reaches the connection is always a prefix of the encoding of the frame being
  written, whatever the connection does: an invalid or oversized frame writes nothing at all,
  a failed write stops inside the frame, and a nil error means the whole frame was accepted.
\<close>

theorem WriteFrame_wire:
  assumes "WriteFrame transport_write writer t f = (t', e)"
  shows "(\<exists>k. tr_accepted t' = tr_accepted t @ take k (frame_encode f))
    \<and> (e = None \<longrightarrow> tr_accepted t' = tr_accepted t @ frame_encode f \<and> frame_fits (wr_maxBodySize writer) f)
    \<and> (\<not> frame_fits (wr_maxBodySize writer) f \<longrightarrow> t' = t \<and> e \<noteq> None)"
proof (intro conjI impI)
  show "\<exists>k. tr_accepted t' = tr_accepted t @ take k (frame_encode f)"
    using conn_sink.WriteFrame_prefix[OF assms] by (simp only: frame_encode_def)
next
  assume "e = None"
  note ok = conn_sink.WriteFrame_ok[OF assms[unfolded this]]
  show "tr_accepted t' = tr_accepted t @ frame_encode f" using ok(1) by (simp only: frame_encode_def)
  show "frame_fits (wr_maxBodySize writer) f" using ok(2-4) by (simp only: frame_fits_def)
next
  assume "\<not> frame_fits (wr_maxBodySize writer) f"
  then show "t' = t" and "e \<noteq> None"
    using assms by (cases "frame_validate f"; auto simp: WriteFrame_def frame_fits_def split: if_splits)+
qed

theorem WriteFrame_wire_witness:
  "WriteFrame transport_write (NewWriter 2) sample_transport sample_frame
     = (sample_transport, Some (Sentinel ErrMessageTooLarge))
   \<and> (\<exists>k. tr_accepted sample_transport = tr_accepted sample_transport @ take k (frame_encode sample_frame))"
proof -
  have w: "WriteFrame transport_write (NewWriter 2) sample_transport sample_frame
     = (sample_transport, Some (Sentinel ErrMessageTooLarge))" by (simp add: codec_eval sample_transport_def sample_frame_def)
  show ?thesis using w WriteFrame_wire[OF w] by blast
qed

end
