(* ===== verification/Conn_Stream.thy ===== *)
theory Conn_Stream
  imports Codec
begin

text \<open>
  One live bidirectional stream, \<^verbatim>\<open>src/infrastructure/peer/conn/stream.go\<close>.

  The two channels of the struct are lists with their capacities. A context is what its
  \<^verbatim>\<open>Err\<close> method returns: \<^term>\<open>None\<close> while it is alive. The code that waits in the middle
  of an operation is cut at the wait: \<^verbatim>\<open>CloseSend\<close> and \<^verbatim>\<open>flushOutbound\<close> are state machines
  whose position is a field of the stream, \<^verbatim>\<open>deliver\<close> and \<^verbatim>\<open>Recv\<close> return a value that says
  that the goroutine is parked. A \<^verbatim>\<open>select\<close> with several ready branches takes any of them: its
  choice is the argument \<open>pick\<close>, true for the channel operation and false for the context.

  The pump's writes go through the session, so the pump is cut into the choice of the next
  item, here, and the write of its frame, in the session's theory.
\<close>

section \<open>State\<close>

record outboundItem =
  oi_body :: bytes
  oi_closeSend :: bool
  oi_barrier :: bool

text \<open>Where a single-use blocking operation is: not called, waiting for room, waiting for the pump, done.\<close>

datatype progress = NotCalled | Enqueueing | Awaiting | Done "go_error option"

record stream =
  st_id :: u64
  st_method :: string
  st_fromSession :: bool
  st_ctx :: "go_error option"
  st_inbound :: "Message list"
  st_inboundCap :: nat
  st_inboundClosed :: bool
  st_inboundEOF :: bool
  st_outbound :: "outboundItem list"
  st_outboundCap :: nat
  st_pumpOnce :: bool
  st_pumping :: bool
  st_sendClosed :: bool
  st_sendEnd :: progress
  st_written :: "go_error option option"
  st_flush :: progress
  st_flushed :: "go_error option option"
  st_finishErr :: "go_error option"
  st_finishOnce :: bool

abbreviation (input) dataItem :: "bytes \<Rightarrow> outboundItem" where
  "dataItem b \<equiv> \<lparr>oi_body = b, oi_closeSend = False, oi_barrier = False\<rparr>"
abbreviation (input) closeItem :: outboundItem where
  "closeItem \<equiv> \<lparr>oi_body = [], oi_closeSend = True, oi_barrier = False\<rparr>"
abbreviation (input) barrierItem :: outboundItem where
  "barrierItem \<equiv> \<lparr>oi_body = [], oi_closeSend = False, oi_barrier = True\<rparr>"

section \<open>Operations\<close>

text \<open>
  The parent of a stream's context is the session's context (\<open>fromSession\<close>) or the context of
  the caller that opened it; \<open>parent\<close> is the parent's error at the time.
\<close>

definition newStreamWithin :: "Limits \<Rightarrow> u64 \<Rightarrow> string \<Rightarrow> bool \<Rightarrow> go_error option \<Rightarrow> stream" where
  "newStreamWithin limits streamID method fromSession parent = \<lparr>
     st_id = streamID, st_method = method, st_fromSession = fromSession, st_ctx = parent,
     st_inbound = [], st_inboundCap = nat (MaxStreamQueueDepth limits),
     st_inboundClosed = False, st_inboundEOF = False,
     st_outbound = [], st_outboundCap = nat (MaxStreamQueueDepth limits),
     st_pumpOnce = False, st_pumping = False,
     st_sendClosed = False, st_sendEnd = NotCalled, st_written = None,
     st_flush = NotCalled, st_flushed = None,
     st_finishErr = None, st_finishOnce = False\<rparr>"

definition newStream :: "Limits \<Rightarrow> go_error option \<Rightarrow> u64 \<Rightarrow> string \<Rightarrow> stream" where
  "newStream limits session_ctx streamID method = newStreamWithin limits streamID method True session_ctx"

definition stream_Method :: "stream \<Rightarrow> string" where "stream_Method s = st_method s"

text \<open>A context is what its \<^verbatim>\<open>Err\<close> returns.\<close>

definition stream_Context :: "stream \<Rightarrow> go_error option" where "stream_Context s = st_ctx s"

text \<open>The stream's \<^verbatim>\<open>cancel\<close> function, and a parent context that ends with an error.\<close>

definition stream_cancel :: "go_error \<Rightarrow> stream \<Rightarrow> stream" where
  "stream_cancel err s = (if st_ctx s = None then s\<lparr>st_ctx := Some err\<rparr> else s)"

definition closeInboundHalf :: "stream \<Rightarrow> stream" where
  "closeInboundHalf s =
    (if \<not> st_inboundClosed s then s\<lparr>st_inboundClosed := True, st_inboundEOF := True\<rparr> else s)"

definition closeInboundFinal :: "stream \<Rightarrow> stream" where
  "closeInboundFinal s = (if \<not> st_inboundClosed s then s\<lparr>st_inboundClosed := True\<rparr> else s)"

definition finishStream :: "go_error option \<Rightarrow> stream \<Rightarrow> stream" where
  "finishStream err s =
    (if st_finishOnce s then s
     else
       let err' = (case err of None \<Rightarrow> Sentinel ErrStreamClosed | Some e \<Rightarrow> e);
           s1 = s\<lparr>st_finishOnce := True, st_finishErr := Some err'\<rparr>;
           s2 = stream_cancel (Sentinel ErrCanceled) s1
       in closeInboundFinal s2)"

definition terminal :: "stream \<Rightarrow> go_error" where
  "terminal s = (case st_finishErr s of None \<Rightarrow> Sentinel ErrStreamClosed | Some e \<Rightarrow> e)"

datatype recv_result = RecvMessage Message | RecvError go_error | RecvParked

definition received :: "stream \<Rightarrow> Message option \<Rightarrow> recv_result" where
  "received s message = (case message of
     Some m \<Rightarrow> RecvMessage m
   | None \<Rightarrow> if st_inboundEOF s then RecvError (Sentinel IoEOF) else RecvError (terminal s))"

text \<open>\<open>usable\<close> is the answer of the session's \<^verbatim>\<open>usable\<close>.\<close>

definition settleCancelled :: "go_error option \<Rightarrow> stream \<Rightarrow> stream \<times> go_error" where
  "settleCancelled usable s =
    (let s' = (case usable of
                 Some err \<Rightarrow> finishStream (Some err) s
               | None \<Rightarrow> finishStream (Some (Sentinel ErrCanceled)) s)
     in (s', terminal s'))"

definition Recv :: "go_error option \<Rightarrow> stream \<Rightarrow> stream \<times> recv_result" where
  "Recv usable s =
    (case st_inbound s of
       m # rest \<Rightarrow> (s\<lparr>st_inbound := rest\<rparr>, received s (Some m))
     | [] \<Rightarrow>
         if st_inboundClosed s then (s, received s None)
         else if st_ctx s \<noteq> None then
           (case settleCancelled usable s of (s', err) \<Rightarrow> (s', RecvError err))
         else (s, RecvParked))"

definition encodeData :: "proto \<Rightarrow> bytes \<Rightarrow> go_error + bytes" where
  "encodeData pb payload = Marshal (pb_Data pb) (mkData payload)"

definition Send :: "proto \<Rightarrow> Limits \<Rightarrow> Message \<Rightarrow> stream \<Rightarrow> stream \<times> go_error option" where
  "Send pb limits message s =
    (if int (length (Message_Payload message)) > MaxStreamMessageBytes limits
     then (s, Some (Sentinel ErrMessageTooLarge))
     else case st_ctx s of
       Some err \<Rightarrow> (s, Some err)
     | None \<Rightarrow>
         (case encodeData pb (Message_Payload message) of
            Inl err \<Rightarrow> (s, Some err)
          | Inr body \<Rightarrow>
              if st_sendClosed s then (s, Some (Sentinel ErrStreamClosed))
              else if length (st_outbound s) < st_outboundCap s
              then (s\<lparr>st_outbound := st_outbound s @ [dataItem body]\<rparr>, None)
              else (s, Some (Sentinel ErrSendQueueFull))))"

definition closeSendAfterTerminal :: "stream \<Rightarrow> go_error option" where
  "closeSendAfterTerminal s =
    (if errors_Is (terminal s) ErrStreamClosed then None else st_ctx s)"

text \<open>
  \<^verbatim>\<open>CloseSend\<close>: the first caller marks the direction closed, then waits for room for the
  marker, then for the pump's answer; later callers wait for the first one. Each function is
  one atomic piece; a piece that has to wait leaves the stream as it is.
\<close>

definition CloseSend_begin :: "stream \<Rightarrow> stream" where
  "CloseSend_begin s =
    (if st_sendEnd s = NotCalled then s\<lparr>st_sendClosed := True, st_sendEnd := Enqueueing\<rparr> else s)"

definition CloseSend_enqueue :: "bool \<Rightarrow> stream \<Rightarrow> stream" where
  "CloseSend_enqueue pick s =
    (if st_sendEnd s \<noteq> Enqueueing then s
     else if length (st_outbound s) < st_outboundCap s \<and> (pick \<or> st_ctx s = None)
     then s\<lparr>st_outbound := st_outbound s @ [closeItem], st_sendEnd := Awaiting\<rparr>
     else if st_ctx s \<noteq> None then s\<lparr>st_sendEnd := Done (closeSendAfterTerminal s)\<rparr>
     else s)"

definition CloseSend_await :: "bool \<Rightarrow> stream \<Rightarrow> stream" where
  "CloseSend_await pick s =
    (if st_sendEnd s \<noteq> Awaiting then s
     else case st_written s of
       Some err \<Rightarrow> if pick \<or> st_ctx s = None then s\<lparr>st_sendEnd := Done err\<rparr>
                   else s\<lparr>st_sendEnd := Done (closeSendAfterTerminal s)\<rparr>
     | None \<Rightarrow> if st_ctx s \<noteq> None then s\<lparr>st_sendEnd := Done (closeSendAfterTerminal s)\<rparr> else s)"

definition startPump :: "stream \<Rightarrow> stream" where
  "startPump s = (if st_pumpOnce s then s else s\<lparr>st_pumpOnce := True, st_pumping := True\<rparr>)"

text \<open>
  What the pump does next. An item is taken off the queue; the answer to a barrier or to the
  close marker is put into the channel its sender waits on.
\<close>

datatype pump_action = PumpIdle | PumpStop | PumpBarrier | PumpWrite outboundItem

definition pump_next :: "bool \<Rightarrow> stream \<Rightarrow> stream \<times> pump_action" where
  "pump_next pick s =
    (if \<not> st_pumping s then (s, PumpIdle)
     else if st_ctx s \<noteq> None \<and> \<not> (pick \<and> st_outbound s \<noteq> []) then (s\<lparr>st_pumping := False\<rparr>, PumpStop)
     else case st_outbound s of
       [] \<Rightarrow> (s, PumpIdle)
     | item # rest \<Rightarrow>
         let s1 = s\<lparr>st_outbound := rest\<rparr> in
         if oi_barrier item then (s1\<lparr>st_flushed := Some None\<rparr>, PumpBarrier)
         else (s1, PumpWrite item))"

text \<open>What the pump does with the answer of the write of an item's frame.\<close>

definition pump_wrote :: "outboundItem \<Rightarrow> go_error option \<Rightarrow> stream \<Rightarrow> stream" where
  "pump_wrote item err s =
    (if oi_closeSend item then s\<lparr>st_written := Some err, st_pumping := False\<rparr>
     else if err \<noteq> None then s\<lparr>st_pumping := False\<rparr>
     else s)"

definition flushOutbound_begin :: "stream \<Rightarrow> stream" where
  "flushOutbound_begin s = (if st_flush s = NotCalled then s\<lparr>st_flush := Enqueueing\<rparr> else s)"

definition flushOutbound_enqueue :: "bool \<Rightarrow> stream \<Rightarrow> stream" where
  "flushOutbound_enqueue pick s =
    (if st_flush s \<noteq> Enqueueing then s
     else if length (st_outbound s) < st_outboundCap s \<and> (pick \<or> st_ctx s = None)
     then s\<lparr>st_outbound := st_outbound s @ [barrierItem], st_flush := Awaiting\<rparr>
     else if st_ctx s \<noteq> None then s\<lparr>st_flush := Done (st_ctx s)\<rparr>
     else s)"

definition flushOutbound_await :: "bool \<Rightarrow> stream \<Rightarrow> stream" where
  "flushOutbound_await pick s =
    (if st_flush s \<noteq> Awaiting then s
     else case st_flushed s of
       Some err \<Rightarrow> if pick \<or> st_ctx s = None then s\<lparr>st_flush := Done err\<rparr>
                   else s\<lparr>st_flush := Done (st_ctx s)\<rparr>
     | None \<Rightarrow> if st_ctx s \<noteq> None then s\<lparr>st_flush := Done (st_ctx s)\<rparr> else s)"

datatype deliver_result = Delivered | DeliverError go_error | DeliverParked

definition deliver :: "Limits \<Rightarrow> bool \<Rightarrow> bytes \<Rightarrow> stream \<Rightarrow> stream \<times> deliver_result" where
  "deliver limits pick payload s =
    (if int (length payload) > MaxStreamMessageBytes limits
     then (s, DeliverError (Sentinel ErrMessageTooLarge))
     else if st_inboundClosed s then (s, DeliverError (Sentinel ErrProtocolViolation))
     else if length (st_inbound s) < st_inboundCap s \<and> (pick \<or> st_ctx s = None)
     then (s\<lparr>st_inbound := st_inbound s @ [\<lparr>Message_Payload = payload\<rparr>]\<rparr>, Delivered)
     else case st_ctx s of
       Some err \<Rightarrow> (s, DeliverError err)
     | None \<Rightarrow> (s, DeliverParked))"

section \<open>Invariant\<close>

text \<open>No message is queued behind the close marker, and there is at most one marker.\<close>

fun marker_last :: "outboundItem list \<Rightarrow> bool" where
  "marker_last [] = True"
| "marker_last (x # xs) = ((oi_closeSend x \<longrightarrow> list_all oi_barrier xs) \<and> marker_last xs)"

definition item_ok :: "outboundItem \<Rightarrow> bool" where
  "item_ok x \<longleftrightarrow> \<not> (oi_closeSend x \<and> oi_barrier x)"

definition stream_inv :: "stream \<Rightarrow> bool" where
  "stream_inv s \<longleftrightarrow>
     length (st_inbound s) \<le> st_inboundCap s \<and> length (st_outbound s) \<le> st_outboundCap s
   \<and> st_finishOnce s = (st_finishErr s \<noteq> None)
   \<and> (st_finishOnce s \<longrightarrow> st_ctx s \<noteq> None \<and> st_inboundClosed s)
   \<and> (st_inboundEOF s \<longrightarrow> st_inboundClosed s)
   \<and> st_sendClosed s = (st_sendEnd s \<noteq> NotCalled)
   \<and> (st_sendEnd s \<in> {NotCalled, Enqueueing} \<longrightarrow> list_all (\<lambda>x. \<not> oi_closeSend x) (st_outbound s) \<and> st_written s = None)
   \<and> list_all item_ok (st_outbound s)
   \<and> marker_last (st_outbound s)
   \<and> (st_pumping s \<longrightarrow> st_pumpOnce s \<and> st_written s = None)"

lemma marker_last_append:
  "marker_last (xs @ ys) \<longleftrightarrow> marker_last xs \<and> marker_last ys \<and> (list_ex oi_closeSend xs \<longrightarrow> list_all oi_barrier ys)"
  by (induction xs) auto

lemma marker_last_none: "list_all (\<lambda>x. \<not> oi_closeSend x) xs \<Longrightarrow> marker_last xs"
  by (induction xs) auto

lemma list_ex_not: "list_ex P xs = (\<not> list_all (\<lambda>x. \<not> P x) xs)"
  by (induction xs) auto

lemma newStreamWithin_inv [wf_intros]: "stream_inv (newStreamWithin limits sid m fs parent)"
  by (simp add: stream_inv_def newStreamWithin_def)

lemma stream_cancel_inv [wf_intros]: "stream_inv s \<Longrightarrow> stream_inv (stream_cancel e s)"
  by (simp add: stream_inv_def stream_cancel_def)

lemma closeInboundHalf_inv [wf_intros]: "stream_inv s \<Longrightarrow> stream_inv (closeInboundHalf s)"
  by (simp add: stream_inv_def closeInboundHalf_def)

lemma finishStream_inv [wf_intros]: "stream_inv s \<Longrightarrow> stream_inv (finishStream e s)"
  by (simp add: stream_inv_def finishStream_def closeInboundFinal_def stream_cancel_def Let_def)

lemma Recv_inv [wf_intros]: "stream_inv s \<Longrightarrow> stream_inv (fst (Recv u s))"
  by (cases "st_inbound s")
    (auto simp: Recv_def settleCancelled_def Let_def finishStream_inv stream_inv_def[of "s\<lparr>st_inbound := _\<rparr>"]
       stream_inv_def[of s] split: option.splits)

lemma Send_inv [wf_intros]: "stream_inv s \<Longrightarrow> stream_inv (fst (Send pb limits m s))"
  by (auto simp: Send_def split: option.splits sum.splits)
    (auto simp: stream_inv_def marker_last_append item_ok_def list_ex_not)

lemma CloseSend_begin_inv [wf_intros]: "stream_inv s \<Longrightarrow> stream_inv (CloseSend_begin s)"
  by (simp add: stream_inv_def CloseSend_begin_def)

lemma CloseSend_enqueue_inv [wf_intros]: "stream_inv s \<Longrightarrow> stream_inv (CloseSend_enqueue pick s)"
  by (auto simp: stream_inv_def CloseSend_enqueue_def marker_last_append item_ok_def list_ex_not)

lemma CloseSend_await_inv [wf_intros]: "stream_inv s \<Longrightarrow> stream_inv (CloseSend_await pick s)"
  by (auto simp: stream_inv_def CloseSend_await_def split: option.splits)

lemma startPump_inv [wf_intros]: "stream_inv s \<Longrightarrow> st_written s = None \<Longrightarrow> stream_inv (startPump s)"
  by (simp add: stream_inv_def startPump_def)

lemma pump_next_inv [wf_intros]: "stream_inv s \<Longrightarrow> stream_inv (fst (pump_next pick s))"
  by (cases "st_outbound s") (auto simp: stream_inv_def pump_next_def Let_def)

lemma flush_inv [wf_intros]:
  "stream_inv s \<Longrightarrow> stream_inv (flushOutbound_begin s)"
  "stream_inv s \<Longrightarrow> stream_inv (flushOutbound_enqueue pick s)"
  "stream_inv s \<Longrightarrow> stream_inv (flushOutbound_await pick s)"
  by (auto simp: stream_inv_def flushOutbound_begin_def flushOutbound_enqueue_def flushOutbound_await_def
      marker_last_append item_ok_def split: option.splits)

lemma deliver_inv [wf_intros]: "stream_inv s \<Longrightarrow> stream_inv (fst (deliver limits pick p s))"
  by (auto simp: deliver_def stream_inv_def split: option.splits)

lemma pump_wrote_inv [wf_intros]:
  "stream_inv s \<Longrightarrow> (oi_closeSend item \<longrightarrow> st_sendEnd s \<notin> {NotCalled, Enqueueing}) \<Longrightarrow> stream_inv (pump_wrote item err s)"
  by (auto simp: stream_inv_def pump_wrote_def)

lemma pump_next_write:
  assumes "pump_next pick s = (s', PumpWrite item)" and "stream_inv s"
  obtains rest where "st_outbound s = item # rest" "s' = s\<lparr>st_outbound := rest\<rparr>" "\<not> oi_barrier item" "st_pumping s"
    "oi_closeSend item \<longrightarrow> st_sendEnd s \<notin> {NotCalled, Enqueueing}"
  using assms
  by (cases "st_outbound s") (auto simp: pump_next_def stream_inv_def Let_def split: if_splits)

section \<open>The two queues as bounded channels\<close>

text \<open>
  The contract of a bounded channel: an offer is appended or refused, a take removes the
  oldest element, and the capacity is never exceeded. An offered value is stored encoded.
\<close>

locale fifo_channel =
  fixes offer :: "'x \<Rightarrow> 'q \<Rightarrow> 'q \<times> bool"
    and grab :: "'q \<Rightarrow> 'q \<times> 'y option"
    and items :: "'q \<Rightarrow> 'y list"
    and cap :: "'q \<Rightarrow> nat"
    and enc :: "'x \<Rightarrow> 'y"
  assumes offer_ok: "offer x q = (q', True) \<Longrightarrow> items q' = items q @ [enc x] \<and> length (items q) < cap q \<and> cap q' = cap q"
    and offer_no: "offer x q = (q', False) \<Longrightarrow> items q' = items q \<and> cap q' = cap q"
    and grab_some: "grab q = (q', Some y) \<Longrightarrow> items q = y # items q' \<and> cap q' = cap q"
    and grab_none: "grab q = (q', None) \<Longrightarrow> items q' = items q \<and> cap q' = cap q"
begin

lemma offer_bounded: "length (items q) \<le> cap q \<Longrightarrow> length (items (fst (offer x q))) \<le> cap (fst (offer x q))"
  using offer_ok[of x q] offer_no[of x q] by (cases "offer x q"; cases "snd (offer x q)") auto

lemma grab_bounded: "length (items q) \<le> cap q \<Longrightarrow> length (items (fst (grab q))) \<le> cap (fst (grab q))"
  using grab_some[of q] grab_none[of q] by (cases "grab q"; cases "snd (grab q)") auto

text \<open>The values in transit, under one more offer or take.\<close>

lemma offer_history: "offer x q = (q', b) \<Longrightarrow> put = got @ items q \<Longrightarrow>
   (if b then put @ [enc x] else put) = got @ items q'"
  using offer_ok[of x q q'] offer_no[of x q q'] by (cases b) auto

lemma grab_history: "grab q = (q', r) \<Longrightarrow> put = got @ items q \<Longrightarrow>
   put = (case r of None \<Rightarrow> got | Some y \<Rightarrow> got @ [y]) @ items q'"
  using grab_some[of q q'] grab_none[of q q'] by (cases r) auto

end

definition inbound_offer :: "Limits \<Rightarrow> bool \<Rightarrow> bytes \<Rightarrow> stream \<Rightarrow> stream \<times> bool" where
  "inbound_offer limits pick p s = (case deliver limits pick p s of (s', r) \<Rightarrow> (s', r = Delivered))"

definition inbound_grab :: "go_error option \<Rightarrow> stream \<Rightarrow> stream \<times> Message option" where
  "inbound_grab usable s = (case Recv usable s of
     (s', RecvMessage m) \<Rightarrow> (s', Some m) | (s', _) \<Rightarrow> (s', None))"

definition outbound_offer :: "proto \<Rightarrow> Limits \<Rightarrow> Message \<Rightarrow> stream \<Rightarrow> stream \<times> bool" where
  "outbound_offer pb limits m s = (case Send pb limits m s of (s', e) \<Rightarrow> (s', e = None))"

definition outbound_grab :: "bool \<Rightarrow> stream \<Rightarrow> stream \<times> outboundItem option" where
  "outbound_grab pick s = (case pump_next pick s of
     (s', PumpWrite item) \<Rightarrow> (s', Some item)
   | (s', PumpBarrier) \<Rightarrow> (s', Some (hd (st_outbound s)))
   | (s', _) \<Rightarrow> (s', None))"

definition sent_item :: "proto \<Rightarrow> Message \<Rightarrow> outboundItem" where
  "sent_item pb m = dataItem (case encodeData pb (Message_Payload m) of Inl _ \<Rightarrow> [] | Inr b \<Rightarrow> b)"

lemma finishStream_queues [simp]:
  "st_inbound (finishStream e s) = st_inbound s" "st_inboundCap (finishStream e s) = st_inboundCap s"
  "st_outbound (finishStream e s) = st_outbound s" "st_outboundCap (finishStream e s) = st_outboundCap s"
  "st_inboundEOF (finishStream e s) = st_inboundEOF s"
  "st_sendEnd (finishStream e s) = st_sendEnd s" "st_sendClosed (finishStream e s) = st_sendClosed s"
  "st_written (finishStream e s) = st_written s" "st_pumping (finishStream e s) = st_pumping s"
  "st_id (finishStream e s) = st_id s" "st_method (finishStream e s) = st_method s"
  by (simp_all add: finishStream_def closeInboundFinal_def stream_cancel_def Let_def)

interpretation inbound_queue: fifo_channel "inbound_offer limits pick" "inbound_grab usable" st_inbound st_inboundCap
    "\<lambda>p. \<lparr>Message_Payload = p\<rparr>" for limits pick usable
  by unfold_locales
    (auto simp: inbound_offer_def inbound_grab_def deliver_def Recv_def received_def settleCancelled_def Let_def
      split: option.splits if_splits list.splits recv_result.splits prod.splits)

interpretation outbound_queue: fifo_channel "outbound_offer pb limits" "outbound_grab pick" st_outbound st_outboundCap
    "sent_item pb" for pb limits pick
  by unfold_locales
    (auto simp: outbound_offer_def outbound_grab_def Send_def pump_next_def sent_item_def Let_def
      split: option.splits if_splits list.splits pump_action.splits prod.splits sum.splits)

section \<open>Runs of a stream\<close>

text \<open>
  Every interleaving of the operations of the consumer (\<^verbatim>\<open>Recv\<close>, \<^verbatim>\<open>Send\<close>, the pieces of
  \<^verbatim>\<open>CloseSend\<close>), of the read loop (\<^verbatim>\<open>deliver\<close>, half close, end), of the pump and of the
  contexts, with the history of what went in and out of the two queues. The answer of a
  write is arbitrary.
\<close>

record history =
  h_delivered :: "bytes list"
  h_received :: "Message list"
  h_sent :: "Message list"
  h_pumped :: "outboundItem list"

abbreviation no_history :: history where
  "no_history \<equiv> \<lparr>h_delivered = [], h_received = [], h_sent = [], h_pumped = []\<rparr>"

inductive stream_run :: "proto \<Rightarrow> Limits \<Rightarrow> stream \<Rightarrow> history \<Rightarrow> bool" for pb limits where
  run_new: "stream_run pb limits (startPump (newStreamWithin limits sid m fs parent)) no_history"
| run_deliver: "stream_run pb limits s h \<Longrightarrow> deliver limits pick p s = (s', r) \<Longrightarrow>
    stream_run pb limits s' (if r = Delivered then h\<lparr>h_delivered := h_delivered h @ [p]\<rparr> else h)"
| run_recv: "stream_run pb limits s h \<Longrightarrow> Recv usable s = (s', r) \<Longrightarrow>
    stream_run pb limits s' (case r of RecvMessage m \<Rightarrow> h\<lparr>h_received := h_received h @ [m]\<rparr> | _ \<Rightarrow> h)"
| run_send: "stream_run pb limits s h \<Longrightarrow> Send pb limits m s = (s', e) \<Longrightarrow>
    stream_run pb limits s' (if e = None then h\<lparr>h_sent := h_sent h @ [m]\<rparr> else h)"
| run_pump: "stream_run pb limits s h \<Longrightarrow> pump_next pick s = (s', PumpWrite item) \<Longrightarrow>
    stream_run pb limits (pump_wrote item err s') (h\<lparr>h_pumped := h_pumped h @ [item]\<rparr>)"
| run_pump_other: "stream_run pb limits s h \<Longrightarrow> pump_next pick s = (s', a) \<Longrightarrow> a \<in> {PumpIdle, PumpStop, PumpBarrier} \<Longrightarrow>
    stream_run pb limits s' h"
| run_close: "stream_run pb limits s h \<Longrightarrow>
    s' \<in> {CloseSend_begin s, CloseSend_enqueue pick s, CloseSend_await pick s} \<Longrightarrow> stream_run pb limits s' h"
| run_flush: "stream_run pb limits s h \<Longrightarrow>
    s' \<in> {flushOutbound_begin s, flushOutbound_enqueue pick s, flushOutbound_await pick s} \<Longrightarrow> stream_run pb limits s' h"
| run_half: "stream_run pb limits s h \<Longrightarrow> stream_run pb limits (closeInboundHalf s) h"
| run_finish: "stream_run pb limits s h \<Longrightarrow> stream_run pb limits (finishStream err s) h"
| run_cancel: "stream_run pb limits s h \<Longrightarrow> stream_run pb limits (stream_cancel e s) h"

text \<open>What the history says: nothing is lost, duplicated or reordered in either queue.\<close>

definition visible :: "outboundItem list \<Rightarrow> outboundItem list" where
  "visible xs = filter (\<lambda>x. \<not> oi_barrier x) xs"

definition history_ok :: "proto \<Rightarrow> Message list \<Rightarrow> outboundItem list \<Rightarrow> bool \<Rightarrow> history \<Rightarrow> bool" where
  "history_ok pb inb outb marked h \<longleftrightarrow>
     map (\<lambda>p. \<lparr>Message_Payload = p\<rparr>) (h_delivered h) = h_received h @ inb
   \<and> map (sent_item pb) (h_sent h) = filter (\<lambda>x. \<not> oi_closeSend x) (h_pumped h @ visible outb)
   \<and> list_all (\<lambda>x. \<not> oi_barrier x) (h_pumped h)
   \<and> marker_last (h_pumped h @ outb)
   \<and> (list_ex oi_closeSend (h_pumped h) \<longrightarrow> marked)"

definition marked :: "stream \<Rightarrow> bool" where
  "marked s \<longleftrightarrow> st_sendClosed s \<and> st_sendEnd s \<noteq> Enqueueing"

definition history_inv :: "proto \<Rightarrow> stream \<Rightarrow> history \<Rightarrow> bool" where
  "history_inv pb s h = history_ok pb (st_inbound s) (st_outbound s) (marked s) h"

lemma visible_simps [simp]:
  "visible [] = []" "visible (x # xs) = (if oi_barrier x then visible xs else x # visible xs)"
  "visible (xs @ ys) = visible xs @ visible ys"
  by (simp_all add: visible_def)

text \<open>One queue operation at a time, on the values.\<close>

lemma hist_mono: "history_ok pb i u b h \<Longrightarrow> (b \<longrightarrow> b') \<Longrightarrow> history_ok pb i u b' h"
  by (auto simp: history_ok_def)

lemma hist_deliver: "history_ok pb i u b h \<Longrightarrow>
    history_ok pb (i @ [\<lparr>Message_Payload = p\<rparr>]) u b (h\<lparr>h_delivered := h_delivered h @ [p]\<rparr>)"
  by (simp add: history_ok_def)

lemma hist_recv: "history_ok pb (m # i) u b h \<Longrightarrow> history_ok pb i u b (h\<lparr>h_received := h_received h @ [m]\<rparr>)"
  by (simp add: history_ok_def)

lemma hist_append:
  assumes "history_ok pb i u b h" "list_all (\<lambda>x. \<not> oi_closeSend x) u" "list_all (\<lambda>x. \<not> oi_closeSend x) (h_pumped h)"
  shows "history_ok pb i (u @ [closeItem]) b h"
    and "sent_item pb m = dataItem c \<Longrightarrow> history_ok pb i (u @ [dataItem c]) b (h\<lparr>h_sent := h_sent h @ [m]\<rparr>)"
  using assms by (simp_all add: history_ok_def marker_last_append list_ex_not)

lemma hist_barrier: "history_ok pb i u b h \<Longrightarrow> history_ok pb i (u @ [barrierItem]) b h"
  by (simp add: history_ok_def marker_last_append)

lemma hist_unbarrier: "history_ok pb i (x # u) b h \<Longrightarrow> oi_barrier x \<Longrightarrow> history_ok pb i u b h"
  by (simp add: history_ok_def marker_last_append)

lemma hist_pump: "history_ok pb i (x # u) b h \<Longrightarrow> \<not> oi_barrier x \<Longrightarrow> (oi_closeSend x \<longrightarrow> b) \<Longrightarrow>
    history_ok pb i u b (h\<lparr>h_pumped := h_pumped h @ [x]\<rparr>)"
  by (auto simp: history_ok_def)

lemma history_cong:
  "history_inv pb s h \<Longrightarrow> st_inbound s' = st_inbound s \<Longrightarrow> st_outbound s' = st_outbound s \<Longrightarrow>
   (marked s \<longrightarrow> marked s') \<Longrightarrow> history_inv pb s' h"
  unfolding history_inv_def by (simp add: hist_mono)

lemma unmarked_pumped: "history_inv pb s h \<Longrightarrow> \<not> marked s \<Longrightarrow> list_all (\<lambda>x. \<not> oi_closeSend x) (h_pumped h)"
  by (simp add: history_inv_def history_ok_def list_ex_not)

text \<open>The operations.\<close>

lemma history_new: "history_inv pb (startPump (newStreamWithin limits sid m fs parent)) no_history"
  by (simp add: history_inv_def history_ok_def newStreamWithin_def startPump_def)

lemma history_deliver:
  assumes "history_inv pb s h" "deliver limits pick p s = (s', r)"
  shows "history_inv pb s' (if r = Delivered then h\<lparr>h_delivered := h_delivered h @ [p]\<rparr> else h)"
proof (cases "r = Delivered")
  case True
  then have "s' = s\<lparr>st_inbound := st_inbound s @ [\<lparr>Message_Payload = p\<rparr>]\<rparr>"
    using assms(2) by (simp add: deliver_def split: if_splits option.splits)
  then show ?thesis using assms(1) True by (simp add: history_inv_def hist_deliver marked_def)
next
  case False
  then have "s' = s" using assms(2) by (simp add: deliver_def split: if_splits option.splits)
  then show ?thesis using assms(1) False by simp
qed

lemma marked_finish [simp]: "marked (finishStream e s) = marked s"
  by (simp add: marked_def)

lemma history_recv:
  assumes "history_inv pb s h" "Recv usable s = (s', r)"
  shows "history_inv pb s' (case r of RecvMessage m \<Rightarrow> h\<lparr>h_received := h_received h @ [m]\<rparr> | _ \<Rightarrow> h)"
proof (cases "st_inbound s")
  case (Cons m rest)
  then have "s' = s\<lparr>st_inbound := rest\<rparr>" "r = RecvMessage m"
    using assms(2) by (simp_all add: Recv_def received_def)
  then show ?thesis using assms(1) Cons by (simp add: history_inv_def hist_recv marked_def)
next
  case Nil
  then have "history_inv pb s' h"
    using assms(2) by (intro history_cong[OF assms(1)])
      (auto simp: Recv_def settleCancelled_def Let_def split: if_splits option.splits)
  moreover have "\<nexists>m. r = RecvMessage m"
    using Nil assms(2) by (auto simp: Recv_def settleCancelled_def received_def split: if_splits prod.splits)
  ultimately show ?thesis by (cases r) auto
qed

lemma history_send:
  assumes "history_inv pb s h" "stream_inv s" "Send pb limits m s = (s', e)"
  shows "history_inv pb s' (if e = None then h\<lparr>h_sent := h_sent h @ [m]\<rparr> else h)"
proof (cases "e = None")
  case True
  then obtain b where s': "s' = s\<lparr>st_outbound := st_outbound s @ [dataItem b]\<rparr>" and b: "sent_item pb m = dataItem b"
    and nc: "\<not> st_sendClosed s"
    using assms(3) by (auto simp: Send_def sent_item_def split: if_splits option.splits sum.splits)
  have "list_all (\<lambda>x. \<not> oi_closeSend x) (st_outbound s)" using assms(2) nc by (simp add: stream_inv_def)
  moreover have "list_all (\<lambda>x. \<not> oi_closeSend x) (h_pumped h)"
    using nc by (intro unmarked_pumped[OF assms(1)]) (simp add: marked_def)
  ultimately show ?thesis using assms(1) True b by (simp add: history_inv_def s' hist_append marked_def)
next
  case False
  then have "s' = s" using assms(3) by (auto simp: Send_def split: if_splits option.splits sum.splits)
  then show ?thesis using assms(1) False by (simp only: if_False)
qed

lemma history_pump:
  assumes "history_inv pb s h" "stream_inv s" "pump_next pick s = (s', PumpWrite item)"
  shows "history_inv pb (pump_wrote item err s') (h\<lparr>h_pumped := h_pumped h @ [item]\<rparr>)"
proof -
  obtain rest where r: "st_outbound s = item # rest" "s' = s\<lparr>st_outbound := rest\<rparr>" "\<not> oi_barrier item"
    "oi_closeSend item \<longrightarrow> st_sendEnd s \<notin> {NotCalled, Enqueueing}"
    using pump_next_write[OF assms(3,2)] by metis
  have c: "oi_closeSend item \<longrightarrow> marked s"
    using r(4) assms(2) by (simp add: stream_inv_def marked_def)
  have f: "st_inbound (pump_wrote item err s') = st_inbound s" "st_outbound (pump_wrote item err s') = rest"
      "marked (pump_wrote item err s') = marked s"
    by (simp_all add: pump_wrote_def r(2) marked_def)
  show ?thesis using assms(1) hist_pump[OF _ r(3) c] by (simp add: history_inv_def f r(1))
qed

lemma history_pump_other:
  assumes "history_inv pb s h" "pump_next pick s = (s', a)" "a \<in> {PumpIdle, PumpStop, PumpBarrier}"
  shows "history_inv pb s' h"
proof (cases "st_outbound s' = st_outbound s")
  case True
  then show ?thesis using assms(2)
    by (intro history_cong[OF assms(1)])
      (auto simp: pump_next_def Let_def marked_def split: if_splits list.splits)
next
  case False
  then obtain x where "st_outbound s = x # st_outbound s'" "oi_barrier x" "st_inbound s' = st_inbound s" "marked s' = marked s"
    using assms(2,3) by (auto simp: pump_next_def Let_def marked_def split: if_splits list.splits)
  then show ?thesis using assms(1) by (simp add: history_inv_def hist_unbarrier)
qed

lemma CloseSend_enqueue_cases:
  obtains "CloseSend_enqueue pick s = s"
  | r where "CloseSend_enqueue pick s = s\<lparr>st_sendEnd := Done r\<rparr>" "st_sendEnd s = Enqueueing"
  | "CloseSend_enqueue pick s = s\<lparr>st_outbound := st_outbound s @ [closeItem], st_sendEnd := Awaiting\<rparr>"
    "st_sendEnd s = Enqueueing"
  unfolding CloseSend_enqueue_def by (metis (full_types))

lemma history_enqueue:
  assumes "history_inv pb s h" "stream_inv s"
  shows "history_inv pb (CloseSend_enqueue pick s) h"
proof (cases rule: CloseSend_enqueue_cases[of pick s])
  case 1
  then show ?thesis using assms(1) by simp
next
  case (2 r)
  show ?thesis unfolding 2(1) by (rule history_cong[OF assms(1)]) (simp_all add: marked_def)
next
  case 3
  have "list_all (\<lambda>x. \<not> oi_closeSend x) (st_outbound s)" using assms(2) 3(2) by (simp add: stream_inv_def)
  moreover have "list_all (\<lambda>x. \<not> oi_closeSend x) (h_pumped h)"
    using 3(2) by (intro unmarked_pumped[OF assms(1)]) (simp add: marked_def)
  ultimately have "history_ok pb (st_inbound s) (st_outbound s @ [closeItem]) (marked s) h"
    using assms(1) by (simp add: history_inv_def hist_append)
  from hist_mono[OF this] show ?thesis unfolding history_inv_def 3(1) by (simp add: marked_def)
qed

lemma history_close:
  assumes "history_inv pb s h" "stream_inv s" "s' \<in> {CloseSend_begin s, CloseSend_enqueue pick s, CloseSend_await pick s}"
  shows "history_inv pb s' h"
proof -
  have "history_inv pb (CloseSend_begin s) h"
    by (rule history_cong[OF assms(1)]) (use assms(2) in \<open>simp_all add: CloseSend_begin_def stream_inv_def marked_def\<close>)
  moreover have "history_inv pb (CloseSend_await pick s) h"
    by (rule history_cong[OF assms(1)]) (simp_all add: CloseSend_await_def marked_def split: option.splits)
  ultimately show ?thesis using assms history_enqueue by auto
qed

lemma history_flush:
  assumes "history_inv pb s h" "s' \<in> {flushOutbound_begin s, flushOutbound_enqueue pick s, flushOutbound_await pick s}"
  shows "history_inv pb s' h"
proof -
  have "history_inv pb (flushOutbound_begin s) h"
    by (rule history_cong[OF assms(1)]) (simp_all add: flushOutbound_begin_def marked_def)
  moreover have "history_inv pb (flushOutbound_await pick s) h"
    by (rule history_cong[OF assms(1)]) (simp_all add: flushOutbound_await_def marked_def split: option.splits)
  moreover have "history_inv pb (flushOutbound_enqueue pick s) h"
    using assms(1) by (simp add: history_inv_def flushOutbound_enqueue_def marked_def hist_barrier)
  ultimately show ?thesis using assms(2) by auto
qed

lemma history_other:
  "history_inv pb s h \<Longrightarrow> history_inv pb (closeInboundHalf s) h"
  "history_inv pb s h \<Longrightarrow> history_inv pb (finishStream err s) h"
  "history_inv pb s h \<Longrightarrow> history_inv pb (stream_cancel e s) h"
  by (simp_all add: history_inv_def closeInboundHalf_def stream_cancel_def marked_def)

lemma stream_run_inv: "stream_run pb limits s h \<Longrightarrow> stream_inv s"
proof (induction rule: stream_run.induct)
  case (run_new sid m fs parent)
  show ?case by (intro startPump_inv newStreamWithin_inv) (simp add: newStreamWithin_def)
next
  case (run_pump s h pick s' item err)
  obtain rest where "s' = s\<lparr>st_outbound := rest\<rparr>" "oi_closeSend item \<longrightarrow> st_sendEnd s \<notin> {NotCalled, Enqueueing}"
    using pump_next_write[OF run_pump(2,3)] by metis
  then show ?case using pump_next_inv[OF run_pump(3), of pick] run_pump(2)
    by (intro pump_wrote_inv) simp_all
next
  case (run_deliver s h pick p s' r)
  then show ?case using deliver_inv[of s limits pick p] by simp
next
  case (run_recv s h usable s' r)
  then show ?case using Recv_inv[of s usable] by simp
next
  case (run_send s h m s' e)
  then show ?case using Send_inv[of s pb limits m] by simp
next
  case (run_pump_other s h pick s' a)
  then show ?case using pump_next_inv[of s pick] by simp
qed (auto intro: wf_intros)

lemma stream_run_history: "stream_run pb limits s h \<Longrightarrow> history_inv pb s h"
proof (induction rule: stream_run.induct)
  case (run_send s h m s' e)
  then show ?case using history_send stream_run_inv by blast
next
  case (run_pump s h pick s' item err)
  then show ?case using history_pump stream_run_inv by blast
next
  case (run_close s h s' pick)
  then show ?case using history_close stream_run_inv by blast
next
  case (run_deliver s h pick p s' r)
  then show ?case using history_deliver by blast
qed (auto intro: history_new history_recv history_pump_other history_flush history_other)

lemma finishStream_unfinished:
  "\<not> st_finishOnce s \<Longrightarrow> st_finishErr (finishStream e s) = Some (case e of None \<Rightarrow> Sentinel ErrStreamClosed | Some x \<Rightarrow> x)
   \<and> st_finishOnce (finishStream e s) \<and> st_inboundClosed (finishStream e s) \<and> st_ctx (finishStream e s) \<noteq> None"
  by (simp add: finishStream_def closeInboundFinal_def stream_cancel_def Let_def)

lemma finishStream_done [simp]: "st_finishOnce (finishStream e s)"
  by (simp add: finishStream_def closeInboundFinal_def stream_cancel_def Let_def)

lemma finishStream_noop: "st_finishOnce s \<Longrightarrow> finishStream e s = s"
  by (simp add: finishStream_def)

lemma stream_caps [simp]:
  "st_inboundCap (fst (Recv u s)) = st_inboundCap s" "st_outboundCap (fst (Recv u s)) = st_outboundCap s"
  "st_inboundCap (fst (deliver l p b s)) = st_inboundCap s" "st_outboundCap (fst (deliver l p b s)) = st_outboundCap s"
  "st_inboundCap (fst (Send pb l m s)) = st_inboundCap s" "st_outboundCap (fst (Send pb l m s)) = st_outboundCap s"
  "st_inboundCap (fst (pump_next p s)) = st_inboundCap s" "st_outboundCap (fst (pump_next p s)) = st_outboundCap s"
  "st_inboundCap (pump_wrote i e s) = st_inboundCap s" "st_outboundCap (pump_wrote i e s) = st_outboundCap s"
  "st_inboundCap (CloseSend_begin s) = st_inboundCap s" "st_outboundCap (CloseSend_begin s) = st_outboundCap s"
  "st_inboundCap (CloseSend_enqueue p s) = st_inboundCap s" "st_outboundCap (CloseSend_enqueue p s) = st_outboundCap s"
  "st_inboundCap (CloseSend_await p s) = st_inboundCap s" "st_outboundCap (CloseSend_await p s) = st_outboundCap s"
  "st_inboundCap (flushOutbound_begin s) = st_inboundCap s" "st_outboundCap (flushOutbound_begin s) = st_outboundCap s"
  "st_inboundCap (flushOutbound_enqueue p s) = st_inboundCap s" "st_outboundCap (flushOutbound_enqueue p s) = st_outboundCap s"
  "st_inboundCap (flushOutbound_await p s) = st_inboundCap s" "st_outboundCap (flushOutbound_await p s) = st_outboundCap s"
  "st_inboundCap (closeInboundHalf s) = st_inboundCap s" "st_outboundCap (closeInboundHalf s) = st_outboundCap s"
  "st_inboundCap (stream_cancel x s) = st_inboundCap s" "st_outboundCap (stream_cancel x s) = st_outboundCap s"
  "st_inboundCap (startPump s) = st_inboundCap s" "st_outboundCap (startPump s) = st_outboundCap s"
  by (simp_all add: Recv_def settleCancelled_def deliver_def Send_def pump_next_def pump_wrote_def CloseSend_begin_def
      CloseSend_enqueue_def CloseSend_await_def flushOutbound_begin_def flushOutbound_enqueue_def flushOutbound_await_def
      closeInboundHalf_def stream_cancel_def startPump_def Let_def split: option.splits list.splits sum.splits)

lemma stream_run_caps:
  "stream_run pb limits s h \<Longrightarrow> st_inboundCap s = nat (MaxStreamQueueDepth limits) \<and> st_outboundCap s = nat (MaxStreamQueueDepth limits)"
proof (induction rule: stream_run.induct)
  case (run_deliver s h pick p s' r)
  then show ?case using stream_caps(3,4)[of limits pick p s] by simp
next
  case (run_recv s h usable s' r)
  then show ?case using stream_caps(1,2)[of usable s] by simp
next
  case (run_send s h m s' e)
  then show ?case using stream_caps(5,6)[of pb limits m s] by simp
next
  case (run_pump s h pick s' item err)
  then show ?case using stream_caps(7,8)[of pick s] by simp
next
  case (run_pump_other s h pick s' a)
  then show ?case using stream_caps(7,8)[of pick s] by simp
qed (auto simp: newStreamWithin_def)

section \<open>Properties\<close>

text \<open>
  C31. Under every interleaving of a stream's operations both directions are first-in
  first-out queues within the configured depth: what the consumer received, followed by what
  is queued, is exactly what the read loop delivered; what the pump took, followed by what is
  queued, is exactly the messages whose Send succeeded, in order; and once the pump has taken
  the close marker it takes nothing after it.
\<close>

theorem stream_fifo:
  assumes "stream_run pb limits s h"
  shows "h_delivered h = map Message_Payload (h_received h @ st_inbound s)
    \<and> int (length (st_inbound s)) \<le> max 0 (MaxStreamQueueDepth limits)
    \<and> map (sent_item pb) (h_sent h)
        = filter (\<lambda>x. \<not> oi_closeSend x) (h_pumped h @ filter (\<lambda>x. \<not> oi_barrier x) (st_outbound s))
    \<and> int (length (st_outbound s)) \<le> max 0 (MaxStreamQueueDepth limits)
    \<and> (h_pumped h = xs @ c # ys \<and> oi_closeSend c \<longrightarrow> ys = [])"
proof -
  have i: "stream_inv s" and c: "st_inboundCap s = nat (MaxStreamQueueDepth limits)" "st_outboundCap s = nat (MaxStreamQueueDepth limits)"
    using stream_run_inv[OF assms] stream_run_caps[OF assms] by auto
  have h: "history_ok pb (st_inbound s) (st_outbound s) (marked s) h"
    using stream_run_history[OF assms] by (simp add: history_inv_def)
  have "map Message_Payload (map (\<lambda>p. \<lparr>Message_Payload = p\<rparr>) (h_delivered h)) = map Message_Payload (h_received h @ st_inbound s)"
    using h by (simp only: history_ok_def)
  then have "h_delivered h = map Message_Payload (h_received h @ st_inbound s)" by (simp add: comp_def)
  moreover have "int (length (st_inbound s)) \<le> max 0 (MaxStreamQueueDepth limits)"
      "int (length (st_outbound s)) \<le> max 0 (MaxStreamQueueDepth limits)"
    using i c by (auto simp: stream_inv_def)
  moreover have "h_pumped h = xs @ c # ys \<and> oi_closeSend c \<longrightarrow> ys = []"
    using h by (cases ys) (auto simp: history_ok_def marker_last_append)
  ultimately show ?thesis using h by (simp add: history_ok_def visible_def)
qed

definition open_stream :: stream where
  "open_stream = startPump (newStreamWithin DefaultLimits 1 ''chat'' True None)"

theorem stream_fifo_witness:
  "h_delivered \<lparr>h_delivered = [[7]], h_received = [], h_sent = [], h_pumped = []\<rparr>
    = map Message_Payload ([] @ st_inbound (fst (deliver DefaultLimits True [7] open_stream)))"
proof -
  have d: "deliver DefaultLimits True [7] open_stream
      = (open_stream\<lparr>st_inbound := [\<lparr>Message_Payload = [7]\<rparr>]\<rparr>, Delivered)"
    by (simp add: deliver_def open_stream_def startPump_def newStreamWithin_def DefaultLimits_def)
  have r: "stream_run sample_proto DefaultLimits open_stream no_history"
    unfolding open_stream_def by (rule run_new)
  show ?thesis using stream_fifo[OF run_deliver[OF r d]] by (simp add: d)
qed



text \<open>
  C33. Ending a stream is final and wakes everybody: the first cause is the one recorded, the
  context is done, and from then on no operation on the stream can block, whatever branch a
  select takes. Recv returns, a delivery is refused, Send fails, and CloseSend and the flush
  before a terminal frame complete.
\<close>

theorem finishStream_final:
  assumes "stream_inv s"
  shows "finishStream err' (finishStream err s) = finishStream err s
    \<and> terminal (finishStream err s) =
        (if st_finishOnce s then terminal s else case err of None \<Rightarrow> Sentinel ErrStreamClosed | Some x \<Rightarrow> x)
    \<and> st_ctx (finishStream err s) \<noteq> None
    \<and> snd (Recv usable (finishStream err s)) \<noteq> RecvParked
    \<and> (\<exists>e. snd (deliver limits pick p (finishStream err s)) = DeliverError e)
    \<and> snd (Send pb limits m (finishStream err s)) \<noteq> None
    \<and> (\<exists>r. st_sendEnd (CloseSend_await pick2 (CloseSend_enqueue pick1 (CloseSend_begin (finishStream err s)))) = Done r)
    \<and> (\<exists>r. st_flush (flushOutbound_await pick2 (flushOutbound_enqueue pick1 (flushOutbound_begin (finishStream err s)))) = Done r)"
proof -
  let ?s = "finishStream err s"
  have i: "stream_inv ?s" by (rule finishStream_inv[OF assms])
  then obtain x where x: "st_ctx ?s = Some x" and cl: "st_inboundClosed ?s" by (auto simp: stream_inv_def)
  have t: "terminal ?s = (if st_finishOnce s then terminal s else case err of None \<Rightarrow> Sentinel ErrStreamClosed | Some x \<Rightarrow> x)"
    using finishStream_unfinished[of s err] by (auto simp: terminal_def finishStream_noop)
  have c: "\<exists>r. st_sendEnd (CloseSend_await pick2 (CloseSend_enqueue pick1 (CloseSend_begin u))) = Done r"
    if "st_ctx u = Some x" for u
    using that by (cases "st_sendEnd u") (simp_all add: CloseSend_begin_def CloseSend_enqueue_def CloseSend_await_def split: option.splits)
  have f: "\<exists>r. st_flush (flushOutbound_await pick2 (flushOutbound_enqueue pick1 (flushOutbound_begin u))) = Done r"
    if "st_ctx u = Some x" for u
    using that by (cases "st_flush u") (simp_all add: flushOutbound_begin_def flushOutbound_enqueue_def flushOutbound_await_def split: option.splits)
  have "snd (Recv usable ?s) \<noteq> RecvParked"
    using cl by (simp add: Recv_def received_def split: list.splits)
  moreover have "\<exists>e. snd (deliver limits pick p ?s) = DeliverError e" using cl by (simp add: deliver_def)
  moreover have "snd (Send pb limits m ?s) \<noteq> None" by (simp add: Send_def x)
  ultimately show ?thesis using t x c[OF x] f[OF x] by (simp add: finishStream_noop)
qed

theorem finishStream_final_witness:
  "finishStream None (finishStream (Some (Sentinel ErrOverloaded)) open_stream) = finishStream (Some (Sentinel ErrOverloaded)) open_stream
   \<and> terminal (finishStream (Some (Sentinel ErrOverloaded)) open_stream) = Sentinel ErrOverloaded"
proof -
  have "stream_inv open_stream" "\<not> st_finishOnce open_stream"
    by (simp_all add: stream_inv_def open_stream_def startPump_def newStreamWithin_def)
  then show ?thesis
    using finishStream_final[of open_stream None "Some (Sentinel ErrOverloaded)" None DefaultLimits True "[]" sample_proto
      "\<lparr>Message_Payload = []\<rparr>" True True]
    by simp
qed

text \<open>
  Send never blocks and never accepts what it reports as failed: it succeeds exactly for
  a message within the stream bound, encodable, on a live stream whose send side is open and
  whose queue has room; a failure leaves the stream unchanged, and a full queue is reported
  as ErrSendQueueFull.
\<close>

theorem Send_behaviour:
  assumes "Send pb limits m s = (s', e)"
  shows "(e = None \<longleftrightarrow> int (length (Message_Payload m)) \<le> MaxStreamMessageBytes limits \<and> st_ctx s = None
            \<and> mc_marshal (pb_Data pb) (mkData (Message_Payload m)) \<noteq> None \<and> \<not> st_sendClosed s
            \<and> length (st_outbound s) < st_outboundCap s)
    \<and> (e \<noteq> None \<longrightarrow> s' = s)
    \<and> (e = None \<longrightarrow> s' = s\<lparr>st_outbound := st_outbound s @ [sent_item pb m]\<rparr>)
    \<and> (e = Some (Sentinel ErrSendQueueFull) \<and> st_ctx s = None \<longrightarrow> st_outboundCap s \<le> length (st_outbound s))"
  using assms
  by (cases "st_ctx s") (auto simp: Send_def encodeData_def Marshal_def sent_item_def split: option.splits sum.splits if_splits, metis+)

theorem Send_behaviour_witness:
  "snd (Send sample_proto DefaultLimits \<lparr>Message_Payload = [1, 2]\<rparr> (open_stream\<lparr>st_sendClosed := True\<rparr>)) \<noteq> None"
  using Send_behaviour[of sample_proto DefaultLimits "\<lparr>Message_Payload = [1, 2]\<rparr>" "open_stream\<lparr>st_sendClosed := True\<rparr>"
     "fst (Send sample_proto DefaultLimits \<lparr>Message_Payload = [1, 2]\<rparr> (open_stream\<lparr>st_sendClosed := True\<rparr>))"
     "snd (Send sample_proto DefaultLimits \<lparr>Message_Payload = [1, 2]\<rparr> (open_stream\<lparr>st_sendClosed := True\<rparr>))"]
  by simp

text \<open>
  A stream whose context is done before it is finished (the caller's context was cancelled)
  has no recorded failure yet, and \<^verbatim>\<open>terminal\<close> answers for it as for a clean end: CloseSend then
  reports success although its marker never entered the queue.
\<close>

lemma CloseSend_cancelled_reports_success:
  assumes "st_sendEnd s = NotCalled" and "st_ctx s = Some err" and "st_finishErr s = None"
  shows "st_sendEnd (CloseSend_enqueue False (CloseSend_begin s)) = Done None
    \<and> st_outbound (CloseSend_enqueue False (CloseSend_begin s)) = st_outbound s"
  using assms by (simp add: CloseSend_begin_def CloseSend_enqueue_def closeSendAfterTerminal_def terminal_def)

text \<open>A clean end is reported as a closed stream, not as the end of the input.\<close>

lemma terminal_clean_end: "\<not> st_finishOnce s \<Longrightarrow> terminal (finishStream None s) = Sentinel ErrStreamClosed"
  by (simp add: terminal_def finishStream_def stream_cancel_def closeInboundFinal_def Let_def)

end
