(* ===== verification/Handler_Port.thy ===== *)
theory Handler_Port
  imports Peer_Domain
begin

text \<open>
  The port between the session engine and the application layer, \<^verbatim>\<open>src/domain/peer/handler.go\<close>.

  Resolving an invocation either refuses it with an error or returns the function that
  serves it; serving runs consumer code exactly once and turns what it did into a result.
  A returned function is a value of the handler's own closure type, and consumer code is
  seen through its outcome only: it returns, it fails, or it panics.
\<close>

datatype 'r outcome = Returned 'r | Failed go_error | Panicked

record ('h, 'v, 'w) handler_ops =
  op_PrepareCall :: "'h \<Rightarrow> go_error option \<Rightarrow> PeerIdentity \<Rightarrow> Call \<Rightarrow> 'h \<times> (go_error + 'v)"
  op_ServeCall :: "'h \<Rightarrow> 'v \<Rightarrow> Result outcome \<Rightarrow> 'h \<times> (go_error + Result)"
  op_PrepareStream :: "'h \<Rightarrow> PeerIdentity \<Rightarrow> string \<Rightarrow> 'h \<times> (go_error + 'w)"
  op_ServeStream :: "'h \<Rightarrow> 'w \<Rightarrow> unit outcome \<Rightarrow> 'h \<times> go_error option"

text \<open>
  The invocations of a handler, interleaved in any order: the closures that were returned
  and have not been run yet are the outstanding ones, and each is run once.
\<close>

inductive port_step :: "('h, 'v, 'w) handler_ops \<Rightarrow> 'h \<times> 'v list \<times> 'w list \<Rightarrow> 'h \<times> 'v list \<times> 'w list \<Rightarrow> bool"
  for ops where
  call_prepared: "op_PrepareCall ops h ctx who call = (h', Inr v) \<Longrightarrow> port_step ops (h, vs, ws) (h', v # vs, ws)"
| call_denied: "op_PrepareCall ops h ctx who call = (h', Inl e) \<Longrightarrow> port_step ops (h, vs, ws) (h', vs, ws)"
| call_run: "op_ServeCall ops h v out = (h', r) \<Longrightarrow> port_step ops (h, vs1 @ v # vs2, ws) (h', vs1 @ vs2, ws)"
| stream_prepared: "op_PrepareStream ops h who m = (h', Inr w) \<Longrightarrow> port_step ops (h, vs, ws) (h', vs, w # ws)"
| stream_denied: "op_PrepareStream ops h who m = (h', Inl e) \<Longrightarrow> port_step ops (h, vs, ws) (h', vs, ws)"
| stream_run: "op_ServeStream ops h w out' = (h', e') \<Longrightarrow> port_step ops (h, vs, ws1 @ w # ws2) (h', vs, ws1 @ ws2)"

text \<open>
  What a handler promises a carrier about its bounded budgets: a refusal reserves nothing, a
  resolution reserves one unit within the bound, and serving gives the unit back on every
  outcome of the consumer's code, a panic included.
\<close>

locale handler_port =
  fixes ops :: "('h, 'v, 'w) handler_ops"
    and busyCalls :: "'h \<Rightarrow> nat" and maxCalls :: "'h \<Rightarrow> nat"
    and busyStreams :: "'h \<Rightarrow> nat" and maxStreams :: "'h \<Rightarrow> nat"
  assumes call_refused: "op_PrepareCall ops h ctx from call = (h', Inl e) \<Longrightarrow> h' = h"
    and call_resolved: "op_PrepareCall ops h ctx from call = (h', Inr v) \<Longrightarrow>
       busyCalls h < maxCalls h \<and> busyCalls h' = Suc (busyCalls h) \<and> maxCalls h' = maxCalls h
       \<and> busyStreams h' = busyStreams h \<and> maxStreams h' = maxStreams h"
    and call_served: "op_ServeCall ops h v out = (h', r) \<Longrightarrow>
       busyCalls h' = busyCalls h - 1 \<and> maxCalls h' = maxCalls h
       \<and> busyStreams h' = busyStreams h \<and> maxStreams h' = maxStreams h"
    and stream_refused: "op_PrepareStream ops h from m = (h', Inl e) \<Longrightarrow> h' = h"
    and stream_resolved: "op_PrepareStream ops h from m = (h', Inr w) \<Longrightarrow>
       busyStreams h < maxStreams h \<and> busyStreams h' = Suc (busyStreams h) \<and> maxStreams h' = maxStreams h
       \<and> busyCalls h' = busyCalls h \<and> maxCalls h' = maxCalls h"
    and stream_served: "op_ServeStream ops h w out' = (h', e') \<Longrightarrow>
       busyStreams h' = busyStreams h - 1 \<and> maxStreams h' = maxStreams h
       \<and> busyCalls h' = busyCalls h \<and> maxCalls h' = maxCalls h"
begin

lemma prepare_call_bounded:
  "op_PrepareCall ops h ctx from call = (h', r) \<Longrightarrow> busyCalls h \<le> maxCalls h \<Longrightarrow>
   busyCalls h' \<le> maxCalls h' \<and> busyCalls h' = busyCalls h + (case r of Inl _ \<Rightarrow> 0 | Inr _ \<Rightarrow> 1)"
  by (cases r) (auto dest: call_refused call_resolved)

lemma prepare_then_serve:
  "op_PrepareCall ops h ctx from call = (h1, Inr v) \<Longrightarrow> op_ServeCall ops h1 v out = (h2, r) \<Longrightarrow>
   busyCalls h2 = busyCalls h"
  by (auto dest!: call_resolved call_served)

lemma prepare_stream_bounded:
  "op_PrepareStream ops h from m = (h', r) \<Longrightarrow> busyStreams h \<le> maxStreams h \<Longrightarrow>
   busyStreams h' \<le> maxStreams h' \<and> busyStreams h' = busyStreams h + (case r of Inl _ \<Rightarrow> 0 | Inr _ \<Rightarrow> 1)"
  by (cases r) (auto dest: stream_refused stream_resolved)

lemma prepare_then_serve_stream:
  "op_PrepareStream ops h from m = (h1, Inr w) \<Longrightarrow> op_ServeStream ops h1 w out = (h2, e) \<Longrightarrow>
   busyStreams h2 = busyStreams h"
  by (auto dest!: stream_resolved stream_served)

text \<open>The units in use are the outstanding closures, whatever the interleaving.\<close>

definition accounted :: "'h \<times> 'v list \<times> 'w list \<Rightarrow> bool" where
  "accounted s \<longleftrightarrow> (case s of (h, vs, ws) \<Rightarrow>
     busyCalls h = length vs \<and> length vs \<le> maxCalls h \<and> busyStreams h = length ws \<and> length ws \<le> maxStreams h)"

lemma accounted_step: "port_step ops s s' \<Longrightarrow> accounted s \<Longrightarrow> accounted s'"
  by (induction rule: port_step.induct)
    (auto simp: accounted_def dest!: call_refused call_resolved call_served stream_refused stream_resolved stream_served)

lemma accounted_reachable: "(port_step ops)\<^sup>*\<^sup>* s s' \<Longrightarrow> accounted s \<Longrightarrow> accounted s'"
  by (induction rule: rtranclp_induct) (auto intro: accounted_step)

end

end
