(* ===== verification/Conn_Session.thy ===== *)
theory Conn_Session
  imports Conn_Stream Handler_Port
begin

text \<open>
  The session engine: \<^verbatim>\<open>config.go\<close>, \<^verbatim>\<open>session.go\<close> and \<^verbatim>\<open>dispatch.go\<close> of
  \<^verbatim>\<open>src/infrastructure/peer/conn\<close>.

  The session's record holds the fields of the Go struct and, because the code shares
  objects by reference, a store for each kind of shared object: streams, the outcome channels
  of calls, the acceptance channels of stream requests, and the contexts of inbound calls. A
  map of the struct holds references into a store. The goroutines the session starts are
  fields too: the read loop and where it is, the running call and stream tasks, the callers
  that wait for an outcome, the followers of the opened streams, the prober.

  An operation is atomic up to the point where its goroutine can wait; an operation with a
  wait in the middle is cut there into pieces. Parameters: \<open>pb\<close> is the protobuf runtime,
  \<open>ops\<close> the handler, \<open>now\<close> the clock (nanoseconds), \<open>pick\<close> the choice of a \<^verbatim>\<open>select\<close> whose
  branches are both ready.
\<close>

section \<open>Configuration and state\<close>

datatype Role = RoleClient | RoleServer

definition parity :: "Role \<Rightarrow> u64" where
  "parity role = (if role = RoleClient then 1 else 2)"

record Config =
  cfg_Local :: PeerIdentity
  cfg_Remote :: PeerIdentity
  cfg_Role :: Role
  cfg_Limits :: Limits
  cfg_KeepAlive :: int

abbreviation (input) keepAliveTimeout :: int where "keepAliveTimeout \<equiv> 2"

record unaryOutcome =
  uo_payload :: bytes
  uo_err :: "go_error option"

type_synonym ref = nat

datatype reader_state =
    Reading
  | Holding Frame
  | Parked ref bytes
  | Woken ref "go_error option"
  | ReaderDone

record 'v call_task =
  ct_id :: u64
  ct_ctx :: ref
  ct_request :: Call
  ct_serve :: 'v

datatype task_phase = Serving | ClosingSend "go_error option" | Flushing "go_error option"

record 'w stream_task =
  sk_id :: u64
  sk_stream :: ref
  sk_serve :: 'w
  sk_phase :: task_phase

record ('h, 'v, 'w) Session =
  se_cfg :: Config
  se_limits :: Limits
  se_transport :: transport
  se_source :: source
  se_ctx :: "go_error option"
  se_nextStreamID :: u64
  se_streams :: "(u64, ref) table"
  se_calls :: "(u64, ref) table"
  se_opens :: "(u64, ref) table"
  se_inflight :: "(u64, ref) table"
  se_terminal :: "go_error option"
  se_ended :: bool
  se_closeOnce :: bool
  se_callGate :: gate
  se_streamGate :: gate
  se_lastPong :: int
  se_handler :: 'h
  se_heap :: "stream list"
  se_callChans :: "unaryOutcome list list"
  se_openChans :: "go_error option list list"
  se_callCtxs :: "go_error option list"
  se_reader :: reader_state
  se_probing :: bool
  se_callTasks :: "'v call_task list"
  se_streamTasks :: "'w stream_task list"
  se_callers :: "(u64 \<times> ref) list"
  se_openers :: "(u64 \<times> ref \<times> ref) list"
  se_followers :: "(u64 \<times> ref) list"

definition NewSession :: "Config \<Rightarrow> transport \<Rightarrow> source \<Rightarrow> 'h \<Rightarrow> int \<Rightarrow> ('h, 'v, 'w) Session" where
  "NewSession cfg transport source handler now =
    (let limits = WithDefaults (cfg_Limits cfg) in \<lparr>
       se_cfg = cfg, se_limits = limits, se_transport = transport, se_source = source,
       se_ctx = None, se_nextStreamID = parity (cfg_Role cfg),
       se_streams = [], se_calls = [], se_opens = [], se_inflight = [],
       se_terminal = None, se_ended = False, se_closeOnce = False,
       se_callGate = make_gate (MaxConcurrentCalls limits),
       se_streamGate = make_gate (MaxConcurrentStreams limits),
       se_lastPong = now, se_handler = handler,
       se_heap = [], se_callChans = [], se_openChans = [], se_callCtxs = [],
       se_reader = ReaderDone, se_probing = False,
       se_callTasks = [], se_streamTasks = [], se_callers = [], se_openers = [], se_followers = []\<rparr>)"

definition Start :: "('h, 'v, 'w) Session \<Rightarrow> ('h, 'v, 'w) Session" where
  "Start s = (let s1 = s\<lparr>se_reader := Reading\<rparr> in
     if cfg_KeepAlive (se_cfg s) > 0 then s1\<lparr>se_probing := True\<rparr> else s1)"

definition New :: "Config \<Rightarrow> transport \<Rightarrow> source \<Rightarrow> 'h \<Rightarrow> int \<Rightarrow> ('h, 'v, 'w) Session" where
  "New cfg transport source handler now = Start (NewSession cfg transport source handler now)"

definition LocalIdentity :: "('h, 'v, 'w) Session \<Rightarrow> PeerIdentity" where
  "LocalIdentity s = cfg_Local (se_cfg s)"

definition Peer :: "('h, 'v, 'w) Session \<Rightarrow> PeerIdentity" where
  "Peer s = cfg_Remote (se_cfg s)"

text \<open>\<^verbatim>\<open>Peer\<close> of a stream of the session.\<close>

definition stream_Peer :: "('h, 'v, 'w) Session \<Rightarrow> PeerIdentity" where
  "stream_Peer s = cfg_Remote (se_cfg s)"

section \<open>Shared objects\<close>

definition upd_stream :: "ref \<Rightarrow> (stream \<Rightarrow> stream) \<Rightarrow> ('h, 'v, 'w) Session \<Rightarrow> ('h, 'v, 'w) Session" where
  "upd_stream r f s = s\<lparr>se_heap := (se_heap s)[r := f (se_heap s ! r)]\<rparr>"

text \<open>
  The read loop waits inside \<^verbatim>\<open>deliver\<close>, holding the stream's inbound lock; the end of the
  stream's context takes it out of there with the context's error. Whoever ends the context
  waits for the lock before it closes the queue, so both are one step.
\<close>

definition woken :: "stream list \<Rightarrow> reader_state \<Rightarrow> reader_state" where
  "woken heap reader = (case reader of
     Parked r p \<Rightarrow> (case st_ctx (heap ! r) of
         None \<Rightarrow> reader
       | Some err \<Rightarrow> Woken r (Some err))
   | _ \<Rightarrow> reader)"

definition wake_reader :: "('h, 'v, 'w) Session \<Rightarrow> ('h, 'v, 'w) Session" where
  "wake_reader s = s\<lparr>se_reader := woken (se_heap s) (se_reader s)\<rparr>"

definition finish_ref :: "ref \<Rightarrow> go_error option \<Rightarrow> ('h, 'v, 'w) Session \<Rightarrow> ('h, 'v, 'w) Session" where
  "finish_ref r err s = wake_reader (upd_stream r (finishStream err) s)"

definition cancel_ctx :: "go_error option \<Rightarrow> go_error option" where
  "cancel_ctx c = (case c of None \<Rightarrow> Some (Sentinel ErrCanceled) | Some err \<Rightarrow> Some err)"

text \<open>The session's \<^verbatim>\<open>cancel\<close>: its context and the contexts derived from it.\<close>

definition session_cancel :: "('h, 'v, 'w) Session \<Rightarrow> ('h, 'v, 'w) Session" where
  "session_cancel s = wake_reader (s\<lparr>
     se_ctx := cancel_ctx (se_ctx s),
     se_heap := map (\<lambda>st. if st_fromSession st then stream_cancel (Sentinel ErrCanceled) st else st) (se_heap s),
     se_callCtxs := map cancel_ctx (se_callCtxs s)\<rparr>)"

definition cancel_call :: "ref \<Rightarrow> ('h, 'v, 'w) Session \<Rightarrow> ('h, 'v, 'w) Session" where
  "cancel_call c s = s\<lparr>se_callCtxs := (se_callCtxs s)[c := cancel_ctx (se_callCtxs s ! c)]\<rparr>"

definition send_outcome :: "ref \<Rightarrow> unaryOutcome \<Rightarrow> ('h, 'v, 'w) Session \<Rightarrow> ('h, 'v, 'w) Session" where
  "send_outcome c v s = s\<lparr>se_callChans := (se_callChans s)[c := se_callChans s ! c @ [v]]\<rparr>"

definition send_accepted :: "ref \<Rightarrow> go_error option \<Rightarrow> ('h, 'v, 'w) Session \<Rightarrow> ('h, 'v, 'w) Session" where
  "send_accepted c v s = s\<lparr>se_openChans := (se_openChans s)[c := se_openChans s ! c @ [v]]\<rparr>"

section \<open>Ending, and writing\<close>

definition terminalOf :: "go_error option \<Rightarrow> go_error" where
  "terminalOf cause = (case cause of
     None \<Rightarrow> Sentinel ErrConnectionClosed
   | Some err \<Rightarrow> if errors_Is err IoEOF then Sentinel ErrConnectionClosed else err)"

definition session_end :: "go_error option \<Rightarrow> ('h, 'v, 'w) Session \<Rightarrow> ('h, 'v, 'w) Session" where
  "session_end cause s =
    (let s1 = session_cancel s;
         s2 = s1\<lparr>se_transport := transport_close (se_transport s1)\<rparr>;
         s3 = (if se_ended s2 then s2 else s2\<lparr>se_ended := True, se_terminal := Some (terminalOf cause)\<rparr>);
         streams = se_streams s3; calls = se_calls s3; opens = se_opens s3; inflight = se_inflight s3;
         s4 = s3\<lparr>se_streams := [], se_calls := [], se_opens := [], se_inflight := []\<rparr>;
         failure = se_terminal s4;
         s5 = fold (\<lambda>c. send_outcome c \<lparr>uo_payload = [], uo_err = failure\<rparr>) (map_vals calls) s4;
         s6 = fold (\<lambda>c. send_accepted c failure) (map_vals opens) s5;
         streamCause = (if err_is cause IoEOF then None else cause);
         s7 = fold cancel_call (map_vals inflight) s6
     in fold (\<lambda>r. finish_ref r streamCause) (map_vals streams) s7)"

definition usable :: "('h, 'v, 'w) Session \<Rightarrow> go_error option" where
  "usable s = (if \<not> se_ended s then None else se_terminal s)"

definition writeFrame :: "Frame \<Rightarrow> ('h, 'v, 'w) Session \<Rightarrow> ('h, 'v, 'w) Session \<times> go_error option" where
  "writeFrame f s =
    (case WriteFrame transport_write (NewWriter (MaxMessageBytes (se_limits s))) (se_transport s) f of
       (t, None) \<Rightarrow> (s\<lparr>se_transport := t\<rparr>, None)
     | (t, Some err) \<Rightarrow> (session_end (Some err) (s\<lparr>se_transport := t\<rparr>), Some err))"

definition sendFrame :: "Frame \<Rightarrow> ('h, 'v, 'w) Session \<Rightarrow> ('h, 'v, 'w) Session" where
  "sendFrame f s = fst (writeFrame f s)"

definition Close :: "('h, 'v, 'w) Session \<Rightarrow> ('h, 'v, 'w) Session" where
  "Close s =
    (if se_closeOnce s then s
     else session_end None (sendFrame \<lparr>Frame_Type = FrameClose, Frame_StreamID = 0, Frame_Payload = []\<rparr>
            (s\<lparr>se_closeOnce := True\<rparr>)))"

section \<open>The tables\<close>

definition registerCall :: "u64 \<Rightarrow> ref \<Rightarrow> ('h, 'v, 'w) Session \<Rightarrow> ('h, 'v, 'w) Session" where
  "registerCall i c s = s\<lparr>se_calls := map_set i c (se_calls s)\<rparr>"

definition discardCall :: "u64 \<Rightarrow> ('h, 'v, 'w) Session \<Rightarrow> ('h, 'v, 'w) Session" where
  "discardCall i s = s\<lparr>se_calls := map_delete i (se_calls s)\<rparr>"

definition trackInflight :: "u64 \<Rightarrow> ref \<Rightarrow> ('h, 'v, 'w) Session \<Rightarrow> ('h, 'v, 'w) Session" where
  "trackInflight i c s = s\<lparr>se_inflight := map_set i c (se_inflight s)\<rparr>"

definition releaseInflight :: "u64 \<Rightarrow> ('h, 'v, 'w) Session \<Rightarrow> ('h, 'v, 'w) Session" where
  "releaseInflight i s = s\<lparr>se_inflight := map_delete i (se_inflight s)\<rparr>"

definition cancelInflight :: "u64 \<Rightarrow> ('h, 'v, 'w) Session \<Rightarrow> ('h, 'v, 'w) Session \<times> bool" where
  "cancelInflight i s = (case map_get (se_inflight s) i of
     None \<Rightarrow> (s, False)
   | Some c \<Rightarrow> (cancel_call c (s\<lparr>se_inflight := map_delete i (se_inflight s)\<rparr>), True))"

definition registerOpen :: "u64 \<Rightarrow> ref \<Rightarrow> ('h, 'v, 'w) Session \<Rightarrow> ('h, 'v, 'w) Session" where
  "registerOpen i c s = s\<lparr>se_opens := map_set i c (se_opens s)\<rparr>"

definition discardOpen :: "u64 \<Rightarrow> ('h, 'v, 'w) Session \<Rightarrow> ('h, 'v, 'w) Session" where
  "discardOpen i s = s\<lparr>se_opens := map_delete i (se_opens s)\<rparr>"

definition registerStream :: "u64 \<Rightarrow> ref \<Rightarrow> ('h, 'v, 'w) Session \<Rightarrow> ('h, 'v, 'w) Session" where
  "registerStream i r s = s\<lparr>se_streams := map_set i r (se_streams s)\<rparr>"

definition discardStream :: "u64 \<Rightarrow> ('h, 'v, 'w) Session \<Rightarrow> ('h, 'v, 'w) Session" where
  "discardStream i s = s\<lparr>se_streams := map_delete i (se_streams s)\<rparr>"

definition allocateStreamID :: "('h, 'v, 'w) Session \<Rightarrow> ('h, 'v, 'w) Session \<times> u64" where
  "allocateStreamID s =
    (let next = se_nextStreamID s + 2 in (s\<lparr>se_nextStreamID := next\<rparr>, next - 2))"

definition ownsStreamID :: "('h, 'v, 'w) Session \<Rightarrow> u64 \<Rightarrow> bool" where
  "ownsStreamID s i = ((i mod 2 = 1) = (cfg_Role (se_cfg s) = RoleClient))"

definition findStream :: "u64 \<Rightarrow> ('h, 'v, 'w) Session \<Rightarrow> ref option" where
  "findStream i s = map_get (se_streams s) i"

definition takeStream :: "u64 \<Rightarrow> ('h, 'v, 'w) Session \<Rightarrow> ('h, 'v, 'w) Session \<times> ref option" where
  "takeStream i s = (case map_get (se_streams s) i of
     None \<Rightarrow> (s, None)
   | Some r \<Rightarrow> (s\<lparr>se_streams := map_delete i (se_streams s)\<rparr>, Some r))"

definition takeOpen :: "u64 \<Rightarrow> ('h, 'v, 'w) Session \<Rightarrow> ('h, 'v, 'w) Session \<times> ref option" where
  "takeOpen i s = (case map_get (se_opens s) i of
     None \<Rightarrow> (s, None)
   | Some c \<Rightarrow> (s\<lparr>se_opens := map_delete i (se_opens s)\<rparr>, Some c))"

definition takeCall :: "u64 \<Rightarrow> ('h, 'v, 'w) Session \<Rightarrow> ('h, 'v, 'w) Session \<times> ref option" where
  "takeCall i s = (case map_get (se_calls s) i of
     None \<Rightarrow> (s, None)
   | Some c \<Rightarrow> (s\<lparr>se_calls := map_delete i (se_calls s)\<rparr>, Some c))"

section \<open>Encoding helpers\<close>

definition encodeResult :: "proto \<Rightarrow> bytes \<Rightarrow> go_error + bytes" where
  "encodeResult pb payload = Marshal (pb_CallResult pb) (mkCallResult payload)"

definition frameData :: "u64 \<Rightarrow> bytes \<Rightarrow> Frame" where
  "frameData i body = \<lparr>Frame_Type = FrameData, Frame_StreamID = i, Frame_Payload = body\<rparr>"

definition endFrame :: "proto \<Rightarrow> u64 \<Rightarrow> StatusCode \<Rightarrow> Frame" where
  "endFrame pb i code =
    (case Marshal (pb_Failure pb) (mkFailure (ucast code) (StatusCode_String code)) of
       Inl err \<Rightarrow> \<lparr>Frame_Type = FrameStreamEnd, Frame_StreamID = i, Frame_Payload = []\<rparr>
     | Inr body \<Rightarrow> \<lparr>Frame_Type = FrameStreamEnd, Frame_StreamID = i, Frame_Payload = body\<rparr>)"

text \<open>The failure the peer reported (nil for a clean end), or the reason it cannot be read.\<close>

definition decodeFailure :: "proto \<Rightarrow> bytes \<Rightarrow> go_error + go_error option" where
  "decodeFailure pb body =
    (case Unmarshal (pb_Failure pb) Failure_unknownFields body of
       Inl err \<Rightarrow> Inl err
     | Inr failure \<Rightarrow>
         (case Failure_GetStatus (Some failure) of
            None \<Rightarrow> Inl (Sentinel ErrProtocolViolation)
          | Some status \<Rightarrow>
              if Status_GetCode (Some status) > 255 then Inl (Sentinel ErrProtocolViolation)
              else Inr (StatusCode_Err (ucast (Status_GetCode (Some status))))))"

definition notifyCancelled :: "proto \<Rightarrow> u64 \<Rightarrow> go_error option \<Rightarrow> ('h, 'v, 'w) Session \<Rightarrow> ('h, 'v, 'w) Session" where
  "notifyCancelled pb i cause s =
    (let code = StatusOf cause;
         code' = (if err_is cause ErrCanceled then StatusCanceled else code)
     in sendFrame (endFrame pb i code') s)"

definition session_acquire :: "gate \<Rightarrow> gate \<times> bool" where
  "session_acquire g = gate_try_send g"

definition session_release :: "gate \<Rightarrow> gate" where
  "session_release g = gate_try_recv g"

section \<open>Outbound invocations\<close>

text \<open>
  \<^verbatim>\<open>await\<close>: nothing while it waits, the context's error, or the value at the head of the
  channel. A context that is done when the wait begins wins; one that ends later may lose
  against a value that is there.
\<close>

definition await :: "bool \<Rightarrow> go_error option \<Rightarrow> 'a list \<Rightarrow> (go_error + 'a) option" where
  "await pick ctx_err values =
    (case values of
       v # _ \<Rightarrow> if pick \<or> ctx_err = None then Some (Inr v) else map_option Inl ctx_err
     | [] \<Rightarrow> map_option Inl ctx_err)"

text \<open>
  \<^verbatim>\<open>Call\<close> up to the allocation of the stream ID, from there to the write of the request, and
  from the wait on. The session may change between the pieces.
\<close>

definition Call_check :: "proto \<Rightarrow> string \<Rightarrow> bytes \<Rightarrow> ('h, 'v, 'w) Session \<Rightarrow> go_error + bytes" where
  "Call_check pb method payload s =
    (case usable s of
       Some err \<Rightarrow> Inl err
     | None \<Rightarrow>
         if int (length payload) > MaxMessageBytes (se_limits s) then Inl (Sentinel ErrMessageTooLarge)
         else Marshal (pb_CallRequest pb) (mkCallRequest method payload))"

definition Call_send :: "bytes \<Rightarrow> ('h, 'v, 'w) Session \<Rightarrow> ('h, 'v, 'w) Session \<times> (go_error + u64 \<times> ref)" where
  "Call_send body s =
    (let outcome = length (se_callChans s);
         s1 = s\<lparr>se_callChans := se_callChans s @ [[]]\<rparr>
     in case allocateStreamID s1 of (s2, streamID) \<Rightarrow>
        let s3 = registerCall streamID outcome s2 in
        case writeFrame \<lparr>Frame_Type = FrameOpenCall, Frame_StreamID = streamID, Frame_Payload = body\<rparr> s3 of
          (s4, Some err) \<Rightarrow> (discardCall streamID s4, Inl err)
        | (s4, None) \<Rightarrow> (s4\<lparr>se_callers := (streamID, outcome) # se_callers s4\<rparr>, Inr (streamID, outcome)))"

definition Call_finish :: "proto \<Rightarrow> bool \<Rightarrow> go_error option \<Rightarrow> u64 \<times> ref \<Rightarrow> ('h, 'v, 'w) Session
    \<Rightarrow> ('h, 'v, 'w) Session \<times> (go_error + Result) option" where
  "Call_finish pb pick ctx_err caller s = (case caller of (streamID, outcome) \<Rightarrow>
    (case await pick ctx_err (se_callChans s ! outcome) of
       None \<Rightarrow> (s, None)
     | Some r \<Rightarrow>
         let s1 = s\<lparr>se_callers := remove1 caller (se_callers s)\<rparr> in
         (case r of
            Inl err \<Rightarrow> (discardCall streamID (notifyCancelled pb streamID (Some err) s1), Some (Inl err))
          | Inr settled \<Rightarrow>
              let s2 = s1\<lparr>se_callChans := (se_callChans s1)[outcome := tl (se_callChans s1 ! outcome)]\<rparr> in
              (discardCall streamID s2,
               Some (case uo_err settled of
                  Some err \<Rightarrow> Inl err
                | None \<Rightarrow> Inr \<lparr>Result_Payload = uo_payload settled\<rparr>)))))"

definition OpenStream_check :: "proto \<Rightarrow> string \<Rightarrow> ('h, 'v, 'w) Session \<Rightarrow> go_error + bytes" where
  "OpenStream_check pb method s =
    (case usable s of
       Some err \<Rightarrow> Inl err
     | None \<Rightarrow>
         if method = [] then Inl (Sentinel ErrMethodNotFound)
         else Marshal (pb_OpenStream pb) (mkOpenStream method))"

definition OpenStream_send :: "string \<Rightarrow> bytes \<Rightarrow> go_error option \<Rightarrow> ('h, 'v, 'w) Session
    \<Rightarrow> ('h, 'v, 'w) Session \<times> (go_error + u64 \<times> ref \<times> ref)" where
  "OpenStream_send method body ctx_err s =
    (let accepted = length (se_openChans s);
         s1 = s\<lparr>se_openChans := se_openChans s @ [[]]\<rparr>
     in case allocateStreamID s1 of (s2, streamID) \<Rightarrow>
        let local = length (se_heap s2);
            s3 = s2\<lparr>se_heap := se_heap s2 @ [newStreamWithin (se_limits s2) streamID method False ctx_err]\<rparr>;
            s4 = registerStream streamID local s3;
            s5 = registerOpen streamID accepted s4;
            s6 = upd_stream local startPump s5
        in case writeFrame \<lparr>Frame_Type = FrameOpenStream, Frame_StreamID = streamID, Frame_Payload = body\<rparr> s6 of
          (s7, Some err) \<Rightarrow> (discardOpen streamID (finish_ref local (Some err) s7), Inl err)
        | (s7, None) \<Rightarrow> (s7\<lparr>se_openers := (streamID, accepted, local) # se_openers s7\<rparr>, Inr (streamID, accepted, local)))"

definition followStreamContext :: "u64 \<Rightarrow> ref \<Rightarrow> ('h, 'v, 'w) Session \<Rightarrow> ('h, 'v, 'w) Session" where
  "followStreamContext streamID local s = s\<lparr>se_followers := (streamID, local) # se_followers s\<rparr>"

text \<open>The goroutine that \<^verbatim>\<open>followStreamContext\<close> starts, once the stream's context is done.\<close>

definition follow_done :: "proto \<Rightarrow> u64 \<times> ref \<Rightarrow> ('h, 'v, 'w) Session \<Rightarrow> ('h, 'v, 'w) Session" where
  "follow_done pb follower s = (case follower of (streamID, local) \<Rightarrow>
    let err = st_ctx (se_heap s ! local); s1 = s\<lparr>se_followers := remove1 follower (se_followers s)\<rparr> in
    if findStream streamID s1 = None then s1
    else notifyCancelled pb streamID err (finish_ref local err (discardStream streamID s1)))"

definition OpenStream_finish :: "proto \<Rightarrow> bool \<Rightarrow> go_error option \<Rightarrow> u64 \<times> ref \<times> ref \<Rightarrow> ('h, 'v, 'w) Session
    \<Rightarrow> ('h, 'v, 'w) Session \<times> (go_error + ref) option" where
  "OpenStream_finish pb pick ctx_err opener s = (case opener of (streamID, accepted, local) \<Rightarrow>
    (case await pick ctx_err (se_openChans s ! accepted) of
       None \<Rightarrow> (s, None)
     | Some r \<Rightarrow>
         let s1 = s\<lparr>se_openers := remove1 opener (se_openers s)\<rparr> in
         (case r of
            Inl err \<Rightarrow>
              (discardOpen streamID (notifyCancelled pb streamID (Some err) (finish_ref local (Some err) s1)),
               Some (Inl err))
          | Inr settled \<Rightarrow>
              let s2 = s1\<lparr>se_openChans := (se_openChans s1)[accepted := tl (se_openChans s1 ! accepted)]\<rparr> in
              (case settled of
                 Some err \<Rightarrow> (discardOpen streamID (finish_ref local (Some err) s2), Some (Inl err))
               | None \<Rightarrow> (followStreamContext streamID local (discardOpen streamID s2), Some (Inr local))))))"

section \<open>Streams, as their users and the pump see them\<close>

text \<open>
  A \<^verbatim>\<open>Recv\<close> that takes a message off a full queue lets a parked \<^verbatim>\<open>deliver\<close> through.
\<close>

definition session_Recv :: "ref \<Rightarrow> ('h, 'v, 'w) Session \<Rightarrow> ('h, 'v, 'w) Session \<times> recv_result" where
  "session_Recv r s =
    (case Recv (usable s) (se_heap s ! r) of (st, res) \<Rightarrow>
       let s1 = upd_stream r (\<lambda>_. st) s in
       (case se_reader s1 of
          Parked r' p \<Rightarrow>
            if r' = r then
              (case deliver (se_limits s1) True p st of
                 (st', Delivered) \<Rightarrow> ((upd_stream r (\<lambda>_. st') s1)\<lparr>se_reader := Woken r None\<rparr>, res)
               | (st', _) \<Rightarrow> (wake_reader s1, res))
            else (s1, res)
        | _ \<Rightarrow> (s1, res)))"

definition session_Send :: "proto \<Rightarrow> ref \<Rightarrow> Message \<Rightarrow> ('h, 'v, 'w) Session \<Rightarrow> ('h, 'v, 'w) Session \<times> go_error option" where
  "session_Send pb r m s =
    (case Send pb (se_limits s) m (se_heap s ! r) of (st, err) \<Rightarrow> (upd_stream r (\<lambda>_. st) s, err))"

definition pump :: "bool \<Rightarrow> ref \<Rightarrow> ('h, 'v, 'w) Session \<Rightarrow> ('h, 'v, 'w) Session" where
  "pump pick r s =
    (case pump_next pick (se_heap s ! r) of (st, action) \<Rightarrow>
       let s1 = upd_stream r (\<lambda>_. st) s in
       (case action of
          PumpWrite item \<Rightarrow>
            (case writeFrame (if oi_closeSend item
                 then \<lparr>Frame_Type = FrameCloseSend, Frame_StreamID = st_id st, Frame_Payload = []\<rparr>
                 else frameData (st_id st) (oi_body item)) s1 of
               (s2, err) \<Rightarrow> upd_stream r (pump_wrote item err) s2)
        | _ \<Rightarrow> s1))"

text \<open>The context of the caller that opened a stream ends.\<close>

definition caller_cancel :: "ref \<Rightarrow> go_error \<Rightarrow> ('h, 'v, 'w) Session \<Rightarrow> ('h, 'v, 'w) Session" where
  "caller_cancel r err s = wake_reader (upd_stream r (stream_cancel err) s)"

section \<open>Inbound invocations\<close>

definition openCall :: "proto \<Rightarrow> ('h, 'v, 'w) handler_ops \<Rightarrow> u64 \<Rightarrow> bytes \<Rightarrow> ('h, 'v, 'w) Session \<Rightarrow> ('h, 'v, 'w) Session" where
  "openCall pb ops streamID body s =
    (case Unmarshal (pb_CallRequest pb) CallRequest_unknownFields body of
       Inl err \<Rightarrow> sendFrame (endFrame pb streamID StatusInvalidRequest) s
     | Inr request \<Rightarrow>
         if CallRequest_GetMethod (Some request) = [] then sendFrame (endFrame pb streamID StatusMethodNotFound) s
         else (case session_acquire (se_callGate s) of
            (g, False) \<Rightarrow> sendFrame (endFrame pb streamID StatusOverloaded) s
          | (g, True) \<Rightarrow>
              let callCtx = length (se_callCtxs s);
                  call = \<lparr>Call_Method = CallRequest_GetMethod (Some request), Call_Payload = CallRequest_GetPayload (Some request),
                          Call_From = no_identity\<rparr>;
                  s1 = s\<lparr>se_callGate := g, se_callCtxs := se_callCtxs s @ [se_ctx s]\<rparr>
              in (case op_PrepareCall ops (se_handler s1) (se_ctx s) (cfg_Remote (se_cfg s)) call of
                    (h, Inl err) \<Rightarrow>
                      let s2 = cancel_call callCtx (s1\<lparr>se_handler := h\<rparr>);
                          s3 = s2\<lparr>se_callGate := session_release (se_callGate s2)\<rparr>
                      in sendFrame (endFrame pb streamID (StatusOf (Some err))) s3
                  | (h, Inr serve) \<Rightarrow>
                      let s2 = trackInflight streamID callCtx (s1\<lparr>se_handler := h\<rparr>)
                      in s2\<lparr>se_callTasks :=
                           \<lparr>ct_id = streamID, ct_ctx = callCtx, ct_request = call, ct_serve = serve\<rparr> # se_callTasks s2\<rparr>)))"

text \<open>
  The goroutine of an inbound call, once the consumer's code has come to its outcome: the
  reply, and the deferred releases after it.
\<close>

definition call_reply :: "proto \<Rightarrow> u64 \<Rightarrow> go_error + Result \<Rightarrow> ('h, 'v, 'w) Session \<Rightarrow> ('h, 'v, 'w) Session" where
  "call_reply pb streamID r s = (case r of
     Inl err \<Rightarrow> sendFrame (endFrame pb streamID (StatusOf (Some err))) s
   | Inr result \<Rightarrow>
       (case encodeResult pb (Result_Payload result) of
          Inl err \<Rightarrow> sendFrame (endFrame pb streamID StatusInternal) s
        | Inr payload \<Rightarrow>
            sendFrame \<lparr>Frame_Type = FrameCallResult, Frame_StreamID = streamID, Frame_Payload = payload\<rparr> s))"

definition finish_call :: "proto \<Rightarrow> ('h, 'v, 'w) handler_ops \<Rightarrow> 'v call_task \<Rightarrow> Result outcome
    \<Rightarrow> ('h, 'v, 'w) Session \<Rightarrow> ('h, 'v, 'w) Session" where
  "finish_call pb ops t out s =
    (case op_ServeCall ops (se_handler s) (ct_serve t) out of (h, r) \<Rightarrow>
     let s1 = s\<lparr>se_handler := h, se_callTasks := remove1 t (se_callTasks s)\<rparr>;
         s2 = call_reply pb (ct_id t) r s1;
         s3 = releaseInflight (ct_id t) (cancel_call (ct_ctx t) s2)
     in s3\<lparr>se_callGate := session_release (se_callGate s3)\<rparr>)"

text \<open>The acknowledgement of an inbound stream that was resolved and registered.\<close>

definition openStream_accept :: "proto \<Rightarrow> u64 \<Rightarrow> ref \<Rightarrow> 'w \<Rightarrow> ('h, 'v, 'w) Session \<Rightarrow> ('h, 'v, 'w) Session" where
  "openStream_accept pb streamID live serve s =
    (case Marshal (pb_StreamAccepted pb) mkStreamAccepted of
       Inl err \<Rightarrow>
         let s1 = discardStream streamID (s\<lparr>se_streamGate := session_release (se_streamGate s)\<rparr>)
         in sendFrame (endFrame pb streamID StatusInternal) (finish_ref live (Some err) s1)
     | Inr ack \<Rightarrow>
         (case writeFrame \<lparr>Frame_Type = FrameStreamOpenAck, Frame_StreamID = streamID, Frame_Payload = ack\<rparr> s of
            (s1, Some err) \<Rightarrow>
              finish_ref live (Some err)
                (discardStream streamID (s1\<lparr>se_streamGate := session_release (se_streamGate s1)\<rparr>))
          | (s1, None) \<Rightarrow>
              s1\<lparr>se_streamTasks :=
                \<lparr>sk_id = streamID, sk_stream = live, sk_serve = serve, sk_phase = Serving\<rparr> # se_streamTasks s1\<rparr>))"

definition openStream :: "proto \<Rightarrow> ('h, 'v, 'w) handler_ops \<Rightarrow> u64 \<Rightarrow> bytes \<Rightarrow> ('h, 'v, 'w) Session \<Rightarrow> ('h, 'v, 'w) Session" where
  "openStream pb ops streamID body s =
    (case Unmarshal (pb_OpenStream pb) OpenStream_unknownFields body of
       Inl err \<Rightarrow> sendFrame (endFrame pb streamID StatusInvalidRequest) s
     | Inr request \<Rightarrow>
         if OpenStream_GetMethod (Some request) = [] then sendFrame (endFrame pb streamID StatusMethodNotFound) s
         else (case session_acquire (se_streamGate s) of
            (g, False) \<Rightarrow> sendFrame (endFrame pb streamID StatusOverloaded) s
          | (g, True) \<Rightarrow>
              let live = length (se_heap s);
                  s1 = s\<lparr>se_streamGate := g,
                         se_heap := se_heap s @ [newStream (se_limits s) (se_ctx s) streamID (OpenStream_GetMethod (Some request))]\<rparr>
              in (case op_PrepareStream ops (se_handler s1) (cfg_Remote (se_cfg s)) (OpenStream_GetMethod (Some request)) of
                    (h, Inl err) \<Rightarrow>
                      let s2 = s1\<lparr>se_handler := h, se_streamGate := session_release (se_streamGate s1)\<rparr>
                      in sendFrame (endFrame pb streamID (StatusOf (Some err))) (finish_ref live (Some err) s2)
                  | (h, Inr serve) \<Rightarrow>
                      openStream_accept pb streamID live serve
                        (upd_stream live startPump (registerStream streamID live (s1\<lparr>se_handler := h\<rparr>))))))"

text \<open>
  The goroutine of an inbound stream: the handler returns; then the close marker or a flush
  is waited for; then the terminal frame is sent.
\<close>

definition stream_ended_cleanly :: "go_error option \<Rightarrow> bool" where
  "stream_ended_cleanly err \<longleftrightarrow> err = None \<or> err_is err ErrStreamClosed"

definition stream_served :: "('h, 'v, 'w) handler_ops \<Rightarrow> 'w stream_task \<Rightarrow> unit outcome
    \<Rightarrow> ('h, 'v, 'w) Session \<Rightarrow> ('h, 'v, 'w) Session" where
  "stream_served ops t out s =
    (case op_ServeStream ops (se_handler s) (sk_serve t) out of (h, err) \<Rightarrow>
     let s1 = s\<lparr>se_handler := h, se_streamTasks := remove1 t (se_streamTasks s)\<rparr> in
     if map_get (se_streams s1) (sk_id t) = None
     then s1\<lparr>se_streamGate := session_release (se_streamGate s1)\<rparr>
     else if stream_ended_cleanly err
     then (upd_stream (sk_stream t) CloseSend_begin s1)
            \<lparr>se_streamTasks := t\<lparr>sk_phase := ClosingSend err\<rparr> # se_streamTasks s1\<rparr>
     else (upd_stream (sk_stream t) flushOutbound_begin s1)
            \<lparr>se_streamTasks := t\<lparr>sk_phase := Flushing err\<rparr> # se_streamTasks s1\<rparr>)"

definition stream_settle :: "proto \<Rightarrow> 'w stream_task \<Rightarrow> go_error option \<Rightarrow> ('h, 'v, 'w) Session \<Rightarrow> ('h, 'v, 'w) Session" where
  "stream_settle pb t err s =
    (let s1 = discardStream (sk_id t) (s\<lparr>se_streamTasks := remove1 t (se_streamTasks s)\<rparr>);
         s2 = (if stream_ended_cleanly err
               then sendFrame (endFrame pb (sk_id t) StatusOK) (finish_ref (sk_stream t) None s1)
               else sendFrame (endFrame pb (sk_id t) (StatusOf err)) (finish_ref (sk_stream t) err s1))
     in s2\<lparr>se_streamGate := session_release (se_streamGate s2)\<rparr>)"

definition stream_closed :: "proto \<Rightarrow> 'w stream_task \<Rightarrow> ('h, 'v, 'w) Session \<Rightarrow> ('h, 'v, 'w) Session" where
  "stream_closed pb t s =
    (case (sk_phase t, st_sendEnd (se_heap s ! sk_stream t), st_flush (se_heap s ! sk_stream t)) of
       (ClosingSend err, Done closeErr, _) \<Rightarrow>
         stream_settle pb t (case closeErr of None \<Rightarrow> err | Some e \<Rightarrow> Some e) s
     | (Flushing err, _, Done flushErr) \<Rightarrow>
         stream_settle pb t (case flushErr of None \<Rightarrow> err | Some e \<Rightarrow> Some e) s
     | _ \<Rightarrow> s)"

section \<open>The read loop\<close>

text \<open>What dispatching a frame comes to: the loop goes on, ends with an error, or waits in a delivery.\<close>

datatype flow = FlowOk | FlowError go_error | FlowParked ref bytes

definition flow_of :: "go_error option \<Rightarrow> flow" where
  "flow_of err = (case err of None \<Rightarrow> FlowOk | Some e \<Rightarrow> FlowError e)"

definition answerPing :: "proto \<Rightarrow> int \<Rightarrow> Frame \<Rightarrow> ('h, 'v, 'w) Session \<Rightarrow> ('h, 'v, 'w) Session \<times> flow" where
  "answerPing pb now f s =
    (case Unmarshal (pb_Ping pb) Ping_unknownFields (Frame_Payload f) of
       Inl err \<Rightarrow> (s, FlowError err)
     | Inr ping \<Rightarrow>
         (case Marshal (pb_Pong pb) (mkPong (Ping_GetNonce (Some ping))) of
            Inl err \<Rightarrow> (s, FlowError err)
          | Inr body \<Rightarrow>
              (case writeFrame \<lparr>Frame_Type = FramePong, Frame_StreamID = 0, Frame_Payload = body\<rparr> (s\<lparr>se_lastPong := now\<rparr>) of
                 (s', err) \<Rightarrow> (s', flow_of err))))"

definition settleCall :: "proto \<Rightarrow> ref \<Rightarrow> Frame \<Rightarrow> ('h, 'v, 'w) Session \<Rightarrow> ('h, 'v, 'w) Session \<times> flow" where
  "settleCall pb pending f s =
    (if Frame_Type f = FrameCallResult then
       (case Unmarshal (pb_CallResult pb) CallResult_unknownFields (Frame_Payload f) of
          Inl err \<Rightarrow> (send_outcome pending \<lparr>uo_payload = [], uo_err = Some err\<rparr> s, FlowError err)
        | Inr result \<Rightarrow> (send_outcome pending \<lparr>uo_payload = CallResult_GetPayload (Some result), uo_err = None\<rparr> s, FlowOk))
     else if Frame_Type f = FrameStreamEnd then
       (case decodeFailure pb (Frame_Payload f) of
          Inl err \<Rightarrow> (send_outcome pending \<lparr>uo_payload = [], uo_err = Some err\<rparr> s, FlowError err)
        | Inr failure \<Rightarrow> (send_outcome pending \<lparr>uo_payload = [], uo_err = failure\<rparr> s, FlowOk))
     else (send_outcome pending \<lparr>uo_payload = [], uo_err = Some (Sentinel ErrProtocolViolation)\<rparr> s,
           FlowError (Sentinel ErrProtocolViolation)))"

definition settleOpen :: "proto \<Rightarrow> ref \<Rightarrow> Frame \<Rightarrow> ('h, 'v, 'w) Session \<Rightarrow> ('h, 'v, 'w) Session \<times> flow" where
  "settleOpen pb accepted f s =
    (if Frame_Type f = FrameStreamOpenAck then (send_accepted accepted None s, FlowOk)
     else if Frame_Type f = FrameStreamEnd then
       (case decodeFailure pb (Frame_Payload f) of
          Inl err \<Rightarrow> (send_accepted accepted (Some err) s, FlowError err)
        | Inr None \<Rightarrow> (send_accepted accepted None s, FlowOk)
        | Inr (Some failure) \<Rightarrow> (send_accepted accepted (Some failure) s, FlowOk))
     else (send_accepted accepted (Some (Sentinel ErrProtocolViolation)) s, FlowError (Sentinel ErrProtocolViolation)))"

text \<open>What \<^verbatim>\<open>serveFrame\<close> makes of an error of \<^verbatim>\<open>deliver\<close>.\<close>

definition delivery_failed :: "proto \<Rightarrow> ref \<Rightarrow> go_error \<Rightarrow> ('h, 'v, 'w) Session \<Rightarrow> ('h, 'v, 'w) Session \<times> flow" where
  "delivery_failed pb live err s =
    (if errors_Is err ErrMessageTooLarge
     then (sendFrame (endFrame pb (st_id (se_heap s ! live)) StatusMessageTooLarge) (finish_ref live (Some err) s), FlowOk)
     else (s, FlowError err))"

definition serveFrame :: "proto \<Rightarrow> bool \<Rightarrow> ref \<Rightarrow> Frame \<Rightarrow> ('h, 'v, 'w) Session \<Rightarrow> ('h, 'v, 'w) Session \<times> flow" where
  "serveFrame pb pick live f s =
    (if Frame_Type f = FrameData then
       (case Unmarshal (pb_Data pb) Data_unknownFields (Frame_Payload f) of
          Inl err \<Rightarrow> (finish_ref live (Some err) s, FlowError err)
        | Inr message \<Rightarrow>
            (case deliver (se_limits s) pick (Data_GetPayload (Some message)) (se_heap s ! live) of
               (st, Delivered) \<Rightarrow> (upd_stream live (\<lambda>_. st) s, FlowOk)
             | (st, DeliverError err) \<Rightarrow> delivery_failed pb live err s
             | (st, DeliverParked) \<Rightarrow> (s, FlowParked live (Data_GetPayload (Some message)))))
     else if Frame_Type f = FrameCloseSend then (upd_stream live closeInboundHalf s, FlowOk)
     else if Frame_Type f = FrameStreamEnd then
       (case decodeFailure pb (Frame_Payload f) of
          Inl err \<Rightarrow> (finish_ref live (Some err) s, FlowError err)
        | Inr failure \<Rightarrow>
            (finish_ref live (Some (case failure of None \<Rightarrow> Sentinel ErrStreamClosed | Some e \<Rightarrow> e)) s, FlowOk))
     else (finish_ref live (Some (Sentinel ErrProtocolViolation)) s, FlowError (Sentinel ErrProtocolViolation)))"

definition dispatchScoped :: "proto \<Rightarrow> ('h, 'v, 'w) handler_ops \<Rightarrow> bool \<Rightarrow> Frame
    \<Rightarrow> ('h, 'v, 'w) Session \<Rightarrow> ('h, 'v, 'w) Session \<times> flow" where
  "dispatchScoped pb ops pick f s =
    (let i = Frame_StreamID f in
     if i = 0 then (s, FlowError (Sentinel ErrProtocolViolation))
     else if Frame_Type f = FrameOpenCall then
       (if ownsStreamID s i then (s, FlowError (Sentinel ErrProtocolViolation))
        else (openCall pb ops i (Frame_Payload f) s, FlowOk))
     else if Frame_Type f = FrameOpenStream then
       (if ownsStreamID s i then (s, FlowError (Sentinel ErrProtocolViolation))
        else (openStream pb ops i (Frame_Payload f) s, FlowOk))
     else case takeCall i s of
       (s1, Some pending) \<Rightarrow> settleCall pb pending f s1
     | (s1, None) \<Rightarrow>
         (case takeOpen i s1 of
            (s2, Some accepted) \<Rightarrow> settleOpen pb accepted f s2
          | (s2, None) \<Rightarrow>
              if Frame_Type f = FrameData \<or> Frame_Type f = FrameCloseSend then
                (case findStream i s2 of
                   None \<Rightarrow> (s2, FlowOk)
                 | Some live \<Rightarrow> serveFrame pb pick live f s2)
              else if Frame_Type f = FrameStreamEnd then
                (case takeStream i s2 of
                   (s3, None) \<Rightarrow> (fst (cancelInflight i s3), FlowOk)
                 | (s3, Some live) \<Rightarrow> serveFrame pb pick live f s3)
              else (s2, FlowOk)))"

definition dispatch :: "proto \<Rightarrow> ('h, 'v, 'w) handler_ops \<Rightarrow> int \<Rightarrow> bool \<Rightarrow> Frame
    \<Rightarrow> ('h, 'v, 'w) Session \<Rightarrow> ('h, 'v, 'w) Session \<times> flow" where
  "dispatch pb ops now pick f s =
    (if Frame_Type f = FramePing then answerPing pb now f s
     else if Frame_Type f = FramePong then (s\<lparr>se_lastPong := now\<rparr>, FlowOk)
     else if Frame_Type f = FrameClose then (session_end (Some (Sentinel IoEOF)) s, FlowError (Sentinel IoEOF))
     else if Frame_Type f \<in> {FrameOpenCall, FrameOpenStream, FrameCallResult, FrameStreamOpenAck, FrameData,
        FrameCloseSend, FrameStreamEnd} then dispatchScoped pb ops pick f s
     else (s, FlowError (Sentinel ErrProtocolViolation)))"

text \<open>
  The read loop's iteration in three pieces: the read, the dispatch of the frame it got, and
  the return of a delivery it was parked in. A closed connection has nothing more to read.
\<close>

definition readLoop_read :: "('h, 'v, 'w) Session \<Rightarrow> ('h, 'v, 'w) Session" where
  "readLoop_read s =
    (case ReadFrame (NewReader (MaxMessageBytes (se_limits s)))
        (if tr_closed (se_transport s) then \<lparr>src_bytes = [], src_end = Sentinel NetErrClosed\<rparr> else se_source s) of
       (Inl err, src) \<Rightarrow> session_end (Some err) (s\<lparr>se_source := src, se_reader := ReaderDone\<rparr>)
     | (Inr f, src) \<Rightarrow> s\<lparr>se_source := src, se_reader := Holding f\<rparr>)"

definition readLoop_continue :: "('h, 'v, 'w) Session \<times> flow \<Rightarrow> ('h, 'v, 'w) Session" where
  "readLoop_continue r = (case r of
     (s, FlowOk) \<Rightarrow> s\<lparr>se_reader := Reading\<rparr>
   | (s, FlowError err) \<Rightarrow> session_end (Some err) (s\<lparr>se_reader := ReaderDone\<rparr>)
   | (s, FlowParked live p) \<Rightarrow> s\<lparr>se_reader := Parked live p\<rparr>)"

definition readLoop_dispatch :: "proto \<Rightarrow> ('h, 'v, 'w) handler_ops \<Rightarrow> int \<Rightarrow> bool
    \<Rightarrow> ('h, 'v, 'w) Session \<Rightarrow> ('h, 'v, 'w) Session" where
  "readLoop_dispatch pb ops now pick s = (case se_reader s of
     Holding f \<Rightarrow> readLoop_continue (dispatch pb ops now pick f s)
   | _ \<Rightarrow> s)"

definition readLoop_resume :: "proto \<Rightarrow> ('h, 'v, 'w) Session \<Rightarrow> ('h, 'v, 'w) Session" where
  "readLoop_resume pb s = (case se_reader s of
     Woken live None \<Rightarrow> s\<lparr>se_reader := Reading\<rparr>
   | Woken live (Some err) \<Rightarrow> readLoop_continue (delivery_failed pb live err s)
   | _ \<Rightarrow> s)"

section \<open>The prober\<close>

definition probe :: "proto \<Rightarrow> int \<Rightarrow> ('h, 'v, 'w) Session \<Rightarrow> ('h, 'v, 'w) Session \<times> go_error option" where
  "probe pb now s =
    (case Marshal (pb_Ping pb) (mkPing (word_of_int now)) of
       Inl err \<Rightarrow> (s, Some err)
     | Inr body \<Rightarrow> writeFrame \<lparr>Frame_Type = FramePing, Frame_StreamID = 0, Frame_Payload = body\<rparr> s)"

definition lastResponse :: "('h, 'v, 'w) Session \<Rightarrow> int" where
  [simp]: "lastResponse s = se_lastPong s"

text \<open>One iteration of \<^verbatim>\<open>probeLoop\<close>, on a tick of its timer.\<close>

definition probeLoop :: "proto \<Rightarrow> bool \<Rightarrow> int \<Rightarrow> int \<Rightarrow> ('h, 'v, 'w) Session \<Rightarrow> ('h, 'v, 'w) Session" where
  "probeLoop pb pick now later s =
    (if se_ctx s \<noteq> None \<and> \<not> pick then s\<lparr>se_probing := False\<rparr>
     else case probe pb now s of
       (s1, Some err) \<Rightarrow> session_end (Some err) (s1\<lparr>se_probing := False\<rparr>)
     | (s1, None) \<Rightarrow>
         if later - lastResponse s1 > cfg_KeepAlive (se_cfg s1) * keepAliveTimeout
         then session_end (Some (Sentinel ErrConnectionClosed)) (s1\<lparr>se_probing := False\<rparr>)
         else s1)"

end
