(* ===== verification/Carrier_Port.thy ===== *)
theory Carrier_Port
  imports Security Conn_Session
begin

text \<open>
  What the carriers share: the configuration, the outcomes of the operating system and TLS calls they
  make, the handshake that three of them repeat, the accept loop, and the contract of the carrier port
  of \<^verbatim>\<open>src/domain/peer/carrier.go\<close>.

  The calls into \<^verbatim>\<open>net\<close> and \<^verbatim>\<open>crypto/tls\<close> are fields of a record \<open>io\<close>: what each of them returned. The
  byte streams of an established link are given by \<open>io_link\<close>, and the session is the one that
  \<^verbatim>\<open>conn.New\<close> builds on them.
\<close>

record carrier_config =
  cc_Profile :: "Profile option"
  cc_Local :: PeerIdentity
  cc_ServerName :: string
  cc_Limits :: Limits
  cc_KeepAlive :: int
  cc_HandshakeTimeout :: int

abbreviation (input) defaultHandshakeTimeout :: int where "defaultHandshakeTimeout \<equiv> 10 * time_second"

record carrier_io =
  io_now :: instant
  io_ctxDeadline :: "instant option"
  io_dial :: "string \<Rightarrow> go_error + nat"
  io_close :: "nat \<Rightarrow> go_error option"
  io_setDeadline :: "nat \<Rightarrow> instant \<Rightarrow> go_error option"
  io_handshake :: "bool \<Rightarrow> TLSConfig \<Rightarrow> nat \<Rightarrow> go_error + ConnectionState"
  io_clearDeadline :: "nat \<Rightarrow> go_error option"
  io_fresh :: connection
  io_link :: "link \<Rightarrow> transport \<times> source"

text \<open>\<^verbatim>\<open>errors.Join\<close> drops the nil errors.\<close>

definition errors_Join :: "go_error option list \<Rightarrow> go_error option" where
  "errors_Join errs = (case [e. Some e \<leftarrow> errs] of [] \<Rightarrow> None | es \<Rightarrow> Some (Join es))"

definition join_close :: "go_error \<Rightarrow> go_error option \<Rightarrow> go_error" where
  "join_close err closed = Join (err # (case closed of None \<Rightarrow> [] | Some e \<Rightarrow> [e]))"

lemma errors_Join_close: "errors_Join [Some err, closed] = Some (join_close err closed)"
  by (simp add: errors_Join_def join_close_def split: option.splits)

text \<open>The session of one authenticated connection, as every carrier builds it.\<close>

definition carrier_session :: "('m) carrier_config_scheme \<Rightarrow> carrier_io \<Rightarrow> link \<Rightarrow> PeerIdentity \<Rightarrow> Role \<Rightarrow> 'h
    \<Rightarrow> ('h, 'v, 'w) Session" where
  "carrier_session cfg io link remote role handler =
    (case io_link io link of (transport, source) \<Rightarrow>
       New \<lparr>cfg_Local = cc_Local cfg, cfg_Remote = remote, cfg_Role = role, cfg_Limits = cc_Limits cfg,
            cfg_KeepAlive = cc_KeepAlive cfg\<rparr> transport source handler (io_now io))"

section \<open>The handshake\<close>

text \<open>How a carrier reports the failure of each stage.\<close>

record stage_errors =
  at_deadline :: "go_error \<Rightarrow> go_error"
  at_handshake :: "go_error \<Rightarrow> go_error"
  at_clear :: "go_error \<Rightarrow> go_error"

definition handshake_deadline :: "carrier_io \<Rightarrow> int \<Rightarrow> instant" where
  "handshake_deadline io timeout =
    (let deadline = io_now io + timeout in
     case io_ctxDeadline io of
       Some contextDeadline \<Rightarrow> if contextDeadline < deadline then contextDeadline else deadline
     | None \<Rightarrow> deadline)"

definition tls_config :: "Profile option \<Rightarrow> string \<Rightarrow> bool \<Rightarrow> TLSConfig option" where
  "tls_config profile serverName inbound =
    (if inbound then Profile_ServerConfig profile
     else map_option (\<lambda>client. client\<lparr>Config_ServerName := serverName\<rparr>) (Profile_ClientConfig profile))"

definition tls_authenticate :: "stage_errors \<Rightarrow> host \<Rightarrow> pki \<Rightarrow> ('m) carrier_config_scheme \<Rightarrow> string \<Rightarrow> carrier_io
    \<Rightarrow> managers \<Rightarrow> nat \<Rightarrow> bool \<Rightarrow> managers \<times> (go_error + link \<times> PeerIdentity)" where
  "tls_authenticate errs host pki cfg serverName io heap raw inbound =
    (case io_setDeadline io raw (handshake_deadline io (cc_HandshakeTimeout cfg)) of
       Some err \<Rightarrow> (heap, Inl (at_deadline errs err))
     | None \<Rightarrow>
         (case tls_config (cc_Profile cfg) serverName inbound of
            None \<Rightarrow> (heap, Inl (Plain ''tls: no configuration''))
          | Some config \<Rightarrow>
              (case io_handshake io inbound config raw of
                 Inl err \<Rightarrow> (heap, Inl (at_handshake errs err))
               | Inr state \<Rightarrow>
                   (case io_clearDeadline io raw of
                      Some err \<Rightarrow> (heap, Inl (at_clear errs err))
                    | None \<Rightarrow>
                        (case VerifyPeer host (cc_Profile cfg) state of
                           Inl err \<Rightarrow> (heap, Inl err)
                         | Inr remote \<Rightarrow>
                             (case Profile_TrackConnection pki heap (io_now io) (io_fresh io) (cc_Profile cfg) raw state of
                                (heap', Inl err) \<Rightarrow> (heap', Inl err)
                              | (heap', Inr tracked) \<Rightarrow> (heap', Inr (tracked, remote))))))))"

section \<open>Accepting\<close>

text \<open>
  The loop of a listener's \<^verbatim>\<open>Accept\<close>, one round per connection: what \<^verbatim>\<open>ctx.Err\<close> says, what the socket's
  \<^verbatim>\<open>Accept\<close> returns, and the outcomes of the calls made for that connection. When the rounds are used
  up the loop is waiting for the next connection.
\<close>

record accept_round =
  ar_ctx :: "go_error option"
  ar_accept :: "go_error + nat"
  ar_io :: carrier_io

datatype 's accepted = Waiting | Refused go_error | Session 's

fun accept_loop :: "(go_error \<Rightarrow> go_error) \<Rightarrow> (carrier_io \<Rightarrow> managers \<Rightarrow> nat \<Rightarrow> managers \<times> (go_error + link \<times> PeerIdentity))
    \<Rightarrow> (carrier_io \<Rightarrow> link \<Rightarrow> PeerIdentity \<Rightarrow> 's) \<Rightarrow> managers \<Rightarrow> accept_round list \<Rightarrow> managers \<times> 's accepted" where
  "accept_loop failed auth session heap [] = (heap, Waiting)"
| "accept_loop failed auth session heap (r # rs) =
    (case ar_ctx r of
       Some err \<Rightarrow> (heap, Refused err)
     | None \<Rightarrow>
         (case ar_accept r of
            Inl err \<Rightarrow>
              (heap, Refused (if errors_Is err NetErrClosed then Sentinel ErrConnectionClosed else failed err))
          | Inr raw \<Rightarrow>
              (case auth (ar_io r) heap raw of
                 (heap', Inl err) \<Rightarrow>
                   (case io_close (ar_io r) raw of
                      None \<Rightarrow> accept_loop failed auth session heap' rs
                    | Some closeErr \<Rightarrow>
                        if errors_Is closeErr NetErrClosed then accept_loop failed auth session heap' rs
                        else (heap', Refused (Wrap ''rejected connection cleanup'' closeErr)))
               | (heap', Inr (link, remote)) \<Rightarrow> (heap', Session (session (ar_io r) link remote)))))"

text \<open>A round in which the peer failed to authenticate and its connection could be closed.\<close>

definition rejected_round :: "(carrier_io \<Rightarrow> managers \<Rightarrow> nat \<Rightarrow> managers \<times> (go_error + link \<times> PeerIdentity)) \<Rightarrow> managers
    \<Rightarrow> accept_round \<Rightarrow> bool" where
  "rejected_round auth heap r \<longleftrightarrow> ar_ctx r = None \<and> (\<exists>raw err. ar_accept r = Inr raw
     \<and> auth (ar_io r) heap raw = (heap, Inl err)
     \<and> (\<forall>e. io_close (ar_io r) raw = Some e \<longrightarrow> errors_Is e NetErrClosed))"

lemma accept_loop_rejected:
  "\<forall>r\<in>set bad. rejected_round auth heap r \<Longrightarrow>
   accept_loop failed auth session heap (bad @ rs) = accept_loop failed auth session heap rs"
  by (induction bad) (auto simp: rejected_round_def split: option.splits)

lemma accept_loop_Session:
  "accept_loop failed auth session heap rs = (heap', Session s) \<Longrightarrow>
   (\<And>io heap raw heap' err. auth io heap raw = (heap', Inl err) \<Longrightarrow> heap' = heap) \<Longrightarrow>
   \<exists>r\<in>set rs. \<exists>raw link remote. ar_accept r = Inr raw
     \<and> auth (ar_io r) heap raw = (heap', Inr (link, remote)) \<and> s = session (ar_io r) link remote"
proof (induction rs)
  case (Cons r rs)
  obtain raw where raw: "ar_accept r = Inr raw" using Cons.prems(1) by (auto split: option.splits sum.splits)
  show ?case
  proof (cases "auth (ar_io r) heap raw")
    case (Pair heap1 res)
    show ?thesis
    proof (cases res)
      case (Inl err)
      then have "heap1 = heap" using Cons.prems(2) Pair by simp
      then have "accept_loop failed auth session heap rs = (heap', Session s)"
        using Cons.prems(1) raw Pair Inl by (auto split: option.splits if_splits)
      then show ?thesis using Cons.IH[OF _ Cons.prems(2)] by auto
    next
      case (Inr lr)
      then show ?thesis using Cons.prems(1) raw Pair by (cases lr) (auto split: option.splits)
    qed
  qed
qed simp

section \<open>The contract\<close>

text \<open>
  What an authenticated peer is: the TLS stack reported the state of a completed handshake for one of
  the profile's configurations, the profile accepts the leaf certificate of that state under the name
  the session reports, and the revocation manager, if there is one, admitted the verified chains at
  that moment and tracks the connection.
\<close>

definition peer_authenticated :: "host \<Rightarrow> pki \<Rightarrow> instant \<Rightarrow> Profile option \<Rightarrow> managers \<Rightarrow> managers
    \<Rightarrow> ConnectionState \<Rightarrow> PeerIdentity \<Rightarrow> bool" where
  "peer_authenticated host pki now profile heap heap' state remote \<longleftrightarrow>
     VerifyPeer host profile state = Inr remote
     \<and> (\<forall>p r. profile = Some p \<longrightarrow> prof_revocation p = Some r \<longrightarrow>
          VerifyChain pki now (Some (heap r)) (VerifiedChains state) = None
          \<and> (\<exists>c. heap' = heap(r := (heap r)\<lparr>rm_active := List.insert c (rm_active (heap r))\<rparr>)))"

lemma Profile_TrackConnection_Inr:
  assumes "Profile_TrackConnection pki heap now fresh profile conn state = (heap', Inr link)"
    "VerifyPeer host profile state = Inr remote"
  shows "peer_authenticated host pki now profile heap heap' state remote"
  using assms
  by (auto simp: Profile_TrackConnection_def peer_authenticated_def TrackConnection_def VerifyChain_def
      split: option.splits)

lemma Profile_TrackConnection_Inl:
  "Profile_TrackConnection pki heap now fresh profile conn state = (heap', Inl err) \<Longrightarrow> heap' = heap"
  by (auto simp: Profile_TrackConnection_def TrackConnection_def split: option.splits prod.splits sum.splits)

lemma tls_authenticate_Inr:
  assumes "tls_authenticate errs host pki cfg serverName io heap raw inbound = (heap', Inr (link, remote))"
  shows "\<exists>config state. tls_config (cc_Profile cfg) serverName inbound = Some config
    \<and> io_handshake io inbound config raw = Inr state
    \<and> peer_authenticated host pki (io_now io) (cc_Profile cfg) heap heap' state remote"
  using assms by (auto simp: tls_authenticate_def intro: Profile_TrackConnection_Inr
      split: option.splits sum.splits prod.splits)

lemma tls_authenticate_Inl:
  "tls_authenticate errs host pki cfg serverName io heap raw inbound = (heap', Inl err) \<Longrightarrow> heap' = heap"
  by (auto simp: tls_authenticate_def dest: Profile_TrackConnection_Inl split: option.splits sum.splits prod.splits)

lemma carrier_session_identities [simp]:
  "Peer (carrier_session cfg io link remote role h) = remote"
  "LocalIdentity (carrier_session cfg io link remote role h) = cc_Local cfg"
  by (simp_all add: carrier_session_def Peer_def LocalIdentity_def New_def Start_def NewSession_def Let_def
      split: prod.splits)

lemma plain_endpoint:
  "RequireEncryptedEndpointContext host profile endpoint = None \<Longrightarrow> \<not> Encrypted profile \<Longrightarrow>
   loopback_endpoint host endpoint"
proof (cases profile)
  case (Some p)
  then show "RequireEncryptedEndpointContext host profile endpoint = None \<Longrightarrow> \<not> Encrypted profile \<Longrightarrow> ?thesis"
    using RequireEncryptedEndpoint_None[of host p endpoint] by (simp add: Encrypted_def)
qed (simp add: RequireEncryptedEndpointContext_def)

lemma config_protos: "config = config\<lparr>Config_NextProtos := Config_NextProtos config\<rparr>"
  by simp

text \<open>
  The contract of a carrier: \<open>attempt\<close> is one attempt to establish a session, dialing or accepting,
  with the outcomes \<open>io\<close> of its system calls; \<open>shook\<close> says that those include a completed handshake with
  that state under a configuration of the profile. A failed attempt leaves the revocation state
  alone, and a session is only ever built on an authenticated peer or, without encryption, on a
  loopback endpoint and without a peer identity.
\<close>

locale carrier_port =
  fixes host :: host and pki :: pki and profile :: "Profile option" and own :: PeerIdentity
    and attempt :: "'io \<Rightarrow> managers \<Rightarrow> managers \<times> (go_error + ('h, 'v, 'w) Session)"
    and shook :: "'io \<Rightarrow> TLSConfig \<Rightarrow> ConnectionState \<Rightarrow> bool"
    and clock :: "'io \<Rightarrow> instant"
    and local_only :: "'io \<Rightarrow> bool"
  assumes attempt_failed: "attempt io heap = (heap', Inl err) \<Longrightarrow> heap' = heap"
    and attempt_plain: "attempt io heap = (heap', Inr s) \<Longrightarrow> \<not> Encrypted profile \<Longrightarrow>
       heap' = heap \<and> Peer s = no_identity \<and> local_only io"
    and attempt_secure: "attempt io heap = (heap', Inr s) \<Longrightarrow> Encrypted profile \<Longrightarrow>
       \<exists>config state. shook io config state
         \<and> peer_authenticated host pki (clock io) profile heap heap' state (Peer s)"
    and attempt_local: "attempt io heap = (heap', Inr s) \<Longrightarrow> LocalIdentity s = own"
    and shook_config: "shook io config state \<Longrightarrow>
       (\<exists>serverName alpn inbound c. tls_config profile serverName inbound = Some c
          \<and> config = c\<lparr>Config_NextProtos := alpn\<rparr>)"
begin

text \<open>No session with a peer other than the pinned one.\<close>

lemma pinned:
  assumes "attempt io heap = (heap', Inr s)" "profile = Some p" "prof_encrypted p" "prof_pin p \<noteq> []"
  shows "URI (Peer s) = prof_pin p"
  using attempt_secure[OF assms(1)] assms(2-)
  by (auto simp: Encrypted_def peer_authenticated_def VerifyPeer_Inr)

text \<open>No session with a peer whose certificate is revoked, or while a CRL is out of date.\<close>

lemma unrevoked:
  assumes "attempt io heap = (heap', Inr s)" "profile = Some p" "prof_encrypted p" "prof_revocation p = Some r"
  shows "\<exists>config state. shook io config state
    \<and> VerifyChain pki (clock io) (Some (heap r)) (VerifiedChains state) = None
    \<and> rm_active (heap' r) \<noteq> []"
proof -
  obtain config state where "shook io config state"
    and a: "peer_authenticated host pki (clock io) profile heap heap' state (Peer s)"
    using attempt_secure[OF assms(1)] assms(2,3) by (auto simp: Encrypted_def)
  moreover obtain c where "heap' = heap(r := (heap r)\<lparr>rm_active := List.insert c (rm_active (heap r))\<rparr>)"
    "VerifyChain pki (clock io) (Some (heap r)) (VerifiedChains state) = None"
    using a assms(2,4) by (auto simp: peer_authenticated_def)
  moreover have "List.insert c xs \<noteq> []" for xs by (metis List.in_set_insert empty_iff list.set(1) set_insert insertI1)
  ultimately show ?thesis by auto
qed

text \<open>A session is anonymous only without encryption, and then it does not leave the machine.\<close>

lemma anonymous_is_local:
  assumes "attempt io heap = (heap', Inr s)" "\<not> Encrypted profile"
  shows "local_only io \<and> Peer s = no_identity"
  using attempt_plain[OF assms] by simp

end

end
