(* ===== verification/Carrier_TCP.thy ===== *)
theory Carrier_TCP
  imports Carrier_Port
begin

text \<open>The TCP carrier, \<^verbatim>\<open>src/infrastructure/peer/tcp/carrier.go\<close>.\<close>

definition tcp_New :: "host \<Rightarrow> carrier_config \<Rightarrow> go_error + carrier_config" where
  "tcp_New host cfg =
    (if cc_Profile cfg = None then Inl (Plain ''tcp: a security profile is required'')
     else if Encrypted (cc_Profile cfg) \<and> URI (cc_Local cfg) = []
     then Inl (Plain ''tcp: an encrypted carrier requires a local identity'')
     else case (if Encrypted (cc_Profile cfg) then Identity host (URI (cc_Local cfg)) else Inr no_identity) of
            Inl err \<Rightarrow> Inl (Wrap ''tcp: local identity'' err)
          | Inr _ \<Rightarrow>
              Inr (cfg\<lparr>cc_HandshakeTimeout := (if cc_HandshakeTimeout cfg \<le> 0 then defaultHandshakeTimeout
                                                  else cc_HandshakeTimeout cfg),
                       cc_Limits := WithDefaults (cc_Limits cfg)\<rparr>))"

definition tcp_Name :: string where "tcp_Name = ''tcp''"

definition tcp_Profile :: "carrier_config \<Rightarrow> string" where "tcp_Profile cfg = Profile_Name (cc_Profile cfg)"

definition tcp_Encrypted :: "carrier_config \<Rightarrow> bool" where "tcp_Encrypted cfg = Encrypted (cc_Profile cfg)"

definition tcp_Authenticated :: "carrier_config \<Rightarrow> bool" where
  "tcp_Authenticated cfg = Authenticated (cc_Profile cfg)"

definition tcp_serverName :: "carrier_config \<Rightarrow> string \<Rightarrow> string" where
  "tcp_serverName cfg endpoint =
    (if cc_ServerName cfg \<noteq> [] then cc_ServerName cfg
     else case net_SplitHostPort endpoint of None \<Rightarrow> endpoint | Some (h, _) \<Rightarrow> h)"

definition tcp_errors :: stage_errors where
  "tcp_errors = \<lparr>at_deadline = Wrap ''tcp: set handshake deadline'', at_handshake = Wrap ''tcp: handshake'',
     at_clear = Wrap ''tcp: clear handshake deadline''\<rparr>"

definition tcp_authenticate :: "host \<Rightarrow> pki \<Rightarrow> carrier_config \<Rightarrow> string \<Rightarrow> bool \<Rightarrow> carrier_io \<Rightarrow> managers \<Rightarrow> nat
    \<Rightarrow> managers \<times> (go_error + link \<times> PeerIdentity)" where
  "tcp_authenticate host pki cfg endpoint inbound io heap raw =
    (if \<not> Encrypted (cc_Profile cfg) then (heap, Inr (Link raw, no_identity))
     else tls_authenticate tcp_errors host pki cfg (tcp_serverName cfg endpoint) io heap raw inbound)"

definition tcp_Dial :: "host \<Rightarrow> pki \<Rightarrow> carrier_config \<Rightarrow> string \<Rightarrow> 'h option \<Rightarrow> carrier_io \<Rightarrow> managers
    \<Rightarrow> managers \<times> (go_error + ('h, 'v, 'w) Session)" where
  "tcp_Dial host pki cfg endpoint handler io heap =
    (case handler of
       None \<Rightarrow> (heap, Inl (Plain ''tcp: a handler is required''))
     | Some h \<Rightarrow>
         (case RequireEncryptedEndpointContext host (cc_Profile cfg) endpoint of
            Some err \<Rightarrow> (heap, Inl err)
          | None \<Rightarrow>
              (case io_dial io endpoint of
                 Inl err \<Rightarrow> (heap, Inl (Wrap ''tcp: dial'' err))
               | Inr raw \<Rightarrow>
                   (case tcp_authenticate host pki cfg endpoint False io heap raw of
                      (heap', Inl err) \<Rightarrow> (heap', Inl (join_close err (io_close io raw)))
                    | (heap', Inr (link, remote)) \<Rightarrow>
                        (heap', Inr (carrier_session cfg io link remote RoleClient h))))))"

record 'h tcp_listener =
  tl_carrier :: carrier_config
  tl_socket :: nat
  tl_handler :: 'h

definition tcp_Listen :: "host \<Rightarrow> carrier_config \<Rightarrow> string \<Rightarrow> 'h option \<Rightarrow> (string \<Rightarrow> go_error + nat)
    \<Rightarrow> go_error + 'h tcp_listener" where
  "tcp_Listen host cfg endpoint handler listen =
    (case handler of
       None \<Rightarrow> Inl (Plain ''tcp: a handler is required'')
     | Some h \<Rightarrow>
         (case RequireEncryptedEndpoint host (cc_Profile cfg) endpoint of
            Some err \<Rightarrow> Inl err
          | None \<Rightarrow>
              (case listen endpoint of
                 Inl err \<Rightarrow> Inl (Wrap ''tcp: listen'' err)
               | Inr socket \<Rightarrow> Inr \<lparr>tl_carrier = cfg, tl_socket = socket, tl_handler = h\<rparr>)))"

definition tcp_Accept :: "host \<Rightarrow> pki \<Rightarrow> 'h tcp_listener \<Rightarrow> managers \<Rightarrow> accept_round list
    \<Rightarrow> managers \<times> ('h, 'v, 'w) Session accepted" where
  "tcp_Accept host pki l =
    accept_loop (Wrap ''tcp: accept'') (tcp_authenticate host pki (tl_carrier l) [] True)
      (\<lambda>io link remote. carrier_session (tl_carrier l) io link remote RoleServer (tl_handler l))"

text \<open>\<open>bound\<close> is the address the socket reports.\<close>

definition tcp_Addr :: "(nat \<Rightarrow> string) \<Rightarrow> 'h tcp_listener \<Rightarrow> string" where "tcp_Addr bound l = bound (tl_socket l)"

text \<open>\<^verbatim>\<open>Close\<close>, given what the socket's own \<^verbatim>\<open>Close\<close> returned.\<close>

definition tcp_Close :: "go_error option \<Rightarrow> go_error option" where
  "tcp_Close err = (if err_is err NetErrClosed then None else err)"

section \<open>The carrier contract\<close>

lemma tcp_authenticate_Inl: "tcp_authenticate host pki cfg endpoint inbound io heap raw = (heap', Inl err) \<Longrightarrow> heap' = heap"
  by (auto simp: tcp_authenticate_def dest: tls_authenticate_Inl split: if_splits)

text \<open>One accepted connection of a listener bound to \<open>endpoint\<close>.\<close>

definition tcp_serve :: "host \<Rightarrow> pki \<Rightarrow> carrier_config \<Rightarrow> string \<Rightarrow> 'h option \<Rightarrow> (string \<Rightarrow> go_error + nat) \<times> nat \<times> carrier_io
    \<Rightarrow> managers \<Rightarrow> managers \<times> (go_error + ('h, 'v, 'w) Session)" where
  "tcp_serve host pki cfg endpoint handler env heap =
    (case env of (listen, raw, io) \<Rightarrow>
     case tcp_Listen host cfg endpoint handler listen of
       Inl err \<Rightarrow> (heap, Inl err)
     | Inr l \<Rightarrow>
         (case tcp_Accept host pki l heap [\<lparr>ar_ctx = None, ar_accept = Inr raw, ar_io = io\<rparr>] of
            (heap', Session s) \<Rightarrow> (heap', Inr s)
          | (heap', Refused err) \<Rightarrow> (heap', Inl err)
          | (heap', Waiting) \<Rightarrow> (heap', Inl (Plain ''still waiting''))))"

interpretation tcp_dialer: carrier_port host pki "cc_Profile cfg" "cc_Local cfg" "tcp_Dial host pki cfg endpoint handler"
  "\<lambda>io config state. \<exists>raw. tls_config (cc_Profile cfg) (tcp_serverName cfg endpoint) False = Some config
     \<and> io_handshake io False config raw = Inr state"
  io_now "\<lambda>io. loopback_endpoint host endpoint" for host pki cfg endpoint handler
proof (unfold_locales, goal_cases)
  case (1 io heap heap' err)
  then show ?case by (auto simp: tcp_Dial_def dest: tcp_authenticate_Inl split: option.splits sum.splits prod.splits)
next
  case (2 io heap heap' s)
  then show ?case
    by (auto simp: tcp_Dial_def tcp_authenticate_def intro: plain_endpoint split: option.splits sum.splits prod.splits)
next
  case (3 io heap heap' s)
  then show ?case
    by (fastforce simp: tcp_Dial_def tcp_authenticate_def dest: tls_authenticate_Inr split: option.splits sum.splits prod.splits)
next
  case (4 io heap heap' s)
  then show ?case by (auto simp: tcp_Dial_def split: option.splits sum.splits prod.splits)
next
  case (5 io config state)
  then show ?case by (metis config_protos)
qed

lemma tcp_Accept_one:
  assumes "tcp_serve host pki cfg endpoint handler (listen, raw, io) heap = (heap', Inr s)"
  obtains h link remote where "handler = Some h" "RequireEncryptedEndpointContext host (cc_Profile cfg) endpoint = None"
    "tcp_authenticate host pki cfg [] True io heap raw = (heap', Inr (link, remote))"
    "s = carrier_session cfg io link remote RoleServer h"
  using assms
  by (auto simp: tcp_serve_def tcp_Listen_def tcp_Accept_def RequireEncryptedEndpoint_def
      split: option.splits sum.splits prod.splits accepted.splits if_splits)

interpretation tcp_acceptor: carrier_port host pki "cc_Profile cfg" "cc_Local cfg" "tcp_serve host pki cfg endpoint handler"
  "\<lambda>(listen, raw, io) config state. tls_config (cc_Profile cfg) [] True = Some config
     \<and> io_handshake io True config raw = Inr state"
  "\<lambda>(listen, raw, io). io_now io" "\<lambda>io. loopback_endpoint host endpoint" for host pki cfg endpoint handler
proof (unfold_locales, goal_cases)
  case (1 env heap heap' err)
  then show ?case
    by (auto simp: tcp_serve_def tcp_Accept_def dest: tcp_authenticate_Inl
        split: option.splits sum.splits prod.splits accepted.splits if_splits)
next
  case (2 env heap heap' s)
  then show ?case
    by (cases env) (auto elim!: tcp_Accept_one simp: tcp_authenticate_def intro: plain_endpoint)
next
  case (3 env heap heap' s)
  then show ?case
    by (cases env) (auto elim!: tcp_Accept_one simp: tcp_authenticate_def tls_config_def dest!: tls_authenticate_Inr)
next
  case (4 env heap heap' s)
  then show ?case by (cases env) (auto elim!: tcp_Accept_one)
next
  case (5 env config state)
  then show ?case by (cases env) (simp, metis config_protos)
qed

text \<open>The constructor takes the profile that authenticates nobody; the endpoint rules keep it on the loopback interface.\<close>

lemma tcp_New_plaintext: "cc_Profile cfg = Some LoopbackPlaintext \<Longrightarrow> \<exists>c. tcp_New host cfg = Inr c \<and> \<not> Authenticated (cc_Profile c)"
  by (simp add: tcp_New_def LoopbackPlaintext_def Encrypted_def Authenticated_def)

end
