(* ===== verification/Carrier_Quic.thy ===== *)
theory Carrier_Quic
  imports Carrier_Port
begin

text \<open>
  The QUIC carrier, \<^verbatim>\<open>src/infrastructure/peer/quic/carrier.go\<close>. The functions of \<^verbatim>\<open>quic-go\<close> are fields of a
  record \<open>q\<close>: it completes the TLS handshake itself, under the configuration it is given, and reports the
  connection state.
\<close>

abbreviation (input) quic_Name :: string where "quic_Name \<equiv> ''quic''"
abbreviation (input) ALPN :: string where "ALPN \<equiv> ''liapoldus-peer/1''"

record quic_config = carrier_config +
  qc_MaxIdleTimeout :: int

record quicgo_Config =
  MaxIdleTimeout :: int
  HandshakeIdleTimeout :: int
  KeepAlivePeriod :: int
  MaxIncomingStreams :: int
  MaxIncomingUniStreams :: int

record quic_io =
  q_dial :: "string \<Rightarrow> TLSConfig \<Rightarrow> quicgo_Config \<Rightarrow> go_error + nat \<times> ConnectionState"
  q_openStream :: "nat \<Rightarrow> go_error + nat"
  q_acceptStream :: "nat \<Rightarrow> go_error + nat"
  q_closeConnection :: "nat \<Rightarrow> go_error option"
  q_closeStream :: "nat \<Rightarrow> go_error option"
  q_io :: carrier_io

definition quic_New :: "host \<Rightarrow> quic_config \<Rightarrow> go_error + quic_config" where
  "quic_New host cfg =
    (if cc_Profile cfg = None then Inl (Plain ''quic: a security profile is required'')
     else if \<not> Encrypted (cc_Profile cfg) \<or> \<not> Authenticated (cc_Profile cfg)
     then Inl (Plain (''quic: the profile is not available on this carrier: '' @ Profile_Name (cc_Profile cfg)))
     else if URI (cc_Local cfg) = [] then Inl (Plain ''quic: a local identity is required'')
     else case Identity host (URI (cc_Local cfg)) of
            Inl err \<Rightarrow> Inl (Wrap ''quic: local identity'' err)
          | Inr _ \<Rightarrow>
              Inr (cfg\<lparr>cc_HandshakeTimeout := (if cc_HandshakeTimeout cfg \<le> 0 then defaultHandshakeTimeout
                                                  else cc_HandshakeTimeout cfg),
                       qc_MaxIdleTimeout := (if qc_MaxIdleTimeout cfg \<le> 0 then 30 * time_second
                                             else qc_MaxIdleTimeout cfg),
                       cc_Limits := WithDefaults (cc_Limits cfg)\<rparr>))"

definition quic_Profile :: "quic_config \<Rightarrow> string" where "quic_Profile cfg = Profile_Name (cc_Profile cfg)"

definition quic_Encrypted :: "quic_config \<Rightarrow> bool" where "quic_Encrypted cfg = Encrypted (cc_Profile cfg)"

definition quic_Authenticated :: "quic_config \<Rightarrow> bool" where
  "quic_Authenticated cfg = Authenticated (cc_Profile cfg)"

definition quicConfig :: "quic_config \<Rightarrow> quicgo_Config" where
  "quicConfig cfg = \<lparr>MaxIdleTimeout = qc_MaxIdleTimeout cfg, HandshakeIdleTimeout = cc_HandshakeTimeout cfg,
     KeepAlivePeriod = cc_KeepAlive cfg, MaxIncomingStreams = 1, MaxIncomingUniStreams = - 1\<rparr>"

definition quic_serverName :: "quic_config \<Rightarrow> string \<Rightarrow> string" where
  "quic_serverName cfg endpoint =
    (if cc_ServerName cfg \<noteq> [] then cc_ServerName cfg
     else case net_SplitHostPort endpoint of None \<Rightarrow> endpoint | Some (h, _) \<Rightarrow> h)"

section \<open>The transport\<close>

record quic_transport =
  qt_stream :: nat
  qt_connection :: nat
  qt_once :: bool
  qt_err :: "go_error option"

definition newTransport :: "nat \<Rightarrow> nat \<Rightarrow> quic_transport" where
  "newTransport connection stream = \<lparr>qt_stream = stream, qt_connection = connection, qt_once = False, qt_err = None\<rparr>"

definition transport_SetDeadline :: "go_error option \<Rightarrow> go_error option \<Rightarrow> go_error option" where
  "transport_SetDeadline readDeadline writeDeadline =
    (case readDeadline of Some err \<Rightarrow> Some err | None \<Rightarrow> writeDeadline)"

definition transport_Close :: "quic_io \<Rightarrow> quic_transport \<Rightarrow> quic_transport \<times> go_error option" where
  "transport_Close q t =
    (if qt_once t then (t, qt_err t)
     else let err = errors_Join [q_closeStream q (qt_stream t), q_closeConnection q (qt_connection t)]
          in (t\<lparr>qt_once := True, qt_err := err\<rparr>, err))"

section \<open>Sessions\<close>

definition quic_session :: "pki \<Rightarrow> quic_config \<Rightarrow> quic_io \<Rightarrow> managers \<Rightarrow> quic_transport \<Rightarrow> ConnectionState \<Rightarrow> PeerIdentity
    \<Rightarrow> Role \<Rightarrow> 'h \<Rightarrow> managers \<times> (go_error + ('h, 'v, 'w) Session)" where
  "quic_session pki cfg q heap t state remote role handler =
    (case Profile_TrackConnection pki heap (io_now (q_io q)) (io_fresh (q_io q)) (cc_Profile cfg) (qt_connection t) state of
       (heap', Inl err) \<Rightarrow> (heap', Inl (join_close err (snd (transport_Close q t))))
     | (heap', Inr tracked) \<Rightarrow> (heap', Inr (carrier_session cfg (q_io q) tracked remote role handler)))"

definition quic_Dial :: "host \<Rightarrow> pki \<Rightarrow> quic_config \<Rightarrow> string \<Rightarrow> 'h option \<Rightarrow> quic_io \<Rightarrow> managers
    \<Rightarrow> managers \<times> (go_error + ('h, 'v, 'w) Session)" where
  "quic_Dial host pki cfg endpoint handler q heap =
    (case handler of
       None \<Rightarrow> (heap, Inl (Plain ''quic: a handler is required''))
     | Some h \<Rightarrow>
         (case RequireEncryptedEndpointContext host (cc_Profile cfg) endpoint of
            Some err \<Rightarrow> (heap, Inl err)
          | None \<Rightarrow>
              (case tls_config (cc_Profile cfg) (quic_serverName cfg endpoint) False of
                 None \<Rightarrow> (heap, Inl (Plain ''tls: no configuration''))
               | Some client \<Rightarrow>
                   (case q_dial q endpoint (client\<lparr>Config_NextProtos := [ALPN]\<rparr>) (quicConfig cfg) of
                      Inl err \<Rightarrow> (heap, Inl (Wrap ''quic: dial'' err))
                    | Inr (connection, state) \<Rightarrow>
                        (case VerifyPeer host (cc_Profile cfg) state of
                           Inl err \<Rightarrow> (heap, Inl (join_close err (q_closeConnection q connection)))
                         | Inr remote \<Rightarrow>
                             (case q_openStream q connection of
                                Inl err \<Rightarrow> (heap, Inl (join_close (Wrap ''quic: open session stream'' err)
                                                           (q_closeConnection q connection)))
                              | Inr stream \<Rightarrow>
                                  (case quic_session pki cfg q heap (newTransport connection stream) state remote RoleClient h of
                                     (heap', Inl err) \<Rightarrow> (heap', Inl (join_close err (q_closeConnection q connection)))
                                   | (heap', Inr s) \<Rightarrow> (heap', Inr s))))))))"

record 'h quic_listener =
  ql_carrier :: quic_config
  ql_socket :: nat
  ql_handler :: 'h

text \<open>\<open>listen\<close> is \<^verbatim>\<open>quicgo.ListenAddr\<close>; the socket it returns completes handshakes under that configuration.\<close>

definition quic_Listen :: "host \<Rightarrow> quic_config \<Rightarrow> (string \<Rightarrow> TLSConfig \<Rightarrow> quicgo_Config \<Rightarrow> go_error + nat) \<Rightarrow> string
    \<Rightarrow> 'h option \<Rightarrow> go_error + 'h quic_listener" where
  "quic_Listen host cfg listen endpoint handler =
    (case handler of
       None \<Rightarrow> Inl (Plain ''quic: a handler is required'')
     | Some h \<Rightarrow>
         (case RequireEncryptedEndpoint host (cc_Profile cfg) endpoint of
            Some err \<Rightarrow> Inl err
          | None \<Rightarrow>
              (case tls_config (cc_Profile cfg) [] True of
                 None \<Rightarrow> Inl (Plain ''tls: no configuration'')
               | Some server \<Rightarrow>
                   (case listen endpoint (server\<lparr>Config_NextProtos := [ALPN]\<rparr>) (quicConfig cfg) of
                      Inl err \<Rightarrow> Inl (Wrap ''quic: listen'' err)
                    | Inr socket \<Rightarrow> Inr \<lparr>ql_carrier = cfg, ql_socket = socket, ql_handler = h\<rparr>))))"

datatype quic_accepted = QServerClosed | QAcceptFailed go_error | QAccepted nat ConnectionState

record quic_round =
  qr_ctx :: "go_error option"
  qr_accept :: quic_accepted
  qr_q :: quic_io

text \<open>After a rejected connection: the loop goes on unless closing it failed.\<close>

definition quic_rejected :: "quic_io \<Rightarrow> nat \<Rightarrow> managers \<Rightarrow> managers \<times> 's accepted \<Rightarrow> managers \<times> 's accepted" where
  "quic_rejected q connection heap continue =
    (case q_closeConnection q connection of Some closeErr \<Rightarrow> (heap, Refused closeErr) | None \<Rightarrow> continue)"

fun quic_Accept :: "host \<Rightarrow> pki \<Rightarrow> 'h quic_listener \<Rightarrow> managers \<Rightarrow> quic_round list
    \<Rightarrow> managers \<times> ('h, 'v, 'w) Session accepted" where
  "quic_Accept host pki l heap [] = (heap, Waiting)"
| "quic_Accept host pki l heap (r # rs) =
    (case qr_ctx r of
       Some err \<Rightarrow> (heap, Refused err)
     | None \<Rightarrow>
         (case qr_accept r of
            QServerClosed \<Rightarrow> (heap, Refused (Sentinel ErrConnectionClosed))
          | QAcceptFailed err \<Rightarrow> (heap, Refused (Wrap ''quic: accept'' err))
          | QAccepted connection state \<Rightarrow>
              (case q_acceptStream (qr_q r) connection of
                 Inl _ \<Rightarrow> quic_rejected (qr_q r) connection heap (quic_Accept host pki l heap rs)
               | Inr stream \<Rightarrow>
                   (case VerifyPeer host (cc_Profile (ql_carrier l)) state of
                      Inl _ \<Rightarrow> quic_rejected (qr_q r) connection heap (quic_Accept host pki l heap rs)
                    | Inr remote \<Rightarrow>
                        (case quic_session pki (ql_carrier l) (qr_q r) heap (newTransport connection stream) state remote
                                RoleServer (ql_handler l) of
                           (heap', Inl _) \<Rightarrow> quic_rejected (qr_q r) connection heap' (quic_Accept host pki l heap' rs)
                         | (heap', Inr s) \<Rightarrow> (heap', Session s))))))"

definition quic_Addr :: "(nat \<Rightarrow> string) \<Rightarrow> 'h quic_listener \<Rightarrow> string" where "quic_Addr bound l = bound (ql_socket l)"

datatype quic_close = QClosed | QAlreadyClosed | QCloseFailed go_error

definition quic_Close :: "quic_close \<Rightarrow> go_error option" where
  "quic_Close outcome = (case outcome of QCloseFailed err \<Rightarrow> Some err | _ \<Rightarrow> None)"

section \<open>The carrier contract\<close>

text \<open>A carrier from \<^verbatim>\<open>New\<close>, used to dial, or to listen and accept one connection.\<close>

definition quic_connect :: "host \<Rightarrow> pki \<Rightarrow> quic_config \<Rightarrow> string \<Rightarrow> 'h option \<Rightarrow> quic_io \<Rightarrow> managers
    \<Rightarrow> managers \<times> (go_error + ('h, 'v, 'w) Session)" where
  "quic_connect host pki cfg endpoint handler q heap =
    (case quic_New host cfg of
       Inl err \<Rightarrow> (heap, Inl err)
     | Inr carrier \<Rightarrow> quic_Dial host pki carrier endpoint handler q heap)"

lemma quic_New_Inr:
  "quic_New host cfg = Inr carrier \<Longrightarrow> Encrypted (cc_Profile cfg) \<and> Authenticated (cc_Profile cfg)
     \<and> cc_Profile carrier = cc_Profile cfg \<and> cc_Local carrier = cc_Local cfg \<and> cc_ServerName carrier = cc_ServerName cfg"
  by (auto simp: quic_New_def split: if_splits sum.splits)

lemma quic_session_Inl:
  "quic_session pki cfg q heap t state remote role h = (heap', Inl err) \<Longrightarrow> heap' = heap"
  by (auto simp: quic_session_def dest: Profile_TrackConnection_Inl split: prod.splits sum.splits)

lemma quic_session_Inr:
  assumes "quic_session pki cfg q heap t state remote role h = (heap', Inr s)" "VerifyPeer host (cc_Profile cfg) state = Inr remote"
  shows "peer_authenticated host pki (io_now (q_io q)) (cc_Profile cfg) heap heap' state (Peer s)
    \<and> LocalIdentity s = cc_Local cfg"
  using assms Profile_TrackConnection_Inr
  by (auto simp: quic_session_def split: prod.splits sum.splits)

interpretation quic_dialer: carrier_port host pki "cc_Profile cfg" "cc_Local cfg" "quic_connect host pki cfg endpoint handler"
  "\<lambda>q config state. \<exists>client quicgo connection. tls_config (cc_Profile cfg) (quic_serverName cfg endpoint) False = Some client
     \<and> config = client\<lparr>Config_NextProtos := [ALPN]\<rparr> \<and> q_dial q endpoint config quicgo = Inr (connection, state)"
  "\<lambda>q. io_now (q_io q)" "\<lambda>q. False" for host pki cfg endpoint handler
proof (unfold_locales, goal_cases)
  case (1 q heap heap' err)
  then show ?case
    by (auto simp: quic_connect_def quic_Dial_def dest: quic_session_Inl split: option.splits sum.splits prod.splits)
next
  case (2 q heap heap' s)
  then show ?case by (auto simp: quic_connect_def dest: quic_New_Inr split: sum.splits)
next
  case (3 q heap heap' s)
  then obtain carrier h client connection state remote stream where
    new: "quic_New host cfg = Inr carrier" and
    cl: "tls_config (cc_Profile carrier) (quic_serverName carrier endpoint) False = Some client" and
    d: "q_dial q endpoint (client\<lparr>Config_NextProtos := [ALPN]\<rparr>) (quicConfig carrier) = Inr (connection, state)" and
    v: "VerifyPeer host (cc_Profile carrier) state = Inr remote" and
    s: "quic_session pki carrier q heap (newTransport connection stream) state remote RoleClient h = (heap', Inr s)"
    by (auto simp: quic_connect_def quic_Dial_def split: option.splits sum.splits prod.splits)
  have same: "cc_Profile carrier = cc_Profile cfg" "quic_serverName carrier endpoint = quic_serverName cfg endpoint"
    using quic_New_Inr[OF new] by (simp_all add: quic_serverName_def)
  show ?case using cl d quic_session_Inr[OF s v] unfolding same by blast
next
  case (4 q heap heap' s)
  then show ?case
    by (auto simp: quic_connect_def quic_Dial_def dest!: quic_New_Inr dest: quic_session_Inr
        split: option.splits sum.splits prod.splits)
next
  case (5 q config state)
  then show ?case by blast
qed

definition quic_serve :: "host \<Rightarrow> pki \<Rightarrow> quic_config \<Rightarrow> string \<Rightarrow> 'h option
    \<Rightarrow> (string \<Rightarrow> TLSConfig \<Rightarrow> quicgo_Config \<Rightarrow> go_error + nat) \<times> (TLSConfig \<Rightarrow> nat \<times> ConnectionState) \<times> quic_io
    \<Rightarrow> managers \<Rightarrow> managers \<times> (go_error + ('h, 'v, 'w) Session)" where
  "quic_serve host pki cfg endpoint handler env heap =
    (case env of (listen, arrived, q) \<Rightarrow>
     case quic_New host cfg of
       Inl err \<Rightarrow> (heap, Inl err)
     | Inr carrier \<Rightarrow>
         (case quic_Listen host carrier listen endpoint handler of
            Inl err \<Rightarrow> (heap, Inl err)
          | Inr l \<Rightarrow>
              (case tls_config (cc_Profile carrier) [] True of
                 None \<Rightarrow> (heap, Inl (Plain ''tls: no configuration''))
               | Some server \<Rightarrow>
                   (case arrived (server\<lparr>Config_NextProtos := [ALPN]\<rparr>) of (connection, state) \<Rightarrow>
                    case quic_Accept host pki l heap [\<lparr>qr_ctx = None, qr_accept = QAccepted connection state, qr_q = q\<rparr>] of
                      (heap', Session s) \<Rightarrow> (heap', Inr s)
                    | (heap', Refused err) \<Rightarrow> (heap', Inl err)
                    | (heap', Waiting) \<Rightarrow> (heap', Inl (Plain ''still waiting''))))))"

lemma quic_serve_Inr:
  assumes "quic_serve host pki cfg endpoint handler (listen, arrived, q) heap = (heap', Inr s)"
  obtains carrier server connection state remote stream h where "quic_New host cfg = Inr carrier"
    "tls_config (cc_Profile carrier) [] True = Some server"
    "arrived (server\<lparr>Config_NextProtos := [ALPN]\<rparr>) = (connection, state)"
    "VerifyPeer host (cc_Profile carrier) state = Inr remote"
    "quic_session pki carrier q heap (newTransport connection stream) state remote RoleServer h = (heap', Inr s)"
  using assms
  by (auto simp: quic_serve_def quic_Listen_def quic_rejected_def
      split: option.splits sum.splits prod.splits accepted.splits)

interpretation quic_acceptor: carrier_port host pki "cc_Profile cfg" "cc_Local cfg" "quic_serve host pki cfg endpoint handler"
  "\<lambda>(listen, arrived, q) config state. \<exists>server connection. tls_config (cc_Profile cfg) [] True = Some server
     \<and> config = server\<lparr>Config_NextProtos := [ALPN]\<rparr> \<and> arrived config = (connection, state)"
  "\<lambda>(listen, arrived, q). io_now (q_io q)" "\<lambda>q. False" for host pki cfg endpoint handler
proof (unfold_locales, goal_cases)
  case (1 env heap heap' err)
  then show ?case
    by (cases env) (auto simp: quic_serve_def quic_rejected_def dest: quic_session_Inl
        split: option.splits sum.splits prod.splits accepted.splits)
next
  case (2 env heap heap' s)
  then show ?case by (cases env) (auto elim!: quic_serve_Inr dest: quic_New_Inr)
next
  case (3 env heap heap' s)
  obtain listen arrived q where env: "env = (listen, arrived, q)" by (cases env) auto
  from 3(1)[unfolded env] show ?case
  proof (rule quic_serve_Inr)
    fix carrier server connection state remote stream h
    assume new: "quic_New host cfg = Inr carrier" and cfg: "tls_config (cc_Profile carrier) [] True = Some server"
      "arrived (server\<lparr>Config_NextProtos := [ALPN]\<rparr>) = (connection, state)"
      and v: "VerifyPeer host (cc_Profile carrier) state = Inr remote"
      and s: "quic_session pki carrier q heap (newTransport connection stream) state remote RoleServer h = (heap', Inr s)"
    show ?case
      using cfg quic_session_Inr[OF s v] quic_New_Inr[OF new] unfolding env by auto
  qed
next
  case (4 env heap heap' s)
  then show ?case by (cases env) (auto elim!: quic_serve_Inr dest!: quic_New_Inr dest: quic_session_Inr)
next
  case (5 env config state)
  then show ?case by (cases env) auto
qed

end
