(* ===== verification/Carrier_Unix.thy ===== *)
theory Carrier_Unix
  imports Carrier_Port
begin

text \<open>
  The Unix domain socket carrier, \<^verbatim>\<open>src/infrastructure/peer/unix/carrier.go\<close>. The file system calls are
  fields of a record \<open>fs\<close>; \<^verbatim>\<open>Lstat\<close> is called twice and may answer differently. What the code did to the
  file system is a list of effects. Paths are the slash-separated paths of a Unix host.
\<close>

abbreviation (input) unix_Name :: string where "unix_Name \<equiv> ''unix''"

definition unix_New :: "host \<Rightarrow> carrier_config \<Rightarrow> go_error + carrier_config" where
  "unix_New host cfg =
    (if cc_Profile cfg = None \<or> \<not> Encrypted (cc_Profile cfg) \<or> \<not> Authenticated (cc_Profile cfg)
     then Inl (Plain ''unix: authenticated mTLS is required'')
     else if URI (cc_Local cfg) = [] then Inl (Plain ''unix: a local peer identity is required'')
     else if strings_TrimSpace (cc_ServerName cfg) = [] then Inl (Plain ''unix: a TLS server name is required'')
     else case Identity host (URI (cc_Local cfg)) of
            Inl err \<Rightarrow> Inl (Wrap ''unix: local identity'' err)
          | Inr _ \<Rightarrow>
              Inr (cfg\<lparr>cc_HandshakeTimeout := (if cc_HandshakeTimeout cfg \<le> 0 then defaultHandshakeTimeout
                                                  else cc_HandshakeTimeout cfg),
                       cc_Limits := WithDefaults (cc_Limits cfg)\<rparr>))"

definition unix_Profile :: "carrier_config \<Rightarrow> string" where "unix_Profile cfg = Profile_Name (cc_Profile cfg)"

definition unix_Encrypted :: "carrier_config \<Rightarrow> bool" where "unix_Encrypted cfg = True"

definition unix_Authenticated :: "carrier_config \<Rightarrow> bool" where "unix_Authenticated cfg = True"

section \<open>Paths\<close>

fun split_on :: "char \<Rightarrow> string \<Rightarrow> string list" where
  "split_on c [] = [[]]"
| "split_on c (x # s) =
    (if x = c then [] # split_on c s
     else case split_on c s of [] \<Rightarrow> [[x]] | w # ws \<Rightarrow> (x # w) # ws)"

fun clean_components :: "string list \<Rightarrow> string list \<Rightarrow> string list" where
  "clean_components stack [] = rev stack"
| "clean_components stack (w # ws) =
    (if w = [] \<or> w = ''.'' then clean_components stack ws
     else if w = ''..'' then clean_components (tl stack) ws
     else clean_components (w # stack) ws)"

definition join_path :: "string list \<Rightarrow> string" where
  "join_path ws = (if ws = [] then ''/'' else concat (map (\<lambda>w. CHR ''/'' # w) ws))"

text \<open>\<^verbatim>\<open>filepath.IsAbs\<close>, \<^verbatim>\<open>Clean\<close> and \<^verbatim>\<open>Dir\<close>; the last two on absolute paths only.\<close>

definition filepath_IsAbs :: "string \<Rightarrow> bool" where
  "filepath_IsAbs path = strings_HasPrefix path ''/''"

definition filepath_Clean :: "string \<Rightarrow> string" where
  "filepath_Clean path = join_path (clean_components [] (split_on (CHR ''/'') path))"

definition filepath_Dir :: "string \<Rightarrow> string" where
  "filepath_Dir path =
    filepath_Clean (case last_index (CHR ''/'') path of None \<Rightarrow> [] | Some i \<Rightarrow> take (Suc i) path)"

definition socketPath :: "host \<Rightarrow> string \<Rightarrow> go_error + string" where
  "socketPath host endpoint =
    (case url_Parse host endpoint of
       Inl _ \<Rightarrow> Inl (Plain ''unix: endpoint must be unix:///absolute/path'')
     | Inr parsed \<Rightarrow>
         if URL_Scheme parsed \<noteq> unix_Name \<or> URL_Host parsed \<noteq> [] \<or> URL_User parsed \<noteq> None
            \<or> URL_RawQuery parsed \<noteq> [] \<or> URL_Fragment parsed \<noteq> []
         then Inl (Plain ''unix: endpoint must be unix:///absolute/path'')
         else if \<not> filepath_IsAbs (URL_Path parsed) \<or> index_byte (CHR 0x00) (URL_Path parsed) \<noteq> None
         then Inl (Plain ''unix: endpoint path must be absolute'')
         else Inr (filepath_Clean (URL_Path parsed)))"

section \<open>The file system\<close>

datatype lstat = NotExist | LstatFailed | FileInfo bool nat
datatype probe_result = AlreadyServing "go_error option" | ConnRefused | ProbeFailed

record unix_fs =
  fs_Stat :: "string \<Rightarrow> (bool \<times> u32) option"
  fs_Lstat :: "string \<Rightarrow> lstat"
  fs_LstatAgain :: "string \<Rightarrow> lstat"
  fs_probe :: "string \<Rightarrow> probe_result"
  fs_Remove :: "string \<Rightarrow> bool"
  fs_ListenUnix :: "string \<Rightarrow> go_error + nat"
  fs_Chmod :: "string \<Rightarrow> u32 \<Rightarrow> bool"
  fs_CloseSocket :: "nat \<Rightarrow> go_error option"

datatype fs_effect = Removed string | Bound string | Chmodded string u32 | SocketClosed nat

abbreviation (input) socketMode :: u32 where "socketMode \<equiv> 0x180"

definition validateParent :: "unix_fs \<Rightarrow> string \<Rightarrow> go_error option" where
  "validateParent fs path =
    (case fs_Stat fs (filepath_Dir path) of
       None \<Rightarrow> Some (Plain ''unix: socket parent must be an existing directory'')
     | Some (isDir, perm) \<Rightarrow>
         if \<not> isDir then Some (Plain ''unix: socket parent must be an existing directory'')
         else if perm AND 0x12 \<noteq> 0 then Some (Plain ''unix: socket parent must not be group- or world-writable'')
         else None)"

definition removeStaleSocket :: "unix_fs \<Rightarrow> string \<Rightarrow> fs_effect list \<times> go_error option" where
  "removeStaleSocket fs path =
    (case fs_Lstat fs path of
       NotExist \<Rightarrow> ([], None)
     | LstatFailed \<Rightarrow> ([], Some (Plain ''unix: cannot inspect socket path''))
     | FileInfo isSocket before \<Rightarrow>
         if \<not> isSocket then ([], Some (Plain ''unix: refusing to replace a non-socket path''))
         else (case fs_probe fs path of
                 AlreadyServing closeErr \<Rightarrow> ([], Some (join_close (Plain ''unix: socket path is already serving'') closeErr))
               | ProbeFailed \<Rightarrow> ([], Some (Plain ''unix: existing socket path is not safely removable''))
               | ConnRefused \<Rightarrow>
                   (case fs_LstatAgain fs path of
                      FileInfo isSocket' after \<Rightarrow>
                        if before \<noteq> after \<or> \<not> isSocket'
                        then ([], Some (Plain ''unix: socket path changed during stale-socket check''))
                        else if \<not> fs_Remove fs path then ([], Some (Plain ''unix: cannot remove stale socket''))
                        else ([Removed path], None)
                    | _ \<Rightarrow> ([], Some (Plain ''unix: socket path changed during stale-socket check'')))))"

section \<open>Dialing and listening\<close>

definition unix_errors :: stage_errors where
  "unix_errors = \<lparr>at_deadline = (\<lambda>_. Plain ''unix: cannot set handshake deadline''),
     at_handshake = Wrap ''unix: mTLS handshake failed'',
     at_clear = (\<lambda>_. Plain ''unix: cannot clear handshake deadline'')\<rparr>"

definition unix_authenticate :: "host \<Rightarrow> pki \<Rightarrow> carrier_config \<Rightarrow> bool \<Rightarrow> carrier_io \<Rightarrow> managers \<Rightarrow> nat
    \<Rightarrow> managers \<times> (go_error + link \<times> PeerIdentity)" where
  "unix_authenticate host pki cfg inbound io heap raw =
    tls_authenticate unix_errors host pki cfg (cc_ServerName cfg) io heap raw inbound"

definition unix_Dial :: "host \<Rightarrow> pki \<Rightarrow> carrier_config \<Rightarrow> string \<Rightarrow> 'h option \<Rightarrow> carrier_io \<Rightarrow> managers
    \<Rightarrow> managers \<times> (go_error + ('h, 'v, 'w) Session)" where
  "unix_Dial host pki cfg endpoint handler io heap =
    (case handler of
       None \<Rightarrow> (heap, Inl (Plain ''unix: a handler is required''))
     | Some h \<Rightarrow>
         (case socketPath host endpoint of
            Inl err \<Rightarrow> (heap, Inl err)
          | Inr path \<Rightarrow>
              (case io_dial io path of
                 Inl err \<Rightarrow> (heap, Inl (Wrap ''unix: dial failed'' err))
               | Inr raw \<Rightarrow>
                   (case unix_authenticate host pki cfg False io heap raw of
                      (heap', Inl err) \<Rightarrow> (heap', Inl (join_close err (io_close io raw)))
                    | (heap', Inr (link, remote)) \<Rightarrow>
                        (heap', Inr (carrier_session cfg io link remote RoleClient h))))))"

record 'h unix_listener =
  ul_carrier :: carrier_config
  ul_socket :: nat
  ul_handler :: 'h
  ul_endpoint :: string

definition unix_Listen :: "host \<Rightarrow> unix_fs \<Rightarrow> carrier_config \<Rightarrow> string \<Rightarrow> 'h option
    \<Rightarrow> fs_effect list \<times> (go_error + 'h unix_listener)" where
  "unix_Listen host fs cfg endpoint handler =
    (case handler of
       None \<Rightarrow> ([], Inl (Plain ''unix: a handler is required''))
     | Some h \<Rightarrow>
         (case socketPath host endpoint of
            Inl err \<Rightarrow> ([], Inl err)
          | Inr path \<Rightarrow>
              (case validateParent fs path of
                 Some err \<Rightarrow> ([], Inl err)
               | None \<Rightarrow>
                   (case removeStaleSocket fs path of
                      (done, Some err) \<Rightarrow> (done, Inl err)
                    | (done, None) \<Rightarrow>
                        (case fs_ListenUnix fs path of
                           Inl err \<Rightarrow> (done, Inl (Wrap ''unix: listen failed'' err))
                         | Inr socket \<Rightarrow>
                             if \<not> fs_Chmod fs path socketMode
                             then (done @ [Bound path, SocketClosed socket],
                                   Inl (join_close (Plain ''unix: cannot restrict socket permissions'')
                                          (fs_CloseSocket fs socket)))
                             else (done @ [Bound path, Chmodded path socketMode],
                                   Inr \<lparr>ul_carrier = cfg, ul_socket = socket, ul_handler = h,
                                        ul_endpoint = endpoint\<rparr>))))))"

definition unix_Accept :: "host \<Rightarrow> pki \<Rightarrow> 'h unix_listener \<Rightarrow> managers \<Rightarrow> accept_round list
    \<Rightarrow> managers \<times> ('h, 'v, 'w) Session accepted" where
  "unix_Accept host pki l =
    accept_loop (Wrap ''unix: accept failed'') (unix_authenticate host pki (ul_carrier l) True)
      (\<lambda>io link remote. carrier_session (ul_carrier l) io link remote RoleServer (ul_handler l))"

definition unix_Addr :: "'h unix_listener \<Rightarrow> string" where "unix_Addr l = ul_endpoint l"

definition unix_Close :: "go_error option \<Rightarrow> go_error option" where
  "unix_Close err = (if err_is err NetErrClosed then None else err)"

section \<open>The carrier contract\<close>

text \<open>A carrier from \<^verbatim>\<open>New\<close>, used to dial, or to listen and accept one connection.\<close>

definition unix_connect :: "host \<Rightarrow> pki \<Rightarrow> carrier_config \<Rightarrow> string \<Rightarrow> 'h option \<Rightarrow> carrier_io \<Rightarrow> managers
    \<Rightarrow> managers \<times> (go_error + ('h, 'v, 'w) Session)" where
  "unix_connect host pki cfg endpoint handler io heap =
    (case unix_New host cfg of
       Inl err \<Rightarrow> (heap, Inl err)
     | Inr carrier \<Rightarrow> unix_Dial host pki carrier endpoint handler io heap)"

definition unix_serve :: "host \<Rightarrow> pki \<Rightarrow> carrier_config \<Rightarrow> string \<Rightarrow> 'h option \<Rightarrow> unix_fs \<times> nat \<times> carrier_io
    \<Rightarrow> managers \<Rightarrow> managers \<times> (go_error + ('h, 'v, 'w) Session)" where
  "unix_serve host pki cfg endpoint handler env heap =
    (case env of (fs, raw, io) \<Rightarrow>
     case unix_New host cfg of
       Inl err \<Rightarrow> (heap, Inl err)
     | Inr carrier \<Rightarrow>
         (case snd (unix_Listen host fs carrier endpoint handler) of
            Inl err \<Rightarrow> (heap, Inl err)
          | Inr l \<Rightarrow>
              (case unix_Accept host pki l heap [\<lparr>ar_ctx = None, ar_accept = Inr raw, ar_io = io\<rparr>] of
                 (heap', Session s) \<Rightarrow> (heap', Inr s)
               | (heap', Refused err) \<Rightarrow> (heap', Inl err)
               | (heap', Waiting) \<Rightarrow> (heap', Inl (Plain ''still waiting'')))))"

lemma unix_New_Inr:
  "unix_New host cfg = Inr carrier \<Longrightarrow> Encrypted (cc_Profile cfg) \<and> Authenticated (cc_Profile cfg)
     \<and> cc_Profile carrier = cc_Profile cfg \<and> cc_Local carrier = cc_Local cfg \<and> cc_ServerName carrier = cc_ServerName cfg"
  by (auto simp: unix_New_def split: if_splits sum.splits)

lemma unix_connect_Inr:
  assumes "unix_connect host pki cfg endpoint handler io heap = (heap', Inr s)"
  obtains carrier raw link remote h where "unix_New host cfg = Inr carrier"
    "unix_authenticate host pki carrier False io heap raw = (heap', Inr (link, remote))"
    "s = carrier_session carrier io link remote RoleClient h"
  using assms by (auto simp: unix_connect_def unix_Dial_def split: option.splits sum.splits prod.splits)

lemma unix_serve_Inr:
  assumes "unix_serve host pki cfg endpoint handler (fs, raw, io) heap = (heap', Inr s)"
  obtains carrier link remote h where "unix_New host cfg = Inr carrier"
    "unix_authenticate host pki carrier True io heap raw = (heap', Inr (link, remote))"
    "s = carrier_session carrier io link remote RoleServer h"
  using assms
  by (auto simp: unix_serve_def unix_Listen_def unix_Accept_def
      split: option.splits sum.splits prod.splits accepted.splits if_splits)

interpretation unix_dialer: carrier_port host pki "cc_Profile cfg" "cc_Local cfg" "unix_connect host pki cfg endpoint handler"
  "\<lambda>io config state. \<exists>raw. tls_config (cc_Profile cfg) (cc_ServerName cfg) False = Some config
     \<and> io_handshake io False config raw = Inr state"
  io_now "\<lambda>io. False" for host pki cfg endpoint handler
proof (unfold_locales, goal_cases)
  case (1 io heap heap' err)
  then show ?case
    by (auto simp: unix_connect_def unix_Dial_def unix_authenticate_def dest: tls_authenticate_Inl
        split: option.splits sum.splits prod.splits)
next
  case (2 io heap heap' s)
  then show ?case by (auto elim!: unix_connect_Inr dest: unix_New_Inr)
next
  case (3 io heap heap' s)
  then show ?case
    by (auto elim!: unix_connect_Inr simp: unix_authenticate_def dest!: unix_New_Inr tls_authenticate_Inr) metis
next
  case (4 io heap heap' s)
  then show ?case by (auto elim!: unix_connect_Inr dest: unix_New_Inr)
next
  case (5 io config state)
  then show ?case by (metis config_protos)
qed

interpretation unix_acceptor: carrier_port host pki "cc_Profile cfg" "cc_Local cfg" "unix_serve host pki cfg endpoint handler"
  "\<lambda>(fs, raw, io) config state. tls_config (cc_Profile cfg) (cc_ServerName cfg) True = Some config
     \<and> io_handshake io True config raw = Inr state"
  "\<lambda>(fs, raw, io). io_now io" "\<lambda>io. False" for host pki cfg endpoint handler
proof (unfold_locales, goal_cases)
  case (1 env heap heap' err)
  then show ?case
    by (cases env) (auto simp: unix_serve_def unix_Accept_def unix_authenticate_def dest: tls_authenticate_Inl
        split: option.splits sum.splits prod.splits accepted.splits if_splits)
next
  case (2 env heap heap' s)
  then show ?case by (cases env) (auto elim!: unix_serve_Inr dest: unix_New_Inr)
next
  case (3 env heap heap' s)
  then show ?case
    by (cases env) (auto elim!: unix_serve_Inr simp: unix_authenticate_def dest!: unix_New_Inr tls_authenticate_Inr)
next
  case (4 env heap heap' s)
  then show ?case by (cases env) (auto elim!: unix_serve_Inr dest: unix_New_Inr)
next
  case (5 env config state)
  then show ?case by (cases env) (simp, metis config_protos)
qed

section \<open>Paths and the socket file\<close>

definition plain_component :: "string \<Rightarrow> bool" where
  "plain_component w \<longleftrightarrow> w \<noteq> [] \<and> w \<noteq> ''.'' \<and> w \<noteq> ''..'' \<and> CHR ''/'' \<notin> set w"

lemma split_on_free: "w \<in> set (split_on c s) \<Longrightarrow> c \<notin> set w"
proof (induction s arbitrary: w)
  case (Cons x s)
  then show ?case by (cases "x = c"; cases "split_on c s") auto
qed simp

lemma clean_components_plain:
  "\<forall>w\<in>set ws. CHR ''/'' \<notin> set w \<Longrightarrow> \<forall>w\<in>set stack. plain_component w \<Longrightarrow>
   \<forall>w\<in>set (clean_components stack ws). plain_component w"
proof (induction stack ws rule: clean_components.induct)
  case (2 stack w ws)
  have rest: "\<forall>w\<in>set ws. CHR ''/'' \<notin> set w" using "2.prems"(1) by simp
  consider (skip) "w = [] \<or> w = ''.''" | (up) "w = ''..''" | (push) "w \<noteq> []" "w \<noteq> ''.''" "w \<noteq> ''..''" by blast
  then show ?case
  proof cases
    case skip
    then have "clean_components stack (w # ws) = clean_components stack ws" by simp
    then show ?thesis using "2.IH"(1)[OF skip rest "2.prems"(2)] by simp
  next
    case up
    have "\<forall>w\<in>set (tl stack). plain_component w" using "2.prems"(2) by (cases stack) auto
    then have "\<forall>w\<in>set (clean_components (tl stack) ws). plain_component w"
      using "2.IH"(2)[OF _ up rest] up by blast
    then show ?thesis using up by simp
  next
    case push
    then have "\<forall>w\<in>set (w # stack). plain_component w" using "2.prems" by (simp add: plain_component_def)
    then have "\<forall>w\<in>set (clean_components (w # stack) ws). plain_component w"
      using "2.IH"(3)[OF _ push(3) rest] push(1,2) by blast
    then show ?thesis using push by simp
  qed
qed simp

lemma clean_components_fixed:
  "\<forall>w\<in>set ws. plain_component w \<Longrightarrow> clean_components stack ws = rev stack @ ws"
  by (induction ws arbitrary: stack) (auto simp: plain_component_def)

lemma split_on_append: "c \<notin> set w \<Longrightarrow> split_on c (w @ c # s) = w # split_on c s"
  by (induction w) auto

lemma split_on_whole: "c \<notin> set w \<Longrightarrow> split_on c w = [w]"
  by (induction w) auto

lemma split_join:
  "ws \<noteq> [] \<Longrightarrow> \<forall>w\<in>set ws. plain_component w \<Longrightarrow>
   split_on (CHR ''/'') (concat (map (\<lambda>w. CHR ''/'' # w) ws)) = [] # ws"
proof (induction ws)
  case (Cons w ws)
  then show ?case
    by (cases ws) (auto simp: split_on_append split_on_whole plain_component_def)
qed simp

lemma Clean_absolute: "\<exists>rest. filepath_Clean path = CHR ''/'' # rest"
  by (cases "clean_components [] (split_on (CHR ''/'') path)") (auto simp: filepath_Clean_def join_path_def)

lemma Clean_idempotent: "filepath_Clean (filepath_Clean path) = filepath_Clean path"
proof -
  let ?ws = "clean_components [] (split_on (CHR ''/'') path)"
  have plain: "\<forall>w\<in>set ?ws. plain_component w"
    by (rule clean_components_plain) (auto dest: split_on_free)
  have "split_on (CHR ''/'') (join_path ?ws) = (if ?ws = [] then [[], []] else [] # ?ws)"
    using split_join[OF _ plain] by (simp add: join_path_def)
  then have "clean_components [] (split_on (CHR ''/'') (join_path ?ws)) = ?ws"
    using clean_components_fixed[OF plain] by simp
  then show ?thesis by (simp add: filepath_Clean_def)
qed

text \<open>The parent of the socket is a directory that only its owner can change.\<close>

definition protected_parent :: "unix_fs \<Rightarrow> string \<Rightarrow> bool" where
  "protected_parent fs path \<longleftrightarrow> (\<exists>perm. fs_Stat fs (filepath_Dir path) = Some (True, perm) \<and> perm AND 0x12 = 0)"

lemma validateParent_iff: "validateParent fs path = None \<longleftrightarrow> protected_parent fs path"
  by (auto simp: validateParent_def protected_parent_def split: option.splits)

lemma removeStaleSocket_cases:
  "removeStaleSocket fs path = (done, err) \<Longrightarrow>
   done = [] \<and> (err = None \<longrightarrow> fs_Lstat fs path = NotExist)
   \<or> done = [Removed path] \<and> err = None \<and> fs_probe fs path = ConnRefused
     \<and> (\<exists>i. fs_Lstat fs path = FileInfo True i \<and> fs_LstatAgain fs path = FileInfo True i)"
  by (auto simp: removeStaleSocket_def split: lstat.splits probe_result.splits if_splits)


definition sample_fs :: unix_fs where
  "sample_fs = \<lparr>fs_Stat = (\<lambda>d. Some (True, 0x1C0)), fs_Lstat = (\<lambda>p. FileInfo True 4), fs_LstatAgain = (\<lambda>p. FileInfo True 4),
     fs_probe = (\<lambda>p. ConnRefused), fs_Remove = (\<lambda>p. True), fs_ListenUnix = (\<lambda>p. Inr 3),
     fs_Chmod = (\<lambda>p m. True), fs_CloseSocket = (\<lambda>s. None)\<rparr>"

definition unix_host :: host where
  "unix_host = sample_host\<lparr>url_Parse := (\<lambda>s. Inr \<lparr>URL_Scheme = ''unix'', URL_User = None, URL_Host = [],
     URL_Path = ''/run/../x'', URL_RawQuery = [], URL_Fragment = [], URL_String = s\<rparr>)\<rparr>"

definition sample_carrier :: carrier_config where
  "sample_carrier = \<lparr>cc_Profile = None, cc_Local = no_identity, cc_ServerName = ''x'', cc_Limits = DefaultLimits,
     cc_KeepAlive = 0, cc_HandshakeTimeout = 1\<rparr>"

lemma sample_socketPath: "socketPath unix_host e = Inr ''/x''"
  by (simp add: socketPath_def unix_host_def filepath_IsAbs_def strings_HasPrefix_def index_byte_def
      filepath_Clean_def join_path_def)


end
