(* ===== verification/Carrier_Pipe.thy ===== *)
theory Carrier_Pipe
  imports Carrier_Port
begin

text \<open>
  The named pipe carrier: \<^verbatim>\<open>src/infrastructure/peer/pipe/carrier_windows.go\<close>, and the carrier of other
  hosts, \<^verbatim>\<open>carrier_other.go\<close>, that refuses everything. \<^verbatim>\<open>go-winio\<close> and the process token are arguments.
  A listener serves one request at a time in a goroutine of its own; the goroutine, the caller of
  \<^verbatim>\<open>Accept\<close> and \<^verbatim>\<open>Close\<close> meet on unbuffered channels, which is a step relation at the end.
\<close>

abbreviation (input) pipe_Name :: string where "pipe_Name \<equiv> ''pipe''"
abbreviation (input) defaultPipeBufferSize :: int where "defaultPipeBufferSize \<equiv> 64 * 1024"

section \<open>Hosts without named pipes\<close>

abbreviation ErrUnsupportedPlatform :: go_error where
  "ErrUnsupportedPlatform \<equiv> Plain ''pipe: Windows named pipes require a standalone Windows host''"

definition other_New :: "carrier_config \<Rightarrow> go_error + unit" where
  "other_New cfg = Inl ErrUnsupportedPlatform"

definition other_Profile :: string where "other_Profile = []"

definition other_Encrypted :: bool where "other_Encrypted = True"

definition other_Authenticated :: bool where "other_Authenticated = True"

definition other_Dial :: "string \<Rightarrow> 'h option \<Rightarrow> go_error + 's" where
  "other_Dial endpoint handler = Inl ErrUnsupportedPlatform"

definition other_Listen :: "string \<Rightarrow> 'h option \<Rightarrow> go_error + 'l" where
  "other_Listen endpoint handler = Inl ErrUnsupportedPlatform"

section \<open>Construction and paths\<close>

definition pipe_New :: "host \<Rightarrow> carrier_config \<Rightarrow> go_error + carrier_config" where
  "pipe_New host cfg =
    (if cc_Profile cfg = None \<or> \<not> Encrypted (cc_Profile cfg) \<or> \<not> Authenticated (cc_Profile cfg)
     then Inl (Plain ''pipe: authenticated mTLS is required'')
     else if URI (cc_Local cfg) = [] \<or> strings_TrimSpace (cc_ServerName cfg) = []
     then Inl (Plain ''pipe: local identity and TLS server name are required'')
     else case Identity host (URI (cc_Local cfg)) of
            Inl err \<Rightarrow> Inl (Wrap ''pipe: local identity'' err)
          | Inr _ \<Rightarrow>
              Inr (cfg\<lparr>cc_HandshakeTimeout := (if cc_HandshakeTimeout cfg \<le> 0 then defaultHandshakeTimeout
                                                  else cc_HandshakeTimeout cfg),
                       cc_Limits := WithDefaults (cc_Limits cfg)\<rparr>))"

definition pipe_Profile :: "carrier_config \<Rightarrow> string" where "pipe_Profile cfg = Profile_Name (cc_Profile cfg)"

definition pipe_Encrypted :: "carrier_config \<Rightarrow> bool" where "pipe_Encrypted cfg = True"

definition pipe_Authenticated :: "carrier_config \<Rightarrow> bool" where "pipe_Authenticated cfg = True"

definition fold_char :: "char \<Rightarrow> char" where
  "fold_char c = (if CHR ''A'' \<le> c \<and> c \<le> CHR ''Z'' then char_of (of_char c + 32 :: nat) else c)"

text \<open>\<^verbatim>\<open>strings.EqualFold\<close> against ASCII text without the letters k and s.\<close>

definition strings_EqualFold :: "string \<Rightarrow> string \<Rightarrow> bool" where
  "strings_EqualFold s t \<longleftrightarrow> map fold_char s = map fold_char t"

definition pipe_prefix :: string where
  "pipe_prefix = [CHR 0x5C, CHR 0x5C, CHR ''.'', CHR 0x5C] @ ''pipe'' @ [CHR 0x5C]"

definition pipePath :: "string \<Rightarrow> go_error + string" where
  "pipePath endpoint =
    (if length endpoint \<le> length pipe_prefix
        \<or> \<not> strings_EqualFold (take (length pipe_prefix) endpoint) pipe_prefix
     then Inl (Plain ''pipe: endpoint must name a pipe of this host'')
     else (let name = drop (length pipe_prefix) endpoint in
       if list_ex (\<lambda>c. c = CHR ''/'' \<or> c = CHR 0x5C) name \<or> name = ''.'' \<or> name = ''..''
          \<or> strings_TrimSpace name \<noteq> name
       then Inl (Plain ''pipe: endpoint must identify one named pipe'')
       else Inr (pipe_prefix @ name)))"

section \<open>Dialing and listening\<close>

definition pipe_errors :: stage_errors where
  "pipe_errors = \<lparr>at_deadline = (\<lambda>_. Plain ''pipe: cannot set handshake deadline''),
     at_handshake = (\<lambda>_. Plain ''pipe: mTLS handshake failed''),
     at_clear = (\<lambda>_. Plain ''pipe: cannot clear handshake deadline'')\<rparr>"

definition pipe_authenticate :: "host \<Rightarrow> pki \<Rightarrow> carrier_config \<Rightarrow> bool \<Rightarrow> carrier_io \<Rightarrow> managers \<Rightarrow> nat
    \<Rightarrow> managers \<times> (go_error + link \<times> PeerIdentity)" where
  "pipe_authenticate host pki cfg inbound io heap raw =
    tls_authenticate pipe_errors host pki cfg (cc_ServerName cfg) io heap raw inbound"

definition pipe_Dial :: "host \<Rightarrow> pki \<Rightarrow> carrier_config \<Rightarrow> string \<Rightarrow> 'h option \<Rightarrow> carrier_io \<Rightarrow> managers
    \<Rightarrow> managers \<times> (go_error + ('h, 'v, 'w) Session)" where
  "pipe_Dial host pki cfg endpoint handler io heap =
    (case handler of
       None \<Rightarrow> (heap, Inl (Plain ''pipe: a handler is required''))
     | Some h \<Rightarrow>
         (case pipePath endpoint of
            Inl err \<Rightarrow> (heap, Inl err)
          | Inr path \<Rightarrow>
              (case io_dial io path of
                 Inl _ \<Rightarrow> (heap, Inl (Plain ''pipe: dial failed''))
               | Inr raw \<Rightarrow>
                   (case pipe_authenticate host pki cfg False io heap raw of
                      (heap', Inl err) \<Rightarrow> (heap', Inl (join_close err (io_close io raw)))
                    | (heap', Inr (link, remote)) \<Rightarrow>
                        (heap', Inr (carrier_session cfg io link remote RoleClient h))))))"

record pipe_config =
  SecurityDescriptor :: string
  InputBufferSize :: int
  OutputBufferSize :: int

record 'h pipe_listener =
  pl_carrier :: carrier_config
  pl_listener :: nat
  pl_handler :: 'h
  pl_endpoint :: string

text \<open>\<open>sid\<close> is the process identity the token reports, or \<^term>\<open>None\<close> when it cannot be resolved.\<close>

definition pipe_Listen :: "carrier_config \<Rightarrow> string option \<Rightarrow> (string \<Rightarrow> pipe_config \<Rightarrow> nat option) \<Rightarrow> string \<Rightarrow> 'h option
    \<Rightarrow> go_error + 'h pipe_listener" where
  "pipe_Listen cfg sid listenPipe endpoint handler =
    (case handler of
       None \<Rightarrow> Inl (Plain ''pipe: a handler is required'')
     | Some h \<Rightarrow>
         (case pipePath endpoint of
            Inl err \<Rightarrow> Inl err
          | Inr path \<Rightarrow>
              (case sid of
                 None \<Rightarrow> Inl (Plain ''pipe: cannot resolve process identity for pipe ACL'')
               | Some s \<Rightarrow>
                   (case listenPipe path \<lparr>SecurityDescriptor = ''D:P(A;;GA;;;'' @ s @ '')(A;;GA;;;SY)'',
                          InputBufferSize = defaultPipeBufferSize, OutputBufferSize = defaultPipeBufferSize\<rparr> of
                      None \<Rightarrow> Inl (Plain ''pipe: listen failed or endpoint already exists'')
                    | Some l \<Rightarrow> Inr \<lparr>pl_carrier = cfg, pl_listener = l, pl_handler = h, pl_endpoint = endpoint\<rparr>))))"

definition pipe_Addr :: "'h pipe_listener \<Rightarrow> string" where "pipe_Addr l = pl_endpoint l"

text \<open>
  \<^verbatim>\<open>Close\<close>: \<open>once\<close> says whether it ran before, \<open>closed\<close> is what closing the pipe returned. Closing the channel
  and waiting for the loop are the event \<open>listener_closes\<close> and the step \<open>loop_exit\<close> below.
\<close>

definition pipe_Close :: "bool \<Rightarrow> go_error option \<Rightarrow> bool \<times> go_error option" where
  "pipe_Close once closed =
    (True, if once then None else map_option (\<lambda>_. Plain ''pipe: listener close failed'') closed)"

section \<open>Serving one request\<close>

text \<open>
  A round of \<^verbatim>\<open>acceptRequest\<close>; \<open>pr_ctxAfter\<close> is what the request's context says after a rejected peer.
  The result is \<^term>\<open>None\<close> while the loop waits for a connection.
\<close>

record pipe_round = accept_round +
  pr_ctxAfter :: "go_error option"

fun pipe_acceptRequest :: "host \<Rightarrow> pki \<Rightarrow> 'h pipe_listener \<Rightarrow> managers \<Rightarrow> pipe_round list
    \<Rightarrow> managers \<times> (go_error + ('h, 'v, 'w) Session) option" where
  "pipe_acceptRequest host pki l heap [] = (heap, None)"
| "pipe_acceptRequest host pki l heap (r # rs) =
    (case ar_ctx r of
       Some err \<Rightarrow> (heap, Some (Inl err))
     | None \<Rightarrow>
         (case ar_accept r of
            Inl _ \<Rightarrow> (heap, Some (Inl (Sentinel ErrConnectionClosed)))
          | Inr raw \<Rightarrow>
              (let io = (ar_io r)\<lparr>io_ctxDeadline :=
                          Some (handshake_deadline (ar_io r) (cc_HandshakeTimeout (pl_carrier l)))\<rparr>
               in case pipe_authenticate host pki (pl_carrier l) True io heap raw of
                    (heap', Inl err) \<Rightarrow>
                      (case io_close io raw of
                         Some closeErr \<Rightarrow>
                           if \<not> errors_Is closeErr NetErrClosed then (heap', Some (Inl closeErr))
                           else (case pr_ctxAfter r of
                                   Some e \<Rightarrow> (heap', Some (Inl e))
                                 | None \<Rightarrow> pipe_acceptRequest host pki l heap' rs)
                       | None \<Rightarrow>
                           (case pr_ctxAfter r of
                              Some e \<Rightarrow> (heap', Some (Inl e))
                            | None \<Rightarrow> pipe_acceptRequest host pki l heap' rs))
                  | (heap', Inr (link, remote)) \<Rightarrow>
                      (heap', Some (Inr (carrier_session (pl_carrier l) io link remote RoleServer (pl_handler l)))))))"

section \<open>The rendezvous of a request\<close>

text \<open>
  One call of \<^verbatim>\<open>Accept\<close> against the loop of the listener. The loop waits for a request, serves it, and
  offers the result; the caller offers the request and waits for the result. Each wait is a \<^verbatim>\<open>select\<close>
  with the request's context and the channels \<^verbatim>\<open>closed\<close> and \<^verbatim>\<open>done\<close>.
\<close>

datatype 's loop_state = LoopIdle | LoopServing | LoopResponding "go_error + 's" | LoopDone

datatype 's caller_state = OfferingRequest | AwaitingResult | CallerReturned "go_error + 's"

record 's pipe_state =
  ps_loop :: "'s loop_state"
  ps_caller :: "'s caller_state"
  ps_ctx :: "go_error option"
  ps_closed :: bool
  ps_made :: "'s list"
  ps_tornDown :: "'s list"

definition pipe_start :: "'s pipe_state" where
  "pipe_start = \<lparr>ps_loop = LoopIdle, ps_caller = OfferingRequest, ps_ctx = None, ps_closed = False, ps_made = [], ps_tornDown = []\<rparr>"

text \<open>The branches of \<^verbatim>\<open>respond\<close> that find no receiver close the session, if there is one.\<close>

definition respond_dropped :: "(go_error + 's) \<Rightarrow> 's pipe_state \<Rightarrow> 's pipe_state" where
  "respond_dropped result st =
    st\<lparr>ps_loop := LoopIdle, ps_tornDown := ps_tornDown st @ (case result of Inl _ \<Rightarrow> [] | Inr s \<Rightarrow> [s])\<rparr>"

text \<open>What the loop and the caller do by themselves.\<close>

inductive pipe_step :: "'s pipe_state \<Rightarrow> 's pipe_state \<Rightarrow> bool" where
  request_taken: "ps_caller st = OfferingRequest \<Longrightarrow> ps_loop st = LoopIdle \<Longrightarrow>
    pipe_step st (st\<lparr>ps_caller := AwaitingResult, ps_loop := LoopServing\<rparr>)"
| offer_cancelled: "ps_caller st = OfferingRequest \<Longrightarrow> ps_ctx st = Some err \<Longrightarrow>
    pipe_step st (st\<lparr>ps_caller := CallerReturned (Inl err)\<rparr>)"
| offer_closed: "ps_caller st = OfferingRequest \<Longrightarrow> ps_closed st \<Longrightarrow>
    pipe_step st (st\<lparr>ps_caller := CallerReturned (Inl (Sentinel ErrConnectionClosed))\<rparr>)"
| result_taken: "ps_caller st = AwaitingResult \<Longrightarrow> ps_loop st = LoopResponding result \<Longrightarrow>
    pipe_step st (st\<lparr>ps_caller := CallerReturned result, ps_loop := LoopIdle\<rparr>)"
| wait_cancelled: "ps_caller st = AwaitingResult \<Longrightarrow> ps_ctx st = Some err \<Longrightarrow>
    pipe_step st (st\<lparr>ps_caller := CallerReturned (Inl err)\<rparr>)"
| wait_done: "ps_caller st = AwaitingResult \<Longrightarrow> ps_loop st = LoopDone \<Longrightarrow>
    pipe_step st (st\<lparr>ps_caller := CallerReturned (Inl (Sentinel ErrConnectionClosed))\<rparr>)"
| respond_cancelled: "ps_loop st = LoopResponding result \<Longrightarrow> ps_ctx st \<noteq> None \<Longrightarrow>
    pipe_step st (respond_dropped result st)"
| respond_closed: "ps_loop st = LoopResponding result \<Longrightarrow> ps_closed st \<Longrightarrow>
    pipe_step st (respond_dropped result st)"
| loop_exit: "ps_loop st = LoopIdle \<Longrightarrow> ps_closed st \<Longrightarrow> pipe_step st (st\<lparr>ps_loop := LoopDone\<rparr>)"

text \<open>
  What happens to them: the context ends, \<^verbatim>\<open>Close\<close> closes the channel, or \<^verbatim>\<open>acceptRequest\<close> comes back
  with a result.
\<close>

inductive pipe_event :: "'s pipe_state \<Rightarrow> 's pipe_state \<Rightarrow> bool" where
  context_ends: "ps_ctx st = None \<Longrightarrow> pipe_event st (st\<lparr>ps_ctx := Some err\<rparr>)"
| listener_closes: "pipe_event st (st\<lparr>ps_closed := True\<rparr>)"
| request_served: "ps_loop st = LoopServing \<Longrightarrow>
    pipe_event st (st\<lparr>ps_loop := LoopResponding result,
      ps_made := ps_made st @ (case result of Inl _ \<Rightarrow> [] | Inr s \<Rightarrow> [s])\<rparr>)"

definition pipe_reachable :: "'s pipe_state \<Rightarrow> bool" where
  "pipe_reachable st \<longleftrightarrow> (\<lambda>a b. pipe_step a b \<or> pipe_event a b)\<^sup>*\<^sup>* pipe_start st"

definition pipe_inv :: "'s pipe_state \<Rightarrow> bool" where
  "pipe_inv st \<longleftrightarrow>
     (\<forall>s\<in>set (ps_made st). s \<in> set (ps_tornDown st) \<or> ps_loop st = LoopResponding (Inr s) \<or> ps_caller st = CallerReturned (Inr s))
     \<and> (ps_caller st = OfferingRequest \<longrightarrow> ps_loop st = LoopIdle \<and> ps_made st = [] \<or> ps_loop st = LoopDone \<and> ps_made st = [])
     \<and> (ps_caller st = AwaitingResult \<and> ps_loop st = LoopIdle \<longrightarrow> ps_closed st \<or> ps_ctx st \<noteq> None)
     \<and> (ps_loop st = LoopDone \<longrightarrow> ps_closed st)
     \<and> (\<forall>s. ps_caller st = CallerReturned (Inr s) \<longrightarrow> s \<in> set (ps_made st) \<and> ps_loop st \<noteq> LoopServing)
     \<and> (\<forall>s. ps_loop st = LoopResponding (Inr s) \<longrightarrow> s \<in> set (ps_made st))
     \<and> (\<forall>r. ps_loop st = LoopResponding r \<longrightarrow> (\<forall>s. ps_caller st \<noteq> CallerReturned (Inr s)))"

lemma pipe_inv_step: "pipe_step st st' \<Longrightarrow> pipe_inv st \<Longrightarrow> pipe_inv st'"
  by (induction rule: pipe_step.induct) (auto simp: pipe_inv_def respond_dropped_def split: sum.splits)

lemma pipe_inv_event: "pipe_event st st' \<Longrightarrow> pipe_inv st \<Longrightarrow> pipe_inv st'"
  by (induction rule: pipe_event.induct) (auto simp: pipe_inv_def split: sum.splits)

lemma pipe_inv_start: "pipe_inv pipe_start"
  by (simp add: pipe_inv_def pipe_start_def)

lemma pipe_reachable_inv: "pipe_reachable st \<Longrightarrow> pipe_inv st"
  unfolding pipe_reachable_def
proof (induction rule: rtranclp_induct)
  case base
  show ?case by (rule pipe_inv_start)
next
  case (step y z)
  then show ?case using pipe_inv_step pipe_inv_event by blast
qed

text \<open>A step of the loop and the caller brings the request closer to its end.\<close>

definition pipe_measure :: "'s pipe_state \<Rightarrow> nat" where
  "pipe_measure st =
    (case ps_caller st of OfferingRequest \<Rightarrow> 10 | AwaitingResult \<Rightarrow> 4 | CallerReturned _ \<Rightarrow> 0)
    + (case ps_loop st of LoopServing \<Rightarrow> 3 | LoopResponding _ \<Rightarrow> 2 | LoopIdle \<Rightarrow> 1 | LoopDone \<Rightarrow> 0)"

lemma pipe_step_measure: "pipe_step st st' \<Longrightarrow> pipe_measure st' < pipe_measure st"
  by (induction rule: pipe_step.induct) (auto simp: pipe_measure_def respond_dropped_def)

lemma pipe_enabled:
  assumes "pipe_inv st" "\<forall>r. ps_caller st \<noteq> CallerReturned r" "ps_loop st \<noteq> LoopServing"
  shows "\<exists>st'. pipe_step st st'"
proof (cases "ps_caller st")
  case OfferingRequest
  then have "ps_loop st = LoopIdle \<or> ps_closed st" using assms(1) by (auto simp: pipe_inv_def)
  then show ?thesis using OfferingRequest request_taken offer_closed by blast
next
  case AwaitingResult
  show ?thesis
  proof (cases "ps_loop st")
    case LoopIdle
    then have "ps_closed st \<or> (\<exists>e. ps_ctx st = Some e)" using assms(1) AwaitingResult by (auto simp: pipe_inv_def)
    then show ?thesis using LoopIdle AwaitingResult loop_exit wait_cancelled by blast
  qed (use assms(3) AwaitingResult result_taken wait_done in blast)+
next
  case (CallerReturned r)
  then show ?thesis using assms(2) by blast
qed

text \<open>
  C37. Accepting on a named pipe neither leaks nor hangs. In every reachable state of a request, a
  session that was made is still on offer, was returned to the caller of Accept, or was closed; as
  long as the caller has not returned and the loop is not itself waiting for a connection, one of them
  can take a step; and every step they take brings the request closer to its end, so that they cannot
  step for ever.
\<close>

theorem pipe_no_leak_no_hang:
  fixes st :: "'s pipe_state"
  assumes "pipe_reachable st"
  shows "(\<forall>s\<in>set (ps_made st). s \<in> set (ps_tornDown st) \<or> ps_loop st = LoopResponding (Inr s)
        \<or> ps_caller st = CallerReturned (Inr s))
    \<and> ((\<forall>r. ps_caller st \<noteq> CallerReturned r) \<and> ps_loop st \<noteq> LoopServing \<longrightarrow> (\<exists>st'. pipe_step st st'))
    \<and> wfp (\<lambda>(st' :: 's pipe_state) st. pipe_step st st')"
proof -
  have "wfp (\<lambda>(st' :: 's pipe_state) st. pipe_step st st')"
    unfolding wfp_def by (rule wf_subset[OF wf_measure[of pipe_measure]]) (auto dest: pipe_step_measure)
  moreover have inv: "pipe_inv st" by (rule pipe_reachable_inv[OF assms])
  moreover have "\<forall>s\<in>set (ps_made st). s \<in> set (ps_tornDown st) \<or> ps_loop st = LoopResponding (Inr s)
      \<or> ps_caller st = CallerReturned (Inr s)"
    using inv by (simp add: pipe_inv_def)
  ultimately show ?thesis using pipe_enabled by blast
qed

theorem pipe_no_leak_no_hang_witness:
  "\<exists>st'. pipe_step (pipe_start\<lparr>ps_caller := AwaitingResult, ps_loop := LoopResponding (Inr 7), ps_made := [7 :: nat]\<rparr>) st'"
proof -
  let ?st = "pipe_start\<lparr>ps_caller := AwaitingResult, ps_loop := LoopServing\<rparr> :: nat pipe_state"
  have 1: "pipe_step pipe_start ?st" by (rule request_taken) (simp_all add: pipe_start_def)
  have 2: "pipe_event ?st (?st\<lparr>ps_loop := LoopResponding (Inr 7), ps_made := ps_made ?st @ [7]\<rparr>)"
    using request_served[of ?st "Inr 7"] by simp
  have "pipe_reachable (?st\<lparr>ps_loop := LoopResponding (Inr 7), ps_made := ps_made ?st @ [7]\<rparr>)"
    unfolding pipe_reachable_def
    by (rule rtranclp.rtrancl_into_rtrancl[OF r_into_rtranclp]) (use 1 2 in blast)+
  from pipe_no_leak_no_hang[OF this] show ?thesis by (simp add: pipe_start_def)
qed

section \<open>The carrier contract\<close>

text \<open>A carrier from \<^verbatim>\<open>New\<close>, used to dial, or to listen and serve one connection.\<close>

definition pipe_connect :: "host \<Rightarrow> pki \<Rightarrow> carrier_config \<Rightarrow> string \<Rightarrow> 'h option \<Rightarrow> carrier_io \<Rightarrow> managers
    \<Rightarrow> managers \<times> (go_error + ('h, 'v, 'w) Session)" where
  "pipe_connect host pki cfg endpoint handler io heap =
    (case pipe_New host cfg of
       Inl err \<Rightarrow> (heap, Inl err)
     | Inr carrier \<Rightarrow> pipe_Dial host pki carrier endpoint handler io heap)"

definition pipe_serve :: "host \<Rightarrow> pki \<Rightarrow> carrier_config \<Rightarrow> string \<Rightarrow> 'h option
    \<Rightarrow> string option \<times> (string \<Rightarrow> pipe_config \<Rightarrow> nat option) \<times> nat \<times> carrier_io
    \<Rightarrow> managers \<Rightarrow> managers \<times> (go_error + ('h, 'v, 'w) Session)" where
  "pipe_serve host pki cfg endpoint handler env heap =
    (case env of (sid, listenPipe, raw, io) \<Rightarrow>
     case pipe_New host cfg of
       Inl err \<Rightarrow> (heap, Inl err)
     | Inr carrier \<Rightarrow>
         (case pipe_Listen carrier sid listenPipe endpoint handler of
            Inl err \<Rightarrow> (heap, Inl err)
          | Inr l \<Rightarrow>
              (case pipe_acceptRequest host pki l heap
                      [\<lparr>ar_ctx = None, ar_accept = Inr raw, ar_io = io, pr_ctxAfter = None\<rparr>] of
                 (heap', Some res) \<Rightarrow> (heap', res)
               | (heap', None) \<Rightarrow> (heap', Inl (Plain ''still waiting'')))))"

lemma pipe_New_Inr:
  "pipe_New host cfg = Inr carrier \<Longrightarrow> Encrypted (cc_Profile cfg) \<and> Authenticated (cc_Profile cfg)
     \<and> cc_Profile carrier = cc_Profile cfg \<and> cc_Local carrier = cc_Local cfg \<and> cc_ServerName carrier = cc_ServerName cfg
     \<and> 0 < cc_HandshakeTimeout carrier"
  by (auto simp: pipe_New_def split: if_splits sum.splits)

lemma pipe_connect_Inr:
  assumes "pipe_connect host pki cfg endpoint handler io heap = (heap', Inr s)"
  obtains carrier raw link remote h where "pipe_New host cfg = Inr carrier"
    "pipe_authenticate host pki carrier False io heap raw = (heap', Inr (link, remote))"
    "s = carrier_session carrier io link remote RoleClient h"
  using assms by (auto simp: pipe_connect_def pipe_Dial_def split: option.splits sum.splits prod.splits)

lemma pipe_serve_Inr:
  assumes "pipe_serve host pki cfg endpoint handler (sid, listenPipe, raw, io) heap = (heap', Inr s)"
  obtains carrier io' link remote h where "pipe_New host cfg = Inr carrier"
    "io' = io\<lparr>io_ctxDeadline := Some (handshake_deadline io (cc_HandshakeTimeout carrier))\<rparr>"
    "pipe_authenticate host pki carrier True io' heap raw = (heap', Inr (link, remote))"
    "s = carrier_session carrier io' link remote RoleServer h"
  using assms
  by (auto simp: pipe_serve_def pipe_Listen_def Let_def split: option.splits sum.splits prod.splits if_splits)

interpretation pipe_dialer: carrier_port host pki "cc_Profile cfg" "cc_Local cfg" "pipe_connect host pki cfg endpoint handler"
  "\<lambda>io config state. \<exists>raw. tls_config (cc_Profile cfg) (cc_ServerName cfg) False = Some config
     \<and> io_handshake io False config raw = Inr state"
  io_now "\<lambda>io. False" for host pki cfg endpoint handler
proof (unfold_locales, goal_cases)
  case (1 io heap heap' err)
  then show ?case
    by (auto simp: pipe_connect_def pipe_Dial_def pipe_authenticate_def dest: tls_authenticate_Inl
        split: option.splits sum.splits prod.splits)
next
  case (2 io heap heap' s)
  then show ?case by (auto elim!: pipe_connect_Inr dest: pipe_New_Inr)
next
  case (3 io heap heap' s)
  then show ?case
    by (auto elim!: pipe_connect_Inr simp: pipe_authenticate_def dest!: pipe_New_Inr tls_authenticate_Inr) metis
next
  case (4 io heap heap' s)
  then show ?case by (auto elim!: pipe_connect_Inr dest: pipe_New_Inr)
next
  case (5 io config state)
  then show ?case by (metis config_protos)
qed

interpretation pipe_acceptor: carrier_port host pki "cc_Profile cfg" "cc_Local cfg" "pipe_serve host pki cfg endpoint handler"
  "\<lambda>(sid, listenPipe, raw, io) config state. tls_config (cc_Profile cfg) (cc_ServerName cfg) True = Some config
     \<and> io_handshake io True config raw = Inr state"
  "\<lambda>(sid, listenPipe, raw, io). io_now io" "\<lambda>io. False" for host pki cfg endpoint handler
proof (unfold_locales, goal_cases)
  case (1 env heap heap' err)
  then show ?case
    by (cases env) (auto simp: pipe_serve_def pipe_authenticate_def Let_def dest: tls_authenticate_Inl
        split: option.splits sum.splits prod.splits if_splits)
next
  case (2 env heap heap' s)
  then show ?case by (cases env) (auto elim!: pipe_serve_Inr dest: pipe_New_Inr)
next
  case (3 env heap heap' s)
  then show ?case
    by (cases env) (auto elim!: pipe_serve_Inr simp: pipe_authenticate_def dest!: pipe_New_Inr tls_authenticate_Inr)
next
  case (4 env heap heap' s)
  then show ?case by (cases env) (auto elim!: pipe_serve_Inr dest: pipe_New_Inr)
next
  case (5 env config state)
  then show ?case by (cases env) (simp, metis config_protos)
qed

end
