(* ===== verification/Registry.thy ===== *)
theory Registry
  imports Peer_Domain
begin

text \<open>
  The method registry of \<^verbatim>\<open>src/application/peer/registry.go\<close>: two maps from method names to
  handlers, one for unary calls and one for streams. A nil \<^verbatim>\<open>*Registry\<close> and a nil handler are
  \<^term>\<open>None\<close>. The types of the handlers are parameters, since the registry never runs them.
\<close>

record ('c, 's) Registry =
  reg_calls :: "(string, 'c) table"
  reg_streams :: "(string, 's) table"

definition NewRegistry :: "('c, 's) Registry" where
  "NewRegistry = \<lparr>reg_calls = [], reg_streams = []\<rparr>"

definition RegisterCall :: "('c, 's) Registry option \<Rightarrow> string \<Rightarrow> 'c option
    \<Rightarrow> ('c, 's) Registry option \<times> go_error option" where
  "RegisterCall registry method handler =
    (case (registry, handler) of
       (Some r, Some h) \<Rightarrow>
         if method = [] then (registry, Some (Sentinel ErrInvalidRegistration))
         else if map_get (reg_calls r) method \<noteq> None then (registry, Some (Sentinel ErrDuplicateMethod))
         else (Some (r\<lparr>reg_calls := map_set method h (reg_calls r)\<rparr>), None)
     | _ \<Rightarrow> (registry, Some (Sentinel ErrInvalidRegistration)))"

definition RegisterStream :: "('c, 's) Registry option \<Rightarrow> string \<Rightarrow> 's option
    \<Rightarrow> ('c, 's) Registry option \<times> go_error option" where
  "RegisterStream registry method handler =
    (case (registry, handler) of
       (Some r, Some h) \<Rightarrow>
         if method = [] then (registry, Some (Sentinel ErrInvalidRegistration))
         else if map_get (reg_streams r) method \<noteq> None then (registry, Some (Sentinel ErrDuplicateMethod))
         else (Some (r\<lparr>reg_streams := map_set method h (reg_streams r)\<rparr>), None)
     | _ \<Rightarrow> (registry, Some (Sentinel ErrInvalidRegistration)))"

definition LookupCall :: "('c, 's) Registry option \<Rightarrow> string \<Rightarrow> 'c option" where
  "LookupCall registry method = (case registry of None \<Rightarrow> None | Some r \<Rightarrow> map_get (reg_calls r) method)"

definition LookupStream :: "('c, 's) Registry option \<Rightarrow> string \<Rightarrow> 's option" where
  "LookupStream registry method = (case registry of None \<Rightarrow> None | Some r \<Rightarrow> map_get (reg_streams r) method)"

text \<open>One of the two loops of \<^verbatim>\<open>Methods\<close>: the methods collected so far and the set of seen ones.\<close>

fun collect_methods :: "string list \<Rightarrow> string list \<times> string list \<Rightarrow> string list \<times> string list" where
  "collect_methods [] (methods, seen) = (methods, seen)"
| "collect_methods (m # ms) (methods, seen) =
    (if m \<in> set seen then collect_methods ms (methods, seen)
     else collect_methods ms (methods @ [m], m # seen))"

definition Methods :: "('c, 's) Registry option \<Rightarrow> string list" where
  "Methods registry =
    (case registry of
       None \<Rightarrow> []
     | Some r \<Rightarrow>
         (case collect_methods (map_keys (reg_calls r)) ([], []) of (methods, seen) \<Rightarrow>
          case collect_methods (map_keys (reg_streams r)) (methods, seen) of (methods, seen) \<Rightarrow>
            sort methods))"

section \<open>Well-formed registries\<close>

definition reg_wf :: "('c, 's) Registry \<Rightarrow> bool" where
  "reg_wf r \<longleftrightarrow> map_wf (reg_calls r) \<and> map_wf (reg_streams r)
     \<and> [] \<notin> set (map_keys (reg_calls r)) \<and> [] \<notin> set (map_keys (reg_streams r))"

lemma Lookup_Some:
  "LookupCall (Some r) = map_of (reg_calls r)" "LookupStream (Some r) = map_of (reg_streams r)"
  by (simp_all add: LookupCall_def LookupStream_def fun_eq_iff)

lemma NewRegistry_wf [wf_intros]: "reg_wf NewRegistry"
  by (simp add: reg_wf_def NewRegistry_def)

lemma RegisterCall_wf [wf_intros]:
  assumes "reg_wf r" and "RegisterCall (Some r) m h = (Some r', e)"
  shows "reg_wf r'"
proof (cases "r' = r")
  case False
  then obtain x where "r' = r\<lparr>reg_calls := map_set m x (reg_calls r)\<rparr>" "m \<noteq> []"
    using assms(2) by (auto simp: RegisterCall_def split: option.splits if_splits)
  then show ?thesis using assms(1) by (simp add: reg_wf_def dom_update)
qed (use assms in simp)

lemma RegisterStream_wf [wf_intros]:
  assumes "reg_wf r" and "RegisterStream (Some r) m h = (Some r', e)"
  shows "reg_wf r'"
proof (cases "r' = r")
  case False
  then obtain x where "r' = r\<lparr>reg_streams := map_set m x (reg_streams r)\<rparr>" "m \<noteq> []"
    using assms(2) by (auto simp: RegisterStream_def split: option.splits if_splits)
  then show ?thesis using assms(1) by (simp add: reg_wf_def dom_update)
qed (use assms in simp)

section \<open>The registration contract\<close>

text \<open>
  Both halves of the registry keep one contract: an unusable registration changes nothing, a
  method keeps the handler it was first given, and a successful registration binds the
  method and no other.
\<close>

locale registration =
  fixes reg :: "'r \<Rightarrow> string \<Rightarrow> 'h option \<Rightarrow> 'r \<times> go_error option"
    and look :: "'r \<Rightarrow> string \<Rightarrow> 'h option"
    and valid :: "'r \<Rightarrow> bool"
  assumes reg_invalid: "\<not> valid r \<or> m = [] \<or> h = None \<Longrightarrow> reg r m h = (r, Some (Sentinel ErrInvalidRegistration))"
    and reg_duplicate: "valid r \<Longrightarrow> m \<noteq> [] \<Longrightarrow> h \<noteq> None \<Longrightarrow> look r m \<noteq> None \<Longrightarrow>
       reg r m h = (r, Some (Sentinel ErrDuplicateMethod))"
    and reg_fresh: "valid r \<Longrightarrow> m \<noteq> [] \<Longrightarrow> look r m = None \<Longrightarrow> reg r m (Some x) = (r', e) \<Longrightarrow>
       e = None \<and> valid r' \<and> look r' = (look r)(m \<mapsto> x)"
begin

lemma reg_cases:
  assumes "reg r m h = (r', e)"
  obtains "e = Some (Sentinel ErrInvalidRegistration)" "r' = r" "\<not> valid r \<or> m = [] \<or> h = None"
    | "e = Some (Sentinel ErrDuplicateMethod)" "r' = r" "look r m \<noteq> None"
    | x where "e = None" "valid r" "m \<noteq> []" "h = Some x" "look r m = None" "look r' = (look r)(m \<mapsto> x)" "valid r'"
proof (cases "\<not> valid r \<or> m = [] \<or> h = None")
  case True
  then show ?thesis using assms reg_invalid that(1) by auto
next
  case False
  then obtain x where h: "h = Some x" by auto
  show ?thesis
  proof (cases "look r m")
    case None
    then show ?thesis using reg_fresh[of r m x r' e] assms False h that(3) by auto
  next
    case (Some y)
    then show ?thesis using reg_duplicate[of r m h] assms False that(2) by auto
  qed
qed

lemma first_wins_step: "look r m = Some x \<Longrightarrow> look (fst (reg r m' h')) m = Some x"
proof -
  assume l: "look r m = Some x"
  obtain r' e where re: "reg r m' h' = (r', e)" by (cases "reg r m' h'")
  show ?thesis by (cases rule: reg_cases[OF re]) (use l re in auto)
qed

lemma first_wins:
  "look r m = Some x \<Longrightarrow> look (foldl (\<lambda>r (m, h). fst (reg r m h)) r ops) m = Some x"
proof (induction ops arbitrary: r)
  case Nil
  then show ?case by simp
next
  case (Cons op ops)
  obtain m' h' where op: "op = (m', h')" by (cases op)
  show ?case using Cons.IH[OF first_wins_step[OF Cons.prems]] by (simp add: op)
qed

end

interpretation call_registration: registration RegisterCall LookupCall "\<lambda>r. r \<noteq> None"
  by unfold_locales (auto simp: RegisterCall_def LookupCall_def split: option.splits if_splits)

interpretation stream_registration: registration RegisterStream LookupStream "\<lambda>r. r \<noteq> None"
  by unfold_locales (auto simp: RegisterStream_def LookupStream_def split: option.splits if_splits)

section \<open>Properties\<close>

text \<open>
  Registration, on every branch: it fails exactly for a nil registry, an empty name, a
  nil handler or a name already bound; a failure changes nothing; a success binds the method
  to the handler, changes no other method, does not touch the stream handlers, and the
  handler stays bound whatever is registered later.
\<close>

theorem RegisterCall_behaviour:
  assumes "RegisterCall registry m h = (registry', e)"
  shows "(e \<noteq> None \<longrightarrow> registry' = registry)
    \<and> (e = None \<longleftrightarrow> registry \<noteq> None \<and> m \<noteq> [] \<and> h \<noteq> None \<and> LookupCall registry m = None)
    \<and> (e = None \<longrightarrow> LookupCall registry' = (LookupCall registry)(m := h)
         \<and> LookupStream registry' = LookupStream registry
         \<and> LookupCall (foldl (\<lambda>r (m, h). fst (RegisterCall r m h)) registry' later) m = h)"
proof -
  have "LookupStream registry' = LookupStream registry"
    using assms by (auto simp: RegisterCall_def LookupStream_def fun_eq_iff split: option.splits if_splits)
  then show ?thesis
    by (cases rule: call_registration.reg_cases[OF assms])
      (auto intro: call_registration.first_wins)
qed

theorem RegisterCall_behaviour_witness:
  "LookupCall (foldl (\<lambda>r (m, h). fst (RegisterCall r m h))
      (Some (NewRegistry\<lparr>reg_calls := [(''echo'', 1)]\<rparr> :: (nat, nat) Registry)) [(''echo'', Some 2)]) ''echo'' = Some 1"
proof -
  have r: "RegisterCall (Some (NewRegistry :: (nat, nat) Registry)) ''echo'' (Some 1)
    = (Some (NewRegistry\<lparr>reg_calls := [(''echo'', 1)]\<rparr>), None)"
    by (simp add: RegisterCall_def NewRegistry_def)
  show ?thesis using RegisterCall_behaviour[OF r, of "[(''echo'', Some 2)]"] by blast
qed

lemma collect_methods_inv:
  "set methods = set seen \<Longrightarrow> distinct methods \<Longrightarrow> collect_methods ms (methods, seen) = (methods', seen') \<Longrightarrow>
   set methods' = set methods \<union> set ms \<and> set seen' = set methods' \<and> distinct methods'"
proof (induction ms arbitrary: methods seen)
  case Nil
  then show ?case by simp
next
  case (Cons m ms)
  show ?case
  proof (cases "m \<in> set seen")
    case True
    then show ?thesis using Cons by auto
  next
    case False
    then show ?thesis using Cons.prems Cons.IH[of "methods @ [m]" "m # seen"] by auto
  qed
qed

text \<open>
  \<^verbatim>\<open>Methods\<close> returns every registered method exactly once in ascending order, a method
  registered both for calls and for streams included, and does not depend on the iteration
  order of the maps.
\<close>

theorem Methods_sorted:
  "Methods (Some r) = sorted_list_of_set (dom (LookupCall (Some r)) \<union> dom (LookupStream (Some r)))"
proof -
  obtain ms1 s1 where c1: "collect_methods (map_keys (reg_calls r)) ([], []) = (ms1, s1)"
    by (cases "collect_methods (map_keys (reg_calls r)) ([], [])")
  obtain ms2 s2 where c2: "collect_methods (map_keys (reg_streams r)) (ms1, s1) = (ms2, s2)"
    by (cases "collect_methods (map_keys (reg_streams r)) (ms1, s1)")
  have i1: "set ms1 = set (map_keys (reg_calls r)) \<and> set s1 = set ms1 \<and> distinct ms1"
    using collect_methods_inv[OF _ _ c1] by simp
  then have i2: "set ms2 = set ms1 \<union> set (map_keys (reg_streams r)) \<and> distinct ms2"
    using collect_methods_inv[OF _ _ c2] by simp
  have "Methods (Some r) = sort ms2" by (simp add: Methods_def c1 c2)
  also have "\<dots> = sorted_list_of_set (set ms2)"
    using i2 sorted_list_of_set_sort_remdups[of ms2] by (metis distinct_remdups_id)
  finally show ?thesis using i1 i2
    by (simp add: Lookup_Some dom_map_of_conv_image_fst)
qed

end
