(* ===== verification/Router.thy ===== *)
theory Router
  imports Registry Handler_Port
begin

text \<open>
  The router of \<^verbatim>\<open>src/application/peer/router.go\<close>: lookup, authorization and the bounded
  concurrency budgets in front of the handlers of a registry. The function a resolution
  returns captures the registered handler and the authenticated caller, so it is a value
  holding those two; consumer code is a parameter, \<open>run\<close>, from a registered handler, a
  context and a call to the outcome of running it.
\<close>

record ('c, 's) Router =
  rt_registry :: "('c, 's) Registry option"
  rt_limits :: Limits
  rt_authorizer :: authorizer
  rt_callSlots :: gate
  rt_streamSlots :: gate

datatype 'c call_serve = CallServe 'c PeerIdentity
datatype 's stream_serve = StreamServe 's

definition NewRouterWithAuthorizer :: "('c, 's) Registry option \<Rightarrow> Limits \<Rightarrow> authorizer option \<Rightarrow> ('c, 's) Router" where
  "NewRouterWithAuthorizer registry limits auth =
    (let resolved = WithDefaults limits in \<lparr>
       rt_registry = registry,
       rt_limits = resolved,
       rt_authorizer = (case auth of None \<Rightarrow> AllowAll | Some a \<Rightarrow> a),
       rt_callSlots = make_gate (MaxConcurrentCalls resolved),
       rt_streamSlots = make_gate (MaxConcurrentStreams resolved)\<rparr>)"

definition NewRouter :: "('c, 's) Registry option \<Rightarrow> Limits \<Rightarrow> ('c, 's) Router" where
  "NewRouter registry limits = NewRouterWithAuthorizer registry limits None"

definition Router_Limits :: "('c, 's) Router option \<Rightarrow> Limits" where
  "Router_Limits router = (case router of None \<Rightarrow> DefaultLimits | Some r \<Rightarrow> rt_limits r)"

definition router_acquire :: "gate \<Rightarrow> gate \<times> bool" where
  "router_acquire slots = gate_try_send slots"

definition router_release :: "gate \<Rightarrow> gate" where
  "router_release slots = gate_try_recv slots"

definition PrepareCall :: "('c, 's) Router option \<Rightarrow> go_error option \<Rightarrow> PeerIdentity \<Rightarrow> Call
    \<Rightarrow> ('c, 's) Router option \<times> (go_error + 'c call_serve)" where
  "PrepareCall router ctx_err from call =
    (case router of
       None \<Rightarrow> (router, Inl (Sentinel ErrInvalidRegistration))
     | Some r \<Rightarrow>
         if rt_registry r = None then (router, Inl (Sentinel ErrInvalidRegistration))
         else if Call_Method call = [] then (router, Inl (Sentinel ErrMethodNotFound))
         else if int (length (Call_Payload call)) > MaxMessageBytes (rt_limits r)
           then (router, Inl (Sentinel ErrMessageTooLarge))
         else (case LookupCall (rt_registry r) (Call_Method call) of
             None \<Rightarrow> (router, Inl (Sentinel ErrMethodNotFound))
           | Some registered \<Rightarrow>
               (case ctx_err of
                  Some err \<Rightarrow> (router, Inl err)
                | None \<Rightarrow>
                    (case AuthorizeCall (rt_authorizer r) from (Call_Method call) of
                       AuthPanic \<Rightarrow> (router, Inl (Wrap ''authorization panic'' (Sentinel ErrInternal)))
                     | Deny err \<Rightarrow> (router, Inl err)
                     | Allow \<Rightarrow>
                         (case router_acquire (rt_callSlots r) of
                            (slots, False) \<Rightarrow> (router, Inl (Sentinel ErrOverloaded))
                          | (slots, True) \<Rightarrow>
                              (Some (r\<lparr>rt_callSlots := slots\<rparr>), Inr (CallServe registered from)))))))"

definition invokeSafely :: "Result outcome \<Rightarrow> go_error + Result" where
  "invokeSafely out = (case out of
     Returned result \<Rightarrow> Inr result
   | Failed err \<Rightarrow> Inl err
   | Panicked \<Rightarrow> Inl (Wrap ''handler panic'' (Sentinel ErrInternal)))"

text \<open>
  The function \<^verbatim>\<open>PrepareCall\<close> returns, in two halves: the call the consumer's handler is
  given, and what is made of the handler's outcome, with the deferred release of the slot.
\<close>

definition serve_call_request :: "'c call_serve \<Rightarrow> Call \<Rightarrow> Call" where
  "serve_call_request s call = (case s of CallServe registered from \<Rightarrow> call\<lparr>Call_From := from\<rparr>)"

definition serve_call_finish :: "('c, 's) Router \<Rightarrow> Result outcome \<Rightarrow> ('c, 's) Router \<times> (go_error + Result)" where
  "serve_call_finish r out =
    (let r' = r\<lparr>rt_callSlots := router_release (rt_callSlots r)\<rparr> in
     case invokeSafely out of
       Inl err \<Rightarrow> (r', Inl err)
     | Inr result \<Rightarrow>
         if int (length (Result_Payload result)) > MaxMessageBytes (rt_limits r)
         then (r', Inl (Sentinel ErrMessageTooLarge))
         else (r', Inr result))"

definition serve_call :: "('c \<Rightarrow> go_error option \<Rightarrow> Call \<Rightarrow> Result outcome) \<Rightarrow> ('c, 's) Router \<Rightarrow> 'c call_serve
    \<Rightarrow> go_error option \<Rightarrow> Call \<Rightarrow> ('c, 's) Router \<times> (go_error + Result)" where
  "serve_call run r s ctx_err call =
    (case s of CallServe registered from \<Rightarrow>
       serve_call_finish r (run registered ctx_err (serve_call_request s call)))"

definition PrepareStream :: "('c, 's) Router option \<Rightarrow> (PeerIdentity \<times> string) option
    \<Rightarrow> ('c, 's) Router option \<times> (go_error + 's stream_serve)" where
  "PrepareStream router stream =
    (case router of
       None \<Rightarrow> (router, Inl (Sentinel ErrInvalidRegistration))
     | Some r \<Rightarrow>
         if rt_registry r = None then (router, Inl (Sentinel ErrInvalidRegistration))
         else (case stream of
            None \<Rightarrow> (router, Inl (Sentinel ErrMethodNotFound))
          | Some (from, method) \<Rightarrow>
              if method = [] then (router, Inl (Sentinel ErrMethodNotFound))
              else (case LookupStream (rt_registry r) method of
                 None \<Rightarrow> (router, Inl (Sentinel ErrMethodNotFound))
               | Some registered \<Rightarrow>
                   (case AuthorizeStream (rt_authorizer r) from method of
                      AuthPanic \<Rightarrow> (router, Inl (Wrap ''authorization panic'' (Sentinel ErrInternal)))
                    | Deny err \<Rightarrow> (router, Inl err)
                    | Allow \<Rightarrow>
                        (case router_acquire (rt_streamSlots r) of
                           (slots, False) \<Rightarrow> (router, Inl (Sentinel ErrOverloaded))
                         | (slots, True) \<Rightarrow>
                             (Some (r\<lparr>rt_streamSlots := slots\<rparr>), Inr (StreamServe registered)))))))"

definition serveStreamSafely :: "unit outcome \<Rightarrow> go_error option" where
  "serveStreamSafely out = (case out of
     Returned _ \<Rightarrow> None
   | Failed err \<Rightarrow> Some err
   | Panicked \<Rightarrow> Some (Wrap ''handler panic'' (Sentinel ErrInternal)))"

definition serve_stream_finish :: "('c, 's) Router \<Rightarrow> unit outcome \<Rightarrow> ('c, 's) Router \<times> go_error option" where
  "serve_stream_finish r out =
    (r\<lparr>rt_streamSlots := router_release (rt_streamSlots r)\<rparr>, serveStreamSafely out)"

text \<open>The in-process forms.\<close>

definition Invoke :: "('c \<Rightarrow> go_error option \<Rightarrow> Call \<Rightarrow> Result outcome) \<Rightarrow> ('c, 's) Router option
    \<Rightarrow> go_error option \<Rightarrow> PeerIdentity \<Rightarrow> Call \<Rightarrow> ('c, 's) Router option \<times> (go_error + Result)" where
  "Invoke run router ctx_err from call =
    (case PrepareCall router ctx_err from call of
       (router', Inl err) \<Rightarrow> (router', Inl err)
     | (None, Inr s) \<Rightarrow> (None, Inl (Sentinel ErrInvalidRegistration))
     | (Some r, Inr s) \<Rightarrow> map_prod Some id (serve_call run r s ctx_err call))"

definition ServeStream :: "('s \<Rightarrow> unit outcome) \<Rightarrow> ('c, 's) Router option \<Rightarrow> (PeerIdentity \<times> string) option
    \<Rightarrow> ('c, 's) Router option \<times> go_error option" where
  "ServeStream run router stream =
    (case PrepareStream router stream of
       (router', Inl err) \<Rightarrow> (router', Some err)
     | (None, Inr s) \<Rightarrow> (None, Some (Sentinel ErrInvalidRegistration))
     | (Some r, Inr (StreamServe registered)) \<Rightarrow> map_prod Some id (serve_stream_finish r (run registered)))"

section \<open>The router's budgets\<close>

interpretation router_gate: slot_gate router_acquire router_release gate_len gate_cap
  by unfold_locales
    (auto simp: router_acquire_def router_release_def gate_try_send_def gate_try_recv_def split: if_splits)

text \<open>
  The router as the handler of a session. A session's router is never nil, and the stream it
  hands over carries its own peer and method.
\<close>

definition router_ops :: "(('c, 's) Router option, 'c call_serve, 's stream_serve) handler_ops" where
  "router_ops = \<lparr>
     op_PrepareCall = PrepareCall,
     op_ServeCall = (\<lambda>router s out. case router of
        None \<Rightarrow> (None, Inl (Sentinel ErrInvalidRegistration))
      | Some r \<Rightarrow> map_prod Some id (serve_call_finish r out)),
     op_PrepareStream = (\<lambda>router from method. PrepareStream router (Some (from, method))),
     op_ServeStream = (\<lambda>router s out. case router of
        None \<Rightarrow> (None, Some (Sentinel ErrInvalidRegistration))
      | Some r \<Rightarrow> map_prod Some id (serve_stream_finish r out))\<rparr>"

definition router_busyCalls :: "('c, 's) Router option \<Rightarrow> nat" where
  "router_busyCalls router = (case router of None \<Rightarrow> 0 | Some r \<Rightarrow> gate_len (rt_callSlots r))"

definition router_maxCalls :: "('c, 's) Router option \<Rightarrow> nat" where
  "router_maxCalls router = (case router of None \<Rightarrow> 0 | Some r \<Rightarrow> gate_cap (rt_callSlots r))"

definition router_busyStreams :: "('c, 's) Router option \<Rightarrow> nat" where
  "router_busyStreams router = (case router of None \<Rightarrow> 0 | Some r \<Rightarrow> gate_len (rt_streamSlots r))"

definition router_maxStreams :: "('c, 's) Router option \<Rightarrow> nat" where
  "router_maxStreams router = (case router of None \<Rightarrow> 0 | Some r \<Rightarrow> gate_cap (rt_streamSlots r))"

lemmas router_budget_defs = router_busyCalls_def router_maxCalls_def router_busyStreams_def router_maxStreams_def

text \<open>Case analysis of the two resolutions.\<close>

lemma PrepareCall_cases:
  assumes "PrepareCall router ctx_err from call = (router', res)"
  obtains (Refused) e where "res = Inl e" "router' = router"
  | (Resolved) r registered slots where "router = Some r" "Call_Method call \<noteq> []"
      "LookupCall (rt_registry r) (Call_Method call) = Some registered"
      "ctx_err = None" "AuthorizeCall (rt_authorizer r) from (Call_Method call) = Allow"
      "int (length (Call_Payload call)) \<le> MaxMessageBytes (rt_limits r)"
      "router_acquire (rt_callSlots r) = (slots, True)"
      "router' = Some (r\<lparr>rt_callSlots := slots\<rparr>)" "res = Inr (CallServe registered from)"
  using assms
  by (auto simp: PrepareCall_def split: option.splits if_splits auth_decision.splits prod.splits bool.splits)

lemma PrepareStream_cases:
  assumes "PrepareStream router stream = (router', res)"
  obtains (Refused) e where "res = Inl e" "router' = router"
  | (Resolved) r who m registered slots where "router = Some r" "stream = Some (who, m)"
      "LookupStream (rt_registry r) m = Some registered"
      "AuthorizeStream (rt_authorizer r) who m = Allow"
      "router_acquire (rt_streamSlots r) = (slots, True)"
      "router' = Some (r\<lparr>rt_streamSlots := slots\<rparr>)" "res = Inr (StreamServe registered)"
  using assms
  by (auto simp: PrepareStream_def split: option.splits if_splits auth_decision.splits prod.splits bool.splits)

lemma router_ops_PrepareCall: "op_PrepareCall router_ops = PrepareCall"
  by (simp add: router_ops_def)

lemma router_ops_PrepareStream: "op_PrepareStream router_ops h who m = PrepareStream h (Some (who, m))"
  by (simp add: router_ops_def)

lemma router_acquire_cap: "router_acquire g = (g', b) \<Longrightarrow> gate_cap g' = gate_cap g"
  using router_gate.acquire_cap[of g] by simp

interpretation router_port: handler_port router_ops router_busyCalls router_maxCalls router_busyStreams router_maxStreams
proof unfold_locales
  fix h ctx who call e and h' :: "('c, 's) Router option"
  assume "op_PrepareCall router_ops h ctx who call = (h', Inl e)"
  then show "h' = h" unfolding router_ops_PrepareCall by (cases rule: PrepareCall_cases) auto
next
  fix h ctx who call v and h' :: "('c, 's) Router option"
  assume "op_PrepareCall router_ops h ctx who call = (h', Inr v)"
  then show "router_busyCalls h < router_maxCalls h \<and> router_busyCalls h' = Suc (router_busyCalls h)
      \<and> router_maxCalls h' = router_maxCalls h \<and> router_busyStreams h' = router_busyStreams h
      \<and> router_maxStreams h' = router_maxStreams h"
    unfolding router_ops_PrepareCall by (cases rule: PrepareCall_cases)
      (auto simp: router_budget_defs dest: router_gate.acquire_ok router_acquire_cap)
next
  fix h v out r and h' :: "('c, 's) Router option"
  assume "op_ServeCall router_ops h v out = (h', r)"
  then show "router_busyCalls h' = router_busyCalls h - 1
      \<and> router_maxCalls h' = router_maxCalls h \<and> router_busyStreams h' = router_busyStreams h
      \<and> router_maxStreams h' = router_maxStreams h"
    by (auto simp: router_ops_def router_budget_defs serve_call_finish_def Let_def router_gate.release_used
      router_gate.release_cap split: option.splits sum.splits if_splits)
next
  fix h who m e and h' :: "('c, 's) Router option"
  assume "op_PrepareStream router_ops h who m = (h', Inl e)"
  then show "h' = h" unfolding router_ops_PrepareStream by (cases rule: PrepareStream_cases) auto
next
  fix h who m w and h' :: "('c, 's) Router option"
  assume "op_PrepareStream router_ops h who m = (h', Inr w)"
  then show "router_busyStreams h < router_maxStreams h \<and> router_busyStreams h' = Suc (router_busyStreams h)
      \<and> router_maxStreams h' = router_maxStreams h \<and> router_busyCalls h' = router_busyCalls h
      \<and> router_maxCalls h' = router_maxCalls h" unfolding router_ops_PrepareStream
    by (cases rule: PrepareStream_cases)
      (auto simp: router_budget_defs dest: router_gate.acquire_ok router_acquire_cap)
next
  fix h w out' e' and h' :: "('c, 's) Router option"
  assume "op_ServeStream router_ops h w out' = (h', e')"
  then show "router_busyStreams h' = router_busyStreams h - 1
      \<and> router_maxStreams h' = router_maxStreams h \<and> router_busyCalls h' = router_busyCalls h
      \<and> router_maxCalls h' = router_maxCalls h"
    by (auto simp: router_ops_def router_budget_defs serve_stream_finish_def router_gate.release_used
      router_gate.release_cap split: option.splits)
qed

text \<open>No step changes the registry, the limits or the authorizer of a router.\<close>

definition router_config :: "('c, 's) Router option \<Rightarrow> (('c, 's) Registry option \<times> Limits \<times> authorizer) option" where
  "router_config router = map_option (\<lambda>r. (rt_registry r, rt_limits r, rt_authorizer r)) router"

lemma router_config_step: "port_step router_ops s s' \<Longrightarrow> router_config (fst s') = router_config (fst s)"
proof (induction rule: port_step.induct)
  case (call_prepared h ctx who call h' v vs ws)
  then show ?case unfolding router_ops_PrepareCall
    by (cases rule: PrepareCall_cases) (auto simp: router_config_def)
next
  case (stream_prepared h who m h' w vs ws)
  then show ?case unfolding router_ops_PrepareStream
    by (cases rule: PrepareStream_cases) (auto simp: router_config_def)
next
  case (call_denied h ctx who call h' e vs ws)
  then show ?case by (auto dest: router_port.call_refused)
next
  case (stream_denied h who m h' e vs ws)
  then show ?case by (auto dest: router_port.stream_refused)
qed (auto simp: router_config_def router_ops_def serve_call_finish_def serve_stream_finish_def Let_def
       split: option.splits sum.splits if_splits)

lemma router_config_reachable:
  "(port_step router_ops)\<^sup>*\<^sup>* s s' \<Longrightarrow> router_config (fst s') = router_config (fst s)"
  by (induction rule: rtranclp_induct) (auto dest: router_config_step)

lemma router_caps_step:
  "port_step router_ops s s' \<Longrightarrow> router_maxCalls (fst s') = router_maxCalls (fst s) \<and> router_maxStreams (fst s') = router_maxStreams (fst s)"
  by (induction rule: port_step.induct)
    (auto dest!: router_port.call_refused router_port.call_resolved router_port.call_served
       router_port.stream_refused router_port.stream_resolved router_port.stream_served)

lemma router_caps_reachable:
  "(port_step router_ops)\<^sup>*\<^sup>* s s' \<Longrightarrow>
   router_maxCalls (fst s') = router_maxCalls (fst s) \<and> router_maxStreams (fst s') = router_maxStreams (fst s)"
  by (induction rule: rtranclp_induct) (auto dest: router_caps_step)

definition call_admissible :: "('c, 's) Router \<Rightarrow> go_error option \<Rightarrow> PeerIdentity \<Rightarrow> Call \<Rightarrow> bool" where
  "call_admissible r ctx_err who call \<longleftrightarrow> Call_Method call \<noteq> []
     \<and> int (length (Call_Payload call)) \<le> MaxMessageBytes (rt_limits r)
     \<and> LookupCall (rt_registry r) (Call_Method call) \<noteq> None
     \<and> ctx_err = None \<and> AuthorizeCall (rt_authorizer r) who (Call_Method call) = Allow"

lemma LookupCall_None_registry [simp]: "LookupCall None m = None" "LookupStream None m = None"
  by (simp_all add: LookupCall_def LookupStream_def)

lemma PrepareCall_overloaded:
  "call_admissible r ctx_err who call \<Longrightarrow>
   (case snd (PrepareCall (Some r) ctx_err who call) of
      Inl e \<Rightarrow> e = Sentinel ErrOverloaded \<and> gate_cap (rt_callSlots r) \<le> gate_len (rt_callSlots r)
    | Inr v \<Rightarrow> gate_len (rt_callSlots r) < gate_cap (rt_callSlots r))"
  by (cases "rt_registry r") (auto simp: PrepareCall_def call_admissible_def split: option.splits prod.splits bool.splits
     dest: router_gate.acquire_ok router_gate.acquire_full)

section \<open>Properties\<close>

text \<open>
  C28. An invocation succeeds with a result exactly when the router has a registry, the
  method is named and registered for calls, the payload is within the limit, the context is
  alive, the authorizer allows that peer that method, a slot is free, and the handler, run
  once on the call with its From field overwritten by the authenticated identity, returns
  that result within the message limit. Every other outcome of any of these is an error.
\<close>

theorem Invoke_succeeds_iff:
  "snd (Invoke run router ctx_err who call) = Inr result \<longleftrightarrow>
   (\<exists>r registered. router = Some r
      \<and> Call_Method call \<noteq> []
      \<and> int (length (Call_Payload call)) \<le> MaxMessageBytes (rt_limits r)
      \<and> LookupCall (rt_registry r) (Call_Method call) = Some registered
      \<and> ctx_err = None
      \<and> AuthorizeCall (rt_authorizer r) who (Call_Method call) = Allow
      \<and> gate_len (rt_callSlots r) < gate_cap (rt_callSlots r)
      \<and> run registered None (call\<lparr>Call_From := who\<rparr>) = Returned result
      \<and> int (length (Result_Payload result)) \<le> MaxMessageBytes (rt_limits r))"
  by (auto simp: Invoke_def PrepareCall_def serve_call_def serve_call_finish_def serve_call_request_def invokeSafely_def
      router_acquire_def gate_try_send_def Let_def
      split: option.splits if_splits auth_decision.splits prod.splits bool.splits sum.splits outcome.splits)

text \<open>
  C18. Neither an invocation nor a served stream leaks or steals capacity: whatever the
  handler does (returns, fails or panics) and on every refusal, the router afterwards is the
  router before.
\<close>

theorem router_restored:
  "fst (Invoke run router ctx_err who call) = router
   \<and> fst (ServeStream run_stream router stream) = router"
proof
  show "fst (Invoke run router ctx_err who call) = router"
    by (auto simp: Invoke_def PrepareCall_def serve_call_def serve_call_finish_def
        router_acquire_def router_release_def gate_try_send_def gate_try_recv_def Let_def
        split: option.splits if_splits auth_decision.splits prod.splits bool.splits sum.splits)
  show "fst (ServeStream run_stream router stream) = router"
    by (auto simp: ServeStream_def PrepareStream_def serve_stream_finish_def
        router_acquire_def router_release_def gate_try_send_def gate_try_recv_def
        split: option.splits if_splits auth_decision.splits prod.splits bool.splits sum.splits stream_serve.splits)
qed


definition locked_router :: "(nat, nat) Router" where
  "locked_router = NewRouterWithAuthorizer (Some (NewRegistry\<lparr>reg_calls := [(''echo'', 1)]\<rparr>)) DefaultLimits
     (Some \<lparr>AuthorizeCall = (\<lambda>p m. if URI p = ''spiffe://a'' then Allow else Deny (Sentinel ErrUnauthorized)),
            AuthorizeStream = (\<lambda>_ _. AuthPanic)\<rparr>)"




text \<open>The error of the authorizer is passed on as it is; unless it wraps a sentinel, the wire calls it an internal error.\<close>

lemma denial_passed_on:
  assumes "rt_registry r \<noteq> None" "Call_Method call \<noteq> []" "int (length (Call_Payload call)) \<le> MaxMessageBytes (rt_limits r)"
    "LookupCall (rt_registry r) (Call_Method call) \<noteq> None" "AuthorizeCall (rt_authorizer r) from' (Call_Method call) = Deny (Plain reason)"
  shows "PrepareCall (Some r) None from' call = (Some r, Inl (Plain reason)) \<and> StatusOf (Some (Plain reason)) = StatusInternal"
  using assms by (auto simp: PrepareCall_def StatusOf_def)

end
