(* ===== verification/Session_Effects.thy ===== *)
theory Session_Effects
  imports Conn_Session
begin

text \<open>
  What the primitives of the session engine change and what they leave alone: ending the
  session, writing a frame, finishing and cancelling shared objects. The operations of
  \<^verbatim>\<open>session.go\<close> and \<^verbatim>\<open>dispatch.go\<close> are compositions of these.
\<close>

section \<open>Streams that are only ended\<close>

text \<open>
  Ending a session or a stream touches the streams of the store in one way only: contexts are
  cancelled and streams are finished. The queues and the progress of the senders stay.
\<close>

definition ended_by :: "stream \<Rightarrow> stream \<Rightarrow> bool" where
  "ended_by a b \<longleftrightarrow>
     st_id b = st_id a \<and> st_fromSession b = st_fromSession a \<and> st_inbound b = st_inbound a \<and> st_outbound b = st_outbound a
   \<and> st_inboundCap b = st_inboundCap a \<and> st_outboundCap b = st_outboundCap a
   \<and> st_sendEnd b = st_sendEnd a \<and> st_written b = st_written a \<and> st_pumping b = st_pumping a
   \<and> (st_ctx a \<noteq> None \<longrightarrow> st_ctx b = st_ctx a)
   \<and> (st_finishOnce a \<longrightarrow> st_finishOnce b \<and> st_finishErr b = st_finishErr a)
   \<and> (stream_inv a \<longrightarrow> stream_inv b)"

lemma ended_by_refl [simp]: "ended_by a a"
  by (simp add: ended_by_def)

lemma ended_by_trans: "ended_by a b \<Longrightarrow> ended_by b c \<Longrightarrow> ended_by a c"
  unfolding ended_by_def by (elim conjE, intro conjI) simp_all

lemma ended_by_finish [simp]: "ended_by a (finishStream err a)"
  using finishStream_inv[of a err]
  by (simp add: ended_by_def) (simp add: finishStream_def closeInboundFinal_def stream_cancel_def Let_def)

lemma ended_by_cancel [simp]: "ended_by a (stream_cancel err a)"
  using stream_cancel_inv[of a err] by (simp add: ended_by_def stream_cancel_def)

definition heap_ended_by :: "stream list \<Rightarrow> stream list \<Rightarrow> bool" where
  "heap_ended_by h h' \<longleftrightarrow> list_all2 ended_by h h'"

lemma heap_ended_by_refl [simp]: "heap_ended_by h h"
  by (simp add: heap_ended_by_def list_all2_refl)

lemma heap_ended_by_trans: "heap_ended_by h1 h2 \<Longrightarrow> heap_ended_by h2 h3 \<Longrightarrow> heap_ended_by h1 h3"
  unfolding heap_ended_by_def by (rule list_all2_trans[of ended_by ended_by ended_by]) (auto intro: ended_by_trans)

lemma heap_ended_byD:
  assumes "heap_ended_by h h'"
  shows "length h' = length h" and "r < length h \<Longrightarrow> ended_by (h ! r) (h' ! r)"
  using assms by (auto simp: heap_ended_by_def list_all2_conv_all_nth)

lemma heap_ended_by_update: "ended_by (h ! r) x \<Longrightarrow> heap_ended_by h (h[r := x])"
  by (cases "r < length h") (auto simp: heap_ended_by_def list_all2_conv_all_nth nth_list_update)

lemma heap_ended_by_map: "(\<And>a. ended_by a (f a)) \<Longrightarrow> heap_ended_by h (map f h)"
  by (simp add: heap_ended_by_def list_all2_conv_all_nth)

section \<open>Ending a session, in one update\<close>

definition finish_all :: "go_error option \<Rightarrow> ref list \<Rightarrow> stream list \<times> reader_state \<Rightarrow> stream list \<times> reader_state" where
  "finish_all err rs = fold (\<lambda>r (h, rd). let h' = h[r := finishStream err (h ! r)] in (h', woken h' rd)) rs"

definition post_all :: "ref list \<Rightarrow> 'a \<Rightarrow> 'a list list \<Rightarrow> 'a list list" where
  "post_all cs v = fold (\<lambda>c b. b[c := b ! c @ [v]]) cs"

definition cancel_all :: "ref list \<Rightarrow> go_error option list \<Rightarrow> go_error option list" where
  "cancel_all cs = fold (\<lambda>c b. b[c := cancel_ctx (b ! c)]) cs"

definition cancel_heap :: "stream list \<Rightarrow> stream list" where
  "cancel_heap h = map (\<lambda>st. if st_fromSession st then stream_cancel (Sentinel ErrCanceled) st else st) h"

lemma finish_ref_eq:
  "finish_ref r e s = (let h = (se_heap s)[r := finishStream e (se_heap s ! r)] in
     s\<lparr>se_heap := h, se_reader := woken h (se_reader s)\<rparr>)"
  by (simp add: finish_ref_def wake_reader_def upd_stream_def Let_def)

lemma session_cancel_eq:
  "session_cancel s = s\<lparr>se_ctx := cancel_ctx (se_ctx s), se_heap := cancel_heap (se_heap s),
     se_callCtxs := map cancel_ctx (se_callCtxs s), se_reader := woken (cancel_heap (se_heap s)) (se_reader s)\<rparr>"
  by (simp add: session_cancel_def wake_reader_def cancel_heap_def)

lemma fold_finish_ref:
  "fold (\<lambda>r. finish_ref r e) rs s =
    s\<lparr>se_heap := fst (finish_all e rs (se_heap s, se_reader s)), se_reader := snd (finish_all e rs (se_heap s, se_reader s))\<rparr>"
  by (induction rs arbitrary: s) (simp_all add: finish_all_def finish_ref_eq Let_def)

lemma fold_send_outcome:
  "fold (\<lambda>c. send_outcome c v) cs s = s\<lparr>se_callChans := post_all cs v (se_callChans s)\<rparr>"
  by (induction cs arbitrary: s) (simp_all add: post_all_def send_outcome_def)

lemma fold_send_accepted:
  "fold (\<lambda>c. send_accepted c v) cs s = s\<lparr>se_openChans := post_all cs v (se_openChans s)\<rparr>"
  by (induction cs arbitrary: s) (simp_all add: post_all_def send_accepted_def)

lemma fold_cancel_call:
  "fold cancel_call cs s = s\<lparr>se_callCtxs := cancel_all cs (se_callCtxs s)\<rparr>"
  by (induction cs arbitrary: s) (simp_all add: cancel_all_def cancel_call_def)

definition end_terminal :: "go_error option \<Rightarrow> ('h, 'v, 'w) Session \<Rightarrow> go_error option" where
  "end_terminal cause s = (if se_ended s then se_terminal s else Some (terminalOf cause))"

definition end_streams :: "go_error option \<Rightarrow> ('h, 'v, 'w) Session \<Rightarrow> stream list \<times> reader_state" where
  "end_streams cause s = finish_all (if err_is cause IoEOF then None else cause) (map_vals (se_streams s))
     (cancel_heap (se_heap s), woken (cancel_heap (se_heap s)) (se_reader s))"

lemma session_end_eq:
  "session_end cause s = s\<lparr>
     se_ctx := cancel_ctx (se_ctx s), se_transport := transport_close (se_transport s),
     se_ended := True, se_terminal := end_terminal cause s,
     se_streams := [], se_calls := [], se_opens := [], se_inflight := [],
     se_callChans := post_all (map_vals (se_calls s)) \<lparr>uo_payload = [], uo_err = end_terminal cause s\<rparr> (se_callChans s),
     se_openChans := post_all (map_vals (se_opens s)) (end_terminal cause s) (se_openChans s),
     se_callCtxs := cancel_all (map_vals (se_inflight s)) (map cancel_ctx (se_callCtxs s)),
     se_heap := fst (end_streams cause s), se_reader := snd (end_streams cause s)\<rparr>"
  by (simp add: session_end_def session_cancel_eq Let_def fold_send_outcome fold_send_accepted fold_cancel_call
      fold_finish_ref end_terminal_def end_streams_def)

lemma finish_all_heap: "heap_ended_by (fst x) (fst (finish_all e rs x))"
proof (induction rs arbitrary: x)
  case Nil
  then show ?case by (simp add: finish_all_def)
next
  case (Cons r rs)
  obtain h rd where x: "x = (h, rd)" by (cases x)
  let ?h = "h[r := finishStream e (h ! r)]"
  have "heap_ended_by h ?h" by (rule heap_ended_by_update) simp
  moreover have "heap_ended_by ?h (fst (finish_all e rs (?h, woken ?h rd)))" using Cons.IH[of "(?h, woken ?h rd)"] by simp
  ultimately show ?case using x heap_ended_by_trans by (simp add: finish_all_def Let_def)
qed

lemma cancel_heap_ended: "heap_ended_by h (cancel_heap h)"
  unfolding cancel_heap_def by (rule heap_ended_by_map) simp

lemma end_streams_heap: "heap_ended_by (se_heap s) (fst (end_streams cause s))"
  unfolding end_streams_def
  by (rule heap_ended_by_trans[OF cancel_heap_ended]) (rule finish_all_heap[of "(cancel_heap (se_heap s), _)", simplified])

section \<open>What the primitives leave alone\<close>

lemma session_end_fields [simp]:
  "se_cfg (session_end c s) = se_cfg s" "se_limits (session_end c s) = se_limits s"
  "se_nextStreamID (session_end c s) = se_nextStreamID s"
  "se_callGate (session_end c s) = se_callGate s" "se_streamGate (session_end c s) = se_streamGate s"
  "se_lastPong (session_end c s) = se_lastPong s" "se_handler (session_end c s) = se_handler s"
  "se_probing (session_end c s) = se_probing s" "se_callTasks (session_end c s) = se_callTasks s"
  "se_streamTasks (session_end c s) = se_streamTasks s" "se_callers (session_end c s) = se_callers s"
  "se_openers (session_end c s) = se_openers s" "se_followers (session_end c s) = se_followers s"
  "se_closeOnce (session_end c s) = se_closeOnce s" "se_source (session_end c s) = se_source s"
  "se_streams (session_end c s) = []" "se_calls (session_end c s) = []" "se_opens (session_end c s) = []"
  "se_inflight (session_end c s) = []" "se_ended (session_end c s)"
  "se_ctx (session_end c s) = cancel_ctx (se_ctx s)"
  "se_transport (session_end c s) = transport_close (se_transport s)"
  "se_terminal (session_end c s) = end_terminal c s"
  by (simp_all add: session_end_eq)

lemma finish_ref_fields [simp]:
  "se_cfg (finish_ref r e s) = se_cfg s" "se_limits (finish_ref r e s) = se_limits s"
  "se_nextStreamID (finish_ref r e s) = se_nextStreamID s"
  "se_callGate (finish_ref r e s) = se_callGate s" "se_streamGate (finish_ref r e s) = se_streamGate s"
  "se_lastPong (finish_ref r e s) = se_lastPong s" "se_handler (finish_ref r e s) = se_handler s"
  "se_probing (finish_ref r e s) = se_probing s" "se_callTasks (finish_ref r e s) = se_callTasks s"
  "se_streamTasks (finish_ref r e s) = se_streamTasks s" "se_callers (finish_ref r e s) = se_callers s"
  "se_openers (finish_ref r e s) = se_openers s" "se_followers (finish_ref r e s) = se_followers s"
  "se_closeOnce (finish_ref r e s) = se_closeOnce s" "se_source (finish_ref r e s) = se_source s"
  "se_streams (finish_ref r e s) = se_streams s" "se_calls (finish_ref r e s) = se_calls s"
  "se_opens (finish_ref r e s) = se_opens s" "se_inflight (finish_ref r e s) = se_inflight s"
  "se_ended (finish_ref r e s) = se_ended s" "se_ctx (finish_ref r e s) = se_ctx s"
  "se_transport (finish_ref r e s) = se_transport s" "se_terminal (finish_ref r e s) = se_terminal s"
  "se_callChans (finish_ref r e s) = se_callChans s" "se_openChans (finish_ref r e s) = se_openChans s"
  "se_callCtxs (finish_ref r e s) = se_callCtxs s"
  "se_heap (finish_ref r e s) = (se_heap s)[r := finishStream e (se_heap s ! r)]"
  by (simp_all add: finish_ref_eq Let_def)

lemma writeFrame_cases:
  obtains t where "writeFrame f s = (s\<lparr>se_transport := t\<rparr>, None)"
      "WriteFrame transport_write (NewWriter (MaxMessageBytes (se_limits s))) (se_transport s) f = (t, None)"
  | t e where "writeFrame f s = (session_end (Some e) (s\<lparr>se_transport := t\<rparr>), Some e)"
      "WriteFrame transport_write (NewWriter (MaxMessageBytes (se_limits s))) (se_transport s) f = (t, Some e)"
  by (cases "WriteFrame transport_write (NewWriter (MaxMessageBytes (se_limits s))) (se_transport s) f";
      cases "snd (WriteFrame transport_write (NewWriter (MaxMessageBytes (se_limits s))) (se_transport s) f)")
    (auto simp: writeFrame_def)

lemma sendFrame_fields [simp]:
  "se_cfg (sendFrame f s) = se_cfg s" "se_limits (sendFrame f s) = se_limits s"
  "se_nextStreamID (sendFrame f s) = se_nextStreamID s"
  "se_callGate (sendFrame f s) = se_callGate s" "se_streamGate (sendFrame f s) = se_streamGate s"
  "se_lastPong (sendFrame f s) = se_lastPong s" "se_handler (sendFrame f s) = se_handler s"
  "se_probing (sendFrame f s) = se_probing s" "se_callTasks (sendFrame f s) = se_callTasks s"
  "se_streamTasks (sendFrame f s) = se_streamTasks s" "se_callers (sendFrame f s) = se_callers s"
  "se_openers (sendFrame f s) = se_openers s" "se_followers (sendFrame f s) = se_followers s"
  "se_closeOnce (sendFrame f s) = se_closeOnce s" "se_source (sendFrame f s) = se_source s"
  unfolding sendFrame_def by (cases rule: writeFrame_cases[of f s]; simp)+


lemma writeFrame_frame:
  assumes "writeFrame f s = (s', e)"
  shows "se_cfg s' = se_cfg s" "se_limits s' = se_limits s" "se_nextStreamID s' = se_nextStreamID s"
    "se_callGate s' = se_callGate s" "se_streamGate s' = se_streamGate s" "se_lastPong s' = se_lastPong s"
    "se_handler s' = se_handler s" "se_probing s' = se_probing s" "se_callTasks s' = se_callTasks s"
    "se_streamTasks s' = se_streamTasks s" "se_callers s' = se_callers s" "se_openers s' = se_openers s"
    "se_followers s' = se_followers s" "se_closeOnce s' = se_closeOnce s" "se_source s' = se_source s"
  using assms sendFrame_fields[of f s] by (simp_all add: sendFrame_def)

section \<open>What ending does to the store\<close>

lemma length_post_all [simp]: "length (post_all cs v b) = length b"
  unfolding post_all_def by (induction cs arbitrary: b) simp_all

lemma post_all_nth:
  "distinct cs \<Longrightarrow> i < length b \<Longrightarrow> post_all cs v b ! i = (if i \<in> set cs then b ! i @ [v] else b ! i)"
proof (induction cs arbitrary: b)
  case Nil
  then show ?case by (simp add: post_all_def)
next
  case (Cons a cs)
  then show ?case using Cons.IH[of "b[a := b ! a @ [v]]"]
    by (cases "i = a") (auto simp: post_all_def)
qed

lemma finish_all_finished:
  "r \<in> set rs \<Longrightarrow> r < length (fst x) \<Longrightarrow> st_finishOnce (fst (finish_all e rs x) ! r)"
proof (induction rs arbitrary: x)
  case (Cons q rs)
  obtain h rd where x: "x = (h, rd)" by (cases x)
  let ?h = "h[q := finishStream e (h ! q)]"
  have st: "finish_all e (q # rs) x = finish_all e rs (?h, woken ?h rd)" by (simp add: finish_all_def x Let_def)
  show ?case
  proof (cases "r \<in> set rs")
    case True
    then show ?thesis using Cons.IH[of "(?h, woken ?h rd)"] Cons.prems(2) unfolding st by (simp add: x)
  next
    case False
    then have "r = q" using Cons.prems by simp
    then have f: "st_finishOnce (?h ! r)" "r < length ?h" using Cons.prems by (simp_all add: x)
    have "heap_ended_by ?h (fst (finish_all e rs (?h, woken ?h rd)))"
      using finish_all_heap[of "(?h, woken ?h rd)"] by simp
    from heap_ended_byD(2)[OF this f(2)] f(1) show ?thesis unfolding st by (simp add: ended_by_def)
  qed
qed simp

lemma session_end_heap: "heap_ended_by (se_heap s) (se_heap (session_end c s))"
  by (simp add: session_end_eq end_streams_heap)

lemma session_end_finished:
  "r \<in> set (map_vals (se_streams s)) \<Longrightarrow> r < length (se_heap s) \<Longrightarrow> st_finishOnce (se_heap (session_end c s) ! r)"
  using heap_ended_byD(1)[OF cancel_heap_ended]
  by (simp add: session_end_eq end_streams_def finish_all_finished del: set_map)

lemma session_end_cancelled:
  assumes "r < length (se_heap s)" and "st_fromSession (se_heap s ! r)"
  shows "st_ctx (se_heap (session_end c s) ! r) \<noteq> None"
proof -
  have l: "length (cancel_heap (se_heap s)) = length (se_heap s)" by (rule heap_ended_byD(1)[OF cancel_heap_ended])
  have c: "st_ctx (cancel_heap (se_heap s) ! r) \<noteq> None"
    using assms by (simp add: cancel_heap_def stream_cancel_def)
  have "heap_ended_by (cancel_heap (se_heap s)) (fst (end_streams c s))"
    unfolding end_streams_def
    by (rule finish_all_heap[of "(cancel_heap (se_heap s), _)", simplified])
  from heap_ended_byD(2)[OF this, of r] c assms(1) l show ?thesis
    by (simp add: session_end_eq ended_by_def)
qed

lemma session_end_chans:
  "length (se_callChans (session_end c s)) = length (se_callChans s)"
  "length (se_openChans (session_end c s)) = length (se_openChans s)"
  "distinct (map_vals (se_calls s)) \<Longrightarrow> i < length (se_callChans s) \<Longrightarrow>
     se_callChans (session_end c s) ! i = (if i \<in> set (map_vals (se_calls s))
       then se_callChans s ! i @ [\<lparr>uo_payload = [], uo_err = end_terminal c s\<rparr>] else se_callChans s ! i)"
  "distinct (map_vals (se_opens s)) \<Longrightarrow> i < length (se_openChans s) \<Longrightarrow>
     se_openChans (session_end c s) ! i = (if i \<in> set (map_vals (se_opens s))
       then se_openChans s ! i @ [end_terminal c s] else se_openChans s ! i)"
  by (simp_all add: session_end_eq post_all_nth del: set_map)

section \<open>A closed connection takes no frame\<close>

lemma transport_write_closed: "transport_write t d = (t', n, e) \<Longrightarrow> tr_closed t' = tr_closed t \<and> (tr_closed t \<longrightarrow> e \<noteq> None)"
  by (auto simp: transport_write_def split: if_splits list.splits)

lemma writeAll_closed:
  "writeAll transport_write t d = (t', e) \<Longrightarrow> tr_closed t' = tr_closed t \<and> (tr_closed t \<and> d \<noteq> [] \<longrightarrow> e \<noteq> None)"
proof (induction "length d" arbitrary: t d rule: less_induct)
  case less
  show ?case
  proof (cases "d = []")
    case True
    then show ?thesis using less.prems by (simp add: writeAll.simps)
  next
    case False
    obtain t1 n e1 where w: "transport_write t d = (t1, n, e1)" by (cases "transport_write t d") auto
    note c = transport_write_closed[OF w]
    show ?thesis
    proof (cases "0 < n \<and> n \<le> int (length d) \<and> e1 = None")
      case True
      then have "writeAll transport_write t1 (drop (nat n) d) = (t', e)"
        using less.prems conn_sink.writeAll_step[OF False w] by (auto split: if_splits)
      moreover have "length (drop (nat n) d) < length d" using True False by simp
      ultimately have "tr_closed t' = tr_closed t1" using less.hyps by blast
      then show ?thesis using c True by simp
    next
      case no: False
      then show ?thesis using less.prems conn_sink.writeAll_step[OF False w] c by (auto split: if_splits)
    qed
  qed
qed

lemma WriteFrame_closed:
  assumes "WriteFrame transport_write w t f = (t', e)"
  shows "tr_closed t' = tr_closed t" and "tr_closed t \<Longrightarrow> e \<noteq> None"
proof -
  have n: "frame_header f \<noteq> []" by (simp add: frame_header_def)
  show "tr_closed t' = tr_closed t" "tr_closed t \<Longrightarrow> e \<noteq> None"
    using assms n
    by (cases "frame_validate f"; auto simp: WriteFrame_def split: if_splits option.splits prod.splits dest!: writeAll_closed)+
qed

lemma WriteFrame_id:
  "WriteFrame wr w t f = (t', None) \<Longrightarrow> Frame_StreamID f \<le> MaxStreamID"
  by (auto simp: WriteFrame_def frame_validate_def split: if_splits option.splits)

end
