(* ===== verification/Session_Safety.thy ===== *)
theory Session_Safety
  imports Session_Effects
begin

text \<open>
  The session as a state machine: every interleaving of the goroutines of a session with the
  frames the peer sends, the outcomes of the consumer's code, the contexts of the callers and
  the clock, and the invariants of the states this reaches.
\<close>

section \<open>Steps\<close>

inductive sess_step :: "proto \<Rightarrow> ('h, 'v, 'w) handler_ops \<Rightarrow> ('h, 'v, 'w) Session \<Rightarrow> ('h, 'v, 'w) Session \<Rightarrow> bool"
  for pb ops where
  step_call_send: "Call_send body s = (s', r) \<Longrightarrow> sess_step pb ops s s'"
| step_call_finish: "c \<in> set (se_callers s) \<Longrightarrow> Call_finish pb pick ctx_err c s = (s', r) \<Longrightarrow> sess_step pb ops s s'"
| step_open_send: "OpenStream_send m body ctx_err s = (s', r) \<Longrightarrow> sess_step pb ops s s'"
| step_open_finish: "c \<in> set (se_openers s) \<Longrightarrow> OpenStream_finish pb pick ctx_err c s = (s', r) \<Longrightarrow> sess_step pb ops s s'"
| step_follow: "(i, r) \<in> set (se_followers s) \<Longrightarrow> st_ctx (se_heap s ! r) \<noteq> None \<Longrightarrow> sess_step pb ops s (follow_done pb (i, r) s)"
| step_close: "sess_step pb ops s (Close s)"
| step_read: "se_reader s = Reading \<Longrightarrow> sess_step pb ops s (readLoop_read s)"
| step_dispatch: "sess_step pb ops s (readLoop_dispatch pb ops now pick s)"
| step_resume: "sess_step pb ops s (readLoop_resume pb s)"
| step_probe: "se_probing s \<Longrightarrow> sess_step pb ops s (probeLoop pb pick now later s)"
| step_call_task: "t \<in> set (se_callTasks s) \<Longrightarrow> sess_step pb ops s (finish_call pb ops t out s)"
| step_stream_served: "k \<in> set (se_streamTasks s) \<Longrightarrow> sk_phase k = Serving \<Longrightarrow> sess_step pb ops s (stream_served ops k out' s)"
| step_stream_closed: "k \<in> set (se_streamTasks s) \<Longrightarrow> sess_step pb ops s (stream_closed pb k s)"
| step_recv: "r < length (se_heap s) \<Longrightarrow> session_Recv r s = (s', x) \<Longrightarrow> sess_step pb ops s s'"
| step_send: "r < length (se_heap s) \<Longrightarrow> session_Send pb r m s = (s', e) \<Longrightarrow> sess_step pb ops s s'"
| step_progress: "r < length (se_heap s) \<Longrightarrow>
    f \<in> {CloseSend_begin, CloseSend_enqueue pick, CloseSend_await pick, flushOutbound_enqueue pick, flushOutbound_await pick} \<Longrightarrow>
    sess_step pb ops s (upd_stream r f s)"
| step_pump: "r < length (se_heap s) \<Longrightarrow> sess_step pb ops s (pump pick r s)"
| step_caller_cancel: "r < length (se_heap s) \<Longrightarrow> \<not> st_fromSession (se_heap s ! r) \<Longrightarrow> sess_step pb ops s (caller_cancel r e s)"

section \<open>The outcomes of the inbound requests\<close>

lemma openStream_cases:
  obtains (Refused) f where "openStream pb ops i body s = sendFrame f s"
  | (Denied) h e g m f where "session_acquire (se_streamGate s) = (g, True)"
      "openStream pb ops i body s = sendFrame f (finish_ref (length (se_heap s)) (Some e)
         (s\<lparr>se_heap := se_heap s @ [newStream (se_limits s) (se_ctx s) i m], se_handler := h, se_streamGate := session_release g\<rparr>))"
      "op_PrepareStream ops (se_handler s) (cfg_Remote (se_cfg s)) m = (h, Inl e)"
  | (Accepted) h g m serve where "session_acquire (se_streamGate s) = (g, True)"
      "openStream pb ops i body s = openStream_accept pb i (length (se_heap s)) serve
         (s\<lparr>se_streamGate := g, se_handler := h, se_streams := map_set i (length (se_heap s)) (se_streams s),
            se_heap := se_heap s @ [startPump (newStream (se_limits s) (se_ctx s) i m)]\<rparr>)"
      "op_PrepareStream ops (se_handler s) (cfg_Remote (se_cfg s)) m = (h, Inr serve)"
proof (cases "Unmarshal (pb_OpenStream pb) OpenStream_unknownFields body")
  case (Inl e)
  then show ?thesis using that(1) by (simp add: openStream_def)
next
  case (Inr req)
  note req = Inr
  obtain g b where g: "session_acquire (se_streamGate s) = (g, b)" by fastforce
  show ?thesis
  proof (cases "OpenStream_Method req = [] \<or> \<not> b")
    case True
    then have "openStream pb ops i body s = sendFrame (endFrame pb i
        (if OpenStream_Method req = [] then StatusMethodNotFound else StatusOverloaded)) s"
      by (auto simp: openStream_def req g)
    then show ?thesis by (rule that(1))
  next
    case False
    obtain h r where p: "op_PrepareStream ops (se_handler s) (cfg_Remote (se_cfg s)) (OpenStream_Method req) = (h, r)" by fastforce
    show ?thesis
    proof (cases r)
      case (Inl e)
      have "openStream pb ops i body s = sendFrame (endFrame pb i (StatusOf (Some e))) (finish_ref (length (se_heap s)) (Some e)
         (s\<lparr>se_heap := se_heap s @ [newStream (se_limits s) (se_ctx s) i (OpenStream_Method req)], se_handler := h,
            se_streamGate := session_release g\<rparr>))"
        using p g False Inl by (simp add: openStream_def req Let_def)
      then show ?thesis using that(2) p g False Inl by simp
    next
      case (Inr serve)
      have "openStream pb ops i body s = openStream_accept pb i (length (se_heap s)) serve
         (s\<lparr>se_streamGate := g, se_handler := h, se_streams := map_set i (length (se_heap s)) (se_streams s),
            se_heap := se_heap s @ [startPump (newStream (se_limits s) (se_ctx s) i (OpenStream_Method req))]\<rparr>)"
        using p g False Inr by (simp add: openStream_def req Let_def upd_stream_def registerStream_def)
      then show ?thesis using that(3) p g False Inr by simp
    qed
  qed
qed

section \<open>The concurrency budgets\<close>

definition gates_inv :: "Limits \<Rightarrow> ('h, 'v, 'w) Session \<Rightarrow> bool" where
  "gates_inv lim s \<longleftrightarrow> se_limits s = lim \<and>
     gate_len (se_callGate s) = length (se_callTasks s) \<and> gate_len (se_callGate s) \<le> gate_cap (se_callGate s)
   \<and> gate_cap (se_callGate s) = nat (MaxConcurrentCalls (se_limits s))
   \<and> gate_len (se_streamGate s) = length (se_streamTasks s) \<and> gate_len (se_streamGate s) \<le> gate_cap (se_streamGate s)
   \<and> gate_cap (se_streamGate s) = nat (MaxConcurrentStreams (se_limits s))"

interpretation session_gate: slot_gate session_acquire session_release gate_len gate_cap
  by unfold_locales
    (auto simp: session_acquire_def session_release_def gate_try_send_def gate_try_recv_def split: if_splits)

text \<open>The fields the budgets are about, as one value: most operations leave it alone.\<close>

definition gates :: "('h, 'v, 'w) Session \<Rightarrow> (gate \<times> 'v call_task list) \<times> (gate \<times> 'w stream_task list) \<times> Limits" where
  "gates s = ((se_callGate s, se_callTasks s), (se_streamGate s, se_streamTasks s), se_limits s)"

lemma gates_inv_cong: "gates s' = gates s \<Longrightarrow> gates_inv lim s' = gates_inv lim s"
  by (simp add: gates_def gates_inv_def)

lemma gates_prims [simp]:
  "gates (session_end c s) = gates s" "gates (finish_ref r e s) = gates s" "gates (sendFrame f s) = gates s"
  "gates (upd_stream r g s) = gates s" "gates (wake_reader s) = gates s" "gates (cancel_call k s) = gates s"
  "gates (send_outcome k v s) = gates s" "gates (send_accepted k a s) = gates s"
  "gates (discardCall i s) = gates s" "gates (discardOpen i s) = gates s" "gates (discardStream i s) = gates s"
  "gates (registerCall i k s) = gates s" "gates (registerOpen i k s) = gates s" "gates (registerStream i k s) = gates s"
  "gates (trackInflight i k s) = gates s" "gates (releaseInflight i s) = gates s" "gates (notifyCancelled pb i e s) = gates s"
  by (simp_all add: gates_def upd_stream_def wake_reader_def cancel_call_def send_outcome_def send_accepted_def
      discardCall_def discardOpen_def discardStream_def registerCall_def registerOpen_def registerStream_def
      trackInflight_def releaseInflight_def notifyCancelled_def Let_def)

lemma gates_writeFrame: "writeFrame f s = (s', e) \<Longrightarrow> gates s' = gates s"
  using gates_prims(3)[of f s] by (simp add: sendFrame_def)

lemma gates_takes [simp]:
  "gates (fst (takeCall i s)) = gates s" "gates (fst (takeOpen i s)) = gates s" "gates (fst (takeStream i s)) = gates s"
  "gates (fst (cancelInflight i s)) = gates s" "gates (fst (allocateStreamID s)) = gates s"
  by (simp_all add: takeCall_def takeOpen_def takeStream_def cancelInflight_def allocateStreamID_def cancel_call_def
      gates_def Let_def split: option.splits)

lemma gates_updates [simp]:
  "gates (s\<lparr>se_callChans := x1\<rparr>) = gates s" "gates (s\<lparr>se_openChans := x2\<rparr>) = gates s" "gates (s\<lparr>se_callers := x3\<rparr>) = gates s"
  "gates (s\<lparr>se_openers := x4\<rparr>) = gates s" "gates (s\<lparr>se_followers := x5\<rparr>) = gates s" "gates (s\<lparr>se_heap := x6\<rparr>) = gates s"
  "gates (s\<lparr>se_reader := x7\<rparr>) = gates s" "gates (s\<lparr>se_probing := x8\<rparr>) = gates s" "gates (s\<lparr>se_lastPong := x9\<rparr>) = gates s"
  "gates (s\<lparr>se_source := y1\<rparr>) = gates s" "gates (s\<lparr>se_closeOnce := y2\<rparr>) = gates s" "gates (s\<lparr>se_handler := y3\<rparr>) = gates s"
  "gates (s\<lparr>se_callCtxs := y4\<rparr>) = gates s" "gates (s\<lparr>se_transport := y5\<rparr>) = gates s"
  "gates (s\<lparr>se_nextStreamID := y6\<rparr>) = gates s" "gates (s\<lparr>se_streams := y7\<rparr>) = gates s" "gates (s\<lparr>se_calls := y7\<rparr>) = gates s"
  "gates (s\<lparr>se_opens := y8\<rparr>) = gates s" "gates (s\<lparr>se_inflight := y9\<rparr>) = gates s"
  by (simp_all add: gates_def)

text \<open>Operations that leave the budgets and their users alone.\<close>

lemma gates_Call_send: "Call_send body s = (s', r) \<Longrightarrow> gates s' = gates s"
  by (auto simp: Call_send_def allocateStreamID_def Let_def split: prod.splits option.splits dest!: gates_writeFrame)

lemma gates_Call_finish: "Call_finish pb pick ctx_err c s = (s', r) \<Longrightarrow> gates s' = gates s"
  by (auto simp: Call_finish_def Let_def split: prod.splits option.splits sum.splits)

lemma gates_OpenStream_send: "OpenStream_send m body ctx_err s = (s', r) \<Longrightarrow> gates s' = gates s"
  by (auto simp: OpenStream_send_def allocateStreamID_def Let_def split: prod.splits option.splits dest!: gates_writeFrame)

lemma gates_OpenStream_finish: "OpenStream_finish pb pick ctx_err c s = (s', r) \<Longrightarrow> gates s' = gates s"
  by (auto simp: OpenStream_finish_def followStreamContext_def Let_def split: prod.splits option.splits sum.splits)

lemma gates_consumer:
  "gates (follow_done pb c s) = gates s" "gates (Close s) = gates s" "gates (readLoop_read s) = gates s"
  "gates (caller_cancel r x s) = gates s" "gates (fst (session_Recv r s)) = gates s" "gates (fst (session_Send pb r m s)) = gates s"
  by (simp_all add: follow_done_def Close_def readLoop_read_def caller_cancel_def session_Recv_def session_Send_def Let_def
      split: prod.splits sum.splits reader_state.splits deliver_result.splits)

lemma gates_pump: "gates (pump pick r s) = gates s"
  by (auto simp: pump_def Let_def split: prod.splits pump_action.splits dest!: gates_writeFrame)

lemma gates_probeLoop: "gates (probeLoop pb pick now later s) = gates s"
  by (auto simp: probeLoop_def probe_def Let_def split: prod.splits option.splits sum.splits dest!: gates_writeFrame)

lemma gates_settle:
  "gates (fst (settleCall pb k f s)) = gates s" "gates (fst (settleOpen pb k f s)) = gates s"
  "gates (fst (delivery_failed pb r e s)) = gates s" "gates (fst (serveFrame pb pick r f s)) = gates s"
  by (simp_all add: settleCall_def settleOpen_def delivery_failed_def serveFrame_def
      split: sum.splits option.splits prod.splits deliver_result.splits)

lemma gates_answerPing: "gates (fst (answerPing pb now f s)) = gates s"
  by (auto simp: answerPing_def split: sum.splits prod.splits dest!: gates_writeFrame)

lemma gates_continue: "gates (readLoop_continue x) = gates (fst x)"
  by (cases x; cases "snd x") (auto simp: readLoop_continue_def)

lemma gates_inv_continue: "gates_inv lim (readLoop_continue x) = gates_inv lim (fst x)"
  by (rule gates_inv_cong) (rule gates_continue)

lemma gates_resume: "gates (readLoop_resume pb s) = gates s"
  by (simp add: readLoop_resume_def gates_continue gates_settle split: reader_state.splits option.splits)

text \<open>
  Operations that take or give back a unit. On the values: a unit is taken for one more
  task, or given back with one task less.
\<close>

definition units_ok :: "gate \<times> 'a list \<Rightarrow> nat \<Rightarrow> bool" where
  "units_ok x n \<longleftrightarrow> gate_len (fst x) = length (snd x) \<and> gate_len (fst x) \<le> gate_cap (fst x) \<and> gate_cap (fst x) = n"

lemma gates_inv_iff:
  "gates_inv lim s \<longleftrightarrow> (case gates s of (c, k, l) \<Rightarrow> l = lim \<and>
     units_ok c (nat (MaxConcurrentCalls lim)) \<and> units_ok k (nat (MaxConcurrentStreams lim)))"
  by (auto simp: gates_inv_def gates_def units_ok_def)

lemma units_take: "units_ok (g, ts) n \<Longrightarrow> session_acquire g = (g', True) \<Longrightarrow> units_ok (g', t # ts) n"
  using session_gate.acquire_ok[of g g'] session_gate.acquire_cap[of g] by (auto simp: units_ok_def)

lemma units_take_back: "units_ok (g, ts) n \<Longrightarrow> session_acquire g = (g', True) \<Longrightarrow> units_ok (session_release g', ts) n"
  using session_gate.acquire_ok[of g g'] session_gate.acquire_cap[of g]
  by (auto simp: units_ok_def session_gate.release_used session_gate.release_cap)

lemma units_give: "units_ok (g, ts) n \<Longrightarrow> t \<in> set ts \<Longrightarrow> units_ok (session_release g, remove1 t ts) n"
  by (auto simp: units_ok_def session_gate.release_used session_gate.release_cap length_remove1)

lemma units_swap: "units_ok (g, ts) n \<Longrightarrow> t \<in> set ts \<Longrightarrow> units_ok (g, t' # remove1 t ts) n"
  using length_pos_if_in_set[of t ts] by (auto simp: units_ok_def length_remove1)

lemma gates_set:
  "gates (s\<lparr>se_callGate := g\<rparr>) = ((g, se_callTasks s), (se_streamGate s, se_streamTasks s), se_limits s)"
  "gates (s\<lparr>se_callTasks := ts\<rparr>) = ((se_callGate s, ts), (se_streamGate s, se_streamTasks s), se_limits s)"
  "gates (s\<lparr>se_streamGate := g\<rparr>) = ((se_callGate s, se_callTasks s), (g, se_streamTasks s), se_limits s)"
  "gates (s\<lparr>se_streamTasks := ks\<rparr>) = ((se_callGate s, se_callTasks s), (se_streamGate s, ks), se_limits s)"
  by (simp_all add: gates_def)

lemma gates_fields: "gates s' = ((a, b), (c, d), l) \<Longrightarrow>
   se_callGate s' = a \<and> se_callTasks s' = b \<and> se_streamGate s' = c \<and> se_streamTasks s' = d \<and> se_limits s' = l"
  by (simp add: gates_def)

lemma gates_inv_openCall: "gates_inv lim s \<Longrightarrow> gates_inv lim (openCall pb ops i body s)"
  by (auto simp: openCall_def gates_inv_iff gates_set Let_def gates_def[of s] cancel_call_def trackInflight_def
      split: sum.splits prod.splits bool.splits intro: units_take units_take_back)

lemma gates_reply [simp]: "gates (call_reply pb i r s) = gates s"
  by (simp add: call_reply_def split: sum.splits)

lemma gates_inv_finish_call:
  assumes "gates_inv lim s" and "t \<in> set (se_callTasks s)"
  shows "gates_inv lim (finish_call pb ops t out s)"
proof -
  obtain h r where hr: "op_ServeCall ops (se_handler s) (ct_serve t) out = (h, r)"
    by (cases "op_ServeCall ops (se_handler s) (ct_serve t) out")
  define s2 where "s2 = releaseInflight (ct_id t) (cancel_call (ct_ctx t)
     (call_reply pb (ct_id t) r (s\<lparr>se_handler := h, se_callTasks := remove1 t (se_callTasks s)\<rparr>)))"
  have "gates s2 = ((se_callGate s, remove1 t (se_callTasks s)), (se_streamGate s, se_streamTasks s), se_limits s)"
    by (simp add: s2_def) (simp add: gates_def)
  note g = gates_fields[OF this]
  have "finish_call pb ops t out s = s2\<lparr>se_callGate := session_release (se_callGate s2)\<rparr>"
    by (simp add: finish_call_def hr s2_def Let_def)
  then show ?thesis using assms g
    by (simp add: gates_inv_iff gates_set gates_def[of s] units_give)
qed

lemma gates_inv_accept:
  assumes "units_ok (se_callGate s, se_callTasks s) (nat (MaxConcurrentCalls lim))"
    and "units_ok (g, se_streamTasks s) (nat (MaxConcurrentStreams lim))"
    and "session_acquire g = (se_streamGate s, True)"
    and "se_limits s = lim"
  shows "gates_inv lim (openStream_accept pb i live serve s)"
proof (cases "Marshal (pb_StreamAccepted pb) mkStreamAccepted")
  case (Inl err)
  then show ?thesis using assms units_take_back[OF assms(2,3)]
    by (simp add: openStream_accept_def Let_def gates_inv_iff gates_set)
next
  case (Inr ack)
  obtain s1 e where w: "writeFrame \<lparr>Frame_Type = FrameStreamOpenAck, Frame_StreamID = i, Frame_Payload = ack\<rparr> s = (s1, e)"
    by fastforce
  show ?thesis using assms units_take_back[OF assms(2,3)] units_take[OF assms(2,3)]
    by (cases e) (simp_all add: openStream_accept_def Inr w gates_inv_iff gates_set writeFrame_frame[OF w])
qed

lemma gates_inv_openStream:
  assumes "gates_inv lim s"
  shows "gates_inv lim (openStream pb ops i body s)"
proof (cases rule: openStream_cases[of pb ops i body s])
  case (Refused f)
  then show ?thesis using assms by (simp add: gates_inv_iff)
next
  case (Denied h e g m f)
  then show ?thesis using assms
    by (simp add: gates_inv_iff gates_set gates_def[of s] units_take_back[OF _ Denied(1)])
next
  case (Accepted h g m serve)
  show ?thesis unfolding Accepted(2)
    by (rule gates_inv_accept[where g = "se_streamGate s"])
      (use assms Accepted(1) in \<open>simp_all add: gates_inv_iff gates_def[of s]\<close>)
qed

lemma gates_inv_stream_served:
  assumes "gates_inv lim s" and "k \<in> set (se_streamTasks s)"
  shows "gates_inv lim (stream_served ops k out s)"
  using assms
  by (auto simp: stream_served_def gates_inv_iff gates_set gates_def[of s] upd_stream_def Let_def
      split: prod.splits intro: units_give units_swap)

lemma gates_inv_stream_settle:
  assumes "gates_inv lim s" and "k \<in> set (se_streamTasks s)"
  shows "gates_inv lim (stream_settle pb k err s)"
  using assms
  by (auto simp: stream_settle_def gates_inv_iff gates_set gates_def[of s] discardStream_def Let_def intro: units_give)

lemma gates_inv_stream_closed:
  "gates_inv lim s \<Longrightarrow> k \<in> set (se_streamTasks s) \<Longrightarrow> gates_inv lim (stream_closed pb k s)"
  by (simp add: stream_closed_def gates_inv_stream_settle split: task_phase.splits progress.splits)

lemma gates_inv_dispatch: "gates_inv lim s \<Longrightarrow> gates_inv lim (fst (dispatch pb ops now pick f s))"
proof -
  assume inv: "gates_inv lim s"
  have scoped: "gates_inv lim (fst (dispatchScoped pb ops pick f s))"
  proof (cases "Frame_Type f = FrameOpenCall \<or> Frame_Type f = FrameOpenStream")
    case True
    then show ?thesis using inv
      by (auto simp: dispatchScoped_def Let_def gates_inv_openCall gates_inv_openStream)
  next
    case False
    then have "gates (fst (dispatchScoped pb ops pick f s)) = gates s"
      using gates_takes(1)[of "Frame_StreamID f" s] gates_takes(2,3,4)[of "Frame_StreamID f"]
      by (auto simp: dispatchScoped_def takeCall_def takeOpen_def takeStream_def cancelInflight_def findStream_def
          gates_settle Let_def split: option.splits)
    then show ?thesis using inv gates_inv_cong by blast
  qed
  show ?thesis using inv scoped gates_answerPing[of pb now f s]
    by (auto simp: dispatch_def intro: gates_inv_cong[THEN iffD2])
qed

lemma gates_inv_step: "sess_step pb ops s s' \<Longrightarrow> gates_inv lim s \<Longrightarrow> gates_inv lim s'"
proof (induction rule: sess_step.induct)
  case (step_call_send body s s' r)
  then show ?case using gates_inv_cong[OF gates_Call_send] by blast
next
  case (step_call_finish c s pick ctx_err s' r)
  then show ?case using gates_inv_cong[OF gates_Call_finish] by blast
next
  case (step_open_send m body ctx_err s s' r)
  then show ?case using gates_inv_cong[OF gates_OpenStream_send] by blast
next
  case (step_open_finish c s pick ctx_err s' r)
  then show ?case using gates_inv_cong[OF gates_OpenStream_finish] by blast
next
  case (step_recv r s s' x)
  then show ?case using gates_inv_cong[OF gates_consumer(5)[of r s]] by simp
next
  case (step_send r s m s' e)
  then show ?case using gates_inv_cong[OF gates_consumer(6)[of pb r m s]] by simp
next
  case (step_dispatch s now pick)
  then show ?case
    by (simp add: readLoop_dispatch_def gates_inv_continue gates_inv_dispatch split: reader_state.splits)
qed (auto simp: gates_inv_finish_call gates_inv_stream_served gates_inv_stream_closed
      gates_inv_cong[OF gates_consumer(1)] gates_inv_cong[OF gates_consumer(2)] gates_inv_cong[OF gates_consumer(3)]
      gates_inv_cong[OF gates_consumer(4)] gates_inv_cong[OF gates_pump] gates_inv_cong[OF gates_probeLoop]
      gates_inv_cong[OF gates_resume] gates_inv_cong[OF gates_prims(4)])

lemma gates_inv_New: "gates_inv (WithDefaults (cfg_Limits cfg)) (New cfg transport source h now)"
  using WithDefaults_effective[of "cfg_Limits cfg"]
  by (simp add: gates_inv_def New_def Start_def NewSession_def make_gate_def Let_def limits_effective_def)

lemma gates_inv_reachable: "(sess_step pb ops)\<^sup>*\<^sup>* s s' \<Longrightarrow> gates_inv lim s \<Longrightarrow> gates_inv lim s'"
  by (induction rule: rtranclp_induct) (auto intro: gates_inv_step)

end
