(* ===== verification/Session_Waiters.thy ===== *)
theory Session_Waiters
  imports Session_Safety
begin

text \<open>
  Nobody is left waiting. The invariant of the session's tables, channels, stream IDs and
  streams, and its preservation by every step.
\<close>

section \<open>Who waits on a channel\<close>

text \<open>
  A table of pending requests, the channels it points to, and the callers that wait: a
  registered channel is empty, a channel holds at most one value, and a waiting caller is
  registered or its value is there.
\<close>

definition waiters_inv :: "(u64, ref) table \<Rightarrow> 'a list list \<Rightarrow> (u64 \<times> ref) list \<Rightarrow> bool" where
  "waiters_inv t b ws \<longleftrightarrow>
     map_wf t \<and> distinct (map_vals t) \<and> (\<forall>c \<in> set (map_vals t). c < length b \<and> b ! c = [])
   \<and> (\<forall>c < length b. length (b ! c) \<le> 1)
   \<and> distinct (map fst ws) \<and> distinct (map snd ws)
   \<and> (\<forall>(i, c) \<in> set ws. c < length b \<and> (map_of t i = Some c \<or> b ! c \<noteq> []))"

lemma waiters_invI:
  assumes "map_wf t" "distinct (map_vals t)" "\<And>c. c \<in> set (map_vals t) \<Longrightarrow> c < length b \<and> b ! c = []"
    "\<And>c. c < length b \<Longrightarrow> length (b ! c) \<le> 1" "distinct (map fst ws)" "distinct (map snd ws)"
    "\<And>i c. (i, c) \<in> set ws \<Longrightarrow> c < length b \<and> (map_of t i = Some c \<or> b ! c \<noteq> [])"
  shows "waiters_inv t b ws"
  unfolding waiters_inv_def using assms by blast

lemma waiters_invD:
  assumes "waiters_inv t b ws"
  shows "map_wf t" "distinct (map_vals t)" "c \<in> set (map_vals t) \<Longrightarrow> c < length b \<and> b ! c = []"
    "c < length b \<Longrightarrow> length (b ! c) \<le> 1" "distinct (map fst ws)" "distinct (map snd ws)"
    "(i, c) \<in> set ws \<Longrightarrow> c < length b \<and> (map_of t i = Some c \<or> b ! c \<noteq> [])"
  using assms unfolding waiters_inv_def by blast+

lemma map_of_val: "map_of t i = Some c \<Longrightarrow> c \<in> set (map_vals t)"
  by (force dest: map_of_SomeD)

lemma distinct_vals_inj: "distinct (map snd t) \<Longrightarrow> (i, c) \<in> set t \<Longrightarrow> (j, c) \<in> set t \<Longrightarrow> i = j"
  by (metis distinct_map inj_onD prod.inject snd_conv)

lemma vals_update_fresh: "i \<notin> set (map fst t) \<Longrightarrow> AList.update i c t = t @ [(i, c)]"
  by (induction t) auto

lemma vals_delete: "set (map snd (AList.delete i t)) \<subseteq> set (map snd t)"
  by (induction t) auto

lemma distinct_vals_delete: "distinct (map snd t) \<Longrightarrow> distinct (map snd (AList.delete i t))"
  by (simp add: AList.delete_eq distinct_map_filter case_prod_unfold)

lemma delete_val_gone:
  assumes "map_wf t" "distinct (map_vals t)" "map_of t i = Some c"
  shows "c \<notin> set (map_vals (map_delete i t))"
proof
  assume "c \<in> set (map_vals (map_delete i t))"
  then obtain j where "(j, c) \<in> set (map_delete i t)" by auto
  then have "j \<noteq> i" "(j, c) \<in> set t" by (auto simp: AList.delete_eq)
  then show False using distinct_vals_inj[OF assms(2), of j c i] map_of_SomeD[OF assms(3)] by simp
qed

lemma waiters_new:
  assumes "waiters_inv t b ws" "i \<notin> set (map_keys t)" "\<forall>c. (i, c) \<in> set ws \<longrightarrow> b ! c \<noteq> []"
  shows "waiters_inv (map_set i (length b) t) (b @ [[]]) ws"
  using assms unfolding waiters_inv_def vals_update_fresh[OF assms(2)]
  by (auto simp: nth_append less_Suc_eq map_add_def split: option.splits dest: map_of_SomeD)

lemma waiters_new_caller:
  assumes "waiters_inv t b ws" "i \<notin> set (map_keys t)" "i \<notin> fst ` set ws"
  shows "waiters_inv (map_set i (length b) t) (b @ [[]]) ((i, length b) # ws)"
proof -
  have "waiters_inv (map_set i (length b) t) (b @ [[]]) ws"
    using assms by (intro waiters_new) (auto simp: image_iff)
  moreover have "length b \<notin> snd ` set ws" using assms(1) by (auto simp: waiters_inv_def)
  ultimately show ?thesis using assms(3) by (simp add: waiters_inv_def)
qed

lemma waiters_settle:
  assumes "waiters_inv t b ws" "map_of t i = Some c"
  shows "waiters_inv (map_delete i t) (b[c := b ! c @ [v]]) ws" and "b ! c = []" and "c < length b"
proof -
  have c: "c < length b" "b ! c = []" using assms map_of_val[OF assms(2)] by (auto simp: waiters_inv_def)
  have "c \<notin> set (map_vals (map_delete i t))"
    using assms by (intro delete_val_gone) (auto simp: waiters_inv_def)
  moreover have "set (map_vals (map_delete i t)) \<subseteq> set (map_vals t)" by (rule vals_delete)
  ultimately have v: "\<forall>d \<in> set (map_vals (map_delete i t)). d < length b \<and> b ! d = [] \<and> d \<noteq> c"
    using assms(1) unfolding waiters_inv_def by blast
  have w: "d < length b \<and> (map_of (map_delete i t) j = Some d \<or> (b[c := b ! c @ [v]]) ! d \<noteq> [])" if "(j, d) \<in> set ws" for j d
    using that assms c by (cases "d = c") (auto simp: waiters_inv_def)
  show "waiters_inv (map_delete i t) (b[c := b ! c @ [v]]) ws"
  proof (rule waiters_invI)
    show "length ((b[c := b ! c @ [v]]) ! d) \<le> 1" if "d < length (b[c := b ! c @ [v]])" for d
      using that c waiters_invD(4)[OF assms(1)] by (simp add: nth_list_update)
  qed (use waiters_invD[OF assms(1)] distinct_vals_delete v w in \<open>auto simp del: set_map\<close>)
  show "b ! c = []" "c < length b" by (fact c)+
qed

lemma waiters_end:
  assumes "waiters_inv t b ws"
  shows "waiters_inv [] (post_all (map_vals t) v b) ws"
proof -
  have d: "distinct (map_vals t)" using assms by (simp add: waiters_inv_def)
  have n: "post_all (map_vals t) v b ! c = (if c \<in> set (map_vals t) then b ! c @ [v] else b ! c)" if "c < length b" for c
    by (rule post_all_nth[OF d that])
  have "length (post_all (map_vals t) v b ! c) \<le> 1" if "c < length b" for c
    using that n[OF that] assms by (auto simp: waiters_inv_def)
  moreover have "post_all (map_vals t) v b ! c \<noteq> []" if "(i, c) \<in> set ws" for i c
  proof -
    have c: "c < length b" "map_of t i = Some c \<or> b ! c \<noteq> []" using that assms by (auto simp: waiters_inv_def)
    then show ?thesis using n[OF c(1)] map_of_val[of t i c] by (auto simp del: set_map)
  qed
  ultimately show ?thesis using assms by (auto simp: waiters_inv_def)
qed

lemma waiters_leave:
  assumes "waiters_inv t b ws" "(i, c) \<in> set ws"
  shows "waiters_inv (map_delete i t) b (remove1 (i, c) ws)"
    and "waiters_inv (map_delete i t) (b[c := tl (b ! c)]) (remove1 (i, c) ws)"
proof -
  have d: "distinct ws" "distinct (map fst ws)" "distinct (map snd ws)"
    using assms(1) by (auto simp: waiters_inv_def distinct_map)
  have o: "j \<noteq> i \<and> e \<noteq> c" if "(j, e) \<in> set (remove1 (i, c) ws)" for j e
  proof -
    have "(j, e) \<in> set ws" "(j, e) \<noteq> (i, c)" using that d(1) by auto
    then show ?thesis using d(2,3) assms(2) by (metis distinct_map inj_onD fst_conv snd_conv)
  qed
  have r: "distinct (map fst (remove1 (i, c) ws))" "distinct (map snd (remove1 (i, c) ws))"
    using d by (auto simp: distinct_map intro: inj_on_subset)
  have v: "\<forall>e \<in> set (map_vals (map_delete i t)). e < length b \<and> b ! e = []"
    using assms(1) vals_delete[of i t] unfolding waiters_inv_def by blast
  have w: "e < length b \<and> (map_of (map_delete i t) j = Some e \<or> b ! e \<noteq> [])" if "(j, e) \<in> set (remove1 (i, c) ws)" for j e
    using that o[OF that] assms(1) notin_set_remove1[of "(j, e)" ws "(i, c)"] by (auto simp: waiters_inv_def)
  show "waiters_inv (map_delete i t) b (remove1 (i, c) ws)"
    by (rule waiters_invI) (use waiters_invD[OF assms(1)] r v w distinct_vals_delete in \<open>auto simp del: set_map\<close>)
  have b': "(b[c := tl (b ! c)]) ! e = (if e = c then tl (b ! e) else b ! e)" if "e < length b" for e
    using that by (simp add: nth_list_update)
  have l: "length ((b[c := tl (b ! c)]) ! e) \<le> 1" if "e < length b" for e
    using b'[OF that] that assms(1) by (auto simp: waiters_inv_def intro: le_trans[OF diff_le_self])
  have v': "\<forall>e \<in> set (map_vals (map_delete i t)). e < length b \<and> (b[c := tl (b ! c)]) ! e = []"
    using v b' by auto
  have w': "e < length b \<and> (map_of (map_delete i t) j = Some e \<or> (b[c := tl (b ! c)]) ! e \<noteq> [])"
    if "(j, e) \<in> set (remove1 (i, c) ws)" for j e
    using w[OF that] o[OF that] b'[of e] by auto
  show "waiters_inv (map_delete i t) (b[c := tl (b ! c)]) (remove1 (i, c) ws)"
    by (rule waiters_invI) (use waiters_invD[OF assms(1)] r v' w' l distinct_vals_delete in \<open>auto simp del: set_map\<close>)
qed

lemma waiters_discard:
  assumes "waiters_inv t b ws" "\<forall>c. (i, c) \<in> set ws \<longrightarrow> b ! c \<noteq> []"
  shows "waiters_inv (map_delete i t) b ws"
proof (rule waiters_invI)
  show "c < length b \<and> (map_of (map_delete i t) j = Some c \<or> b ! c \<noteq> [])" if "(j, c) \<in> set ws" for j c
    using waiters_invD(7)[OF assms(1) that] assms(2) that by (cases "j = i") auto
qed (use waiters_invD[OF assms(1)] distinct_vals_delete vals_delete[of i t] in \<open>auto simp del: set_map\<close>)


section \<open>The invariant\<close>

definition life_inv :: "('h, 'v, 'w) Session \<Rightarrow> bool" where
  "life_inv s \<longleftrightarrow> se_ended s = (se_terminal s \<noteq> None) \<and> se_ended s = (se_ctx s \<noteq> None)
     \<and> se_ended s = tr_closed (se_transport s)
     \<and> (se_ended s \<longrightarrow> se_streams s = [] \<and> se_calls s = [] \<and> se_opens s = [])"

definition opener_waits :: "('h, 'v, 'w) Session \<Rightarrow> (u64 \<times> ref) list" where
  "opener_waits s = map (\<lambda>(i, c, r). (i, c)) (se_openers s)"

text \<open>The streams this endpoint opened, and all the IDs it has in use.\<close>

definition own_streams :: "('h, 'v, 'w) Session \<Rightarrow> ref set" where
  "own_streams s = {r. r < length (se_heap s) \<and> \<not> st_fromSession (se_heap s ! r)}"

definition own_ids :: "('h, 'v, 'w) Session \<Rightarrow> u64 set" where
  "own_ids s = set (map_keys (se_calls s)) \<union> set (map_keys (se_opens s)) \<union> fst ` set (se_callers s)
     \<union> fst ` set (opener_waits s) \<union> (\<lambda>r. st_id (se_heap s ! r)) ` own_streams s"

definition ids_inv :: "('h, 'v, 'w) Session \<Rightarrow> bool" where
  "ids_inv s \<longleftrightarrow> ownsStreamID s (se_nextStreamID s)
     \<and> (\<not> se_ended s \<longrightarrow> se_nextStreamID s \<le> 9223372036854775809
          \<and> (\<forall>i \<in> own_ids s. i < se_nextStreamID s \<and> ownsStreamID s i)
          \<and> inj_on (\<lambda>r. st_id (se_heap s ! r)) (own_streams s))"

text \<open>The streams: each is well formed, and one whose context is alive is reachable by the session's end.\<close>

definition heap_ok :: "('h, 'v, 'w) Session \<Rightarrow> bool" where
  "heap_ok s \<longleftrightarrow> list_all stream_inv (se_heap s)
     \<and> (\<forall>r \<in> set (map_vals (se_streams s)). r < length (se_heap s))
     \<and> (\<forall>k \<in> set (se_streamTasks s). \<not> ownsStreamID s (sk_id k) \<and> sk_stream k < length (se_heap s))
     \<and> (\<forall>(i, c, r) \<in> set (se_openers s). r \<in> own_streams s \<and> st_id (se_heap s ! r) = i)
     \<and> (\<forall>(i, r) \<in> set (se_followers s). r \<in> own_streams s \<and> st_id (se_heap s ! r) = i)"

definition reach_inv :: "('h, 'v, 'w) Session \<Rightarrow> bool" where
  "reach_inv s \<longleftrightarrow> (\<forall>r < length (se_heap s). st_ctx (se_heap s ! r) = None \<longrightarrow>
     \<not> se_ended s \<and> (\<not> st_fromSession (se_heap s ! r) \<longrightarrow> map_of (se_streams s) (st_id (se_heap s ! r)) = Some r))"

definition calls_inv :: "('h, 'v, 'w) Session \<Rightarrow> bool" where
  "calls_inv s \<longleftrightarrow> waiters_inv (se_calls s) (se_callChans s) (se_callers s)"

definition opens_inv :: "('h, 'v, 'w) Session \<Rightarrow> bool" where
  "opens_inv s \<longleftrightarrow> waiters_inv (se_opens s) (se_openChans s) (opener_waits s)"

definition sess_inv :: "('h, 'v, 'w) Session \<Rightarrow> bool" where
  "sess_inv s \<longleftrightarrow> life_inv s \<and> calls_inv s \<and> opens_inv s \<and> ids_inv s \<and> heap_ok s \<and> reach_inv s"

lemmas sess_inv_defs = life_inv_def calls_inv_def opens_inv_def opener_waits_def own_streams_def own_ids_def
  ids_inv_def heap_ok_def reach_inv_def ownsStreamID_def

lemma sess_inv_irrelevant [simp]:
  "sess_inv (s\<lparr>se_reader := x1\<rparr>) = sess_inv s" "sess_inv (s\<lparr>se_probing := x2\<rparr>) = sess_inv s"
  "sess_inv (s\<lparr>se_lastPong := x3\<rparr>) = sess_inv s" "sess_inv (s\<lparr>se_source := x4\<rparr>) = sess_inv s"
  "sess_inv (s\<lparr>se_closeOnce := x5\<rparr>) = sess_inv s" "sess_inv (s\<lparr>se_handler := x6\<rparr>) = sess_inv s"
  "sess_inv (s\<lparr>se_callCtxs := x7\<rparr>) = sess_inv s" "sess_inv (s\<lparr>se_inflight := x8\<rparr>) = sess_inv s"
  "sess_inv (s\<lparr>se_callGate := x9\<rparr>) = sess_inv s" "sess_inv (s\<lparr>se_streamGate := y1\<rparr>) = sess_inv s"
  "sess_inv (s\<lparr>se_callTasks := y2\<rparr>) = sess_inv s"
  by (simp_all add: sess_inv_def sess_inv_defs)

text \<open>Which fields each part of the invariant does not look at.\<close>

lemma life_inv_irrelevant [simp]:
  "life_inv (s\<lparr>se_callChans := x1\<rparr>) = life_inv s" "life_inv (s\<lparr>se_openChans := x2\<rparr>) = life_inv s"
  "life_inv (s\<lparr>se_callers := x3\<rparr>) = life_inv s" "life_inv (s\<lparr>se_openers := x4\<rparr>) = life_inv s"
  "life_inv (s\<lparr>se_followers := x5\<rparr>) = life_inv s" "life_inv (s\<lparr>se_heap := x6\<rparr>) = life_inv s"
  "life_inv (s\<lparr>se_streamTasks := x7\<rparr>) = life_inv s" "life_inv (s\<lparr>se_nextStreamID := x8\<rparr>) = life_inv s"
  by (simp_all add: sess_inv_defs)

lemma calls_inv_irrelevant [simp]:
  "calls_inv (s\<lparr>se_streams := x1\<rparr>) = calls_inv s" "calls_inv (s\<lparr>se_opens := x2\<rparr>) = calls_inv s"
  "calls_inv (s\<lparr>se_openChans := x3\<rparr>) = calls_inv s" "calls_inv (s\<lparr>se_openers := x4\<rparr>) = calls_inv s"
  "calls_inv (s\<lparr>se_followers := x5\<rparr>) = calls_inv s" "calls_inv (s\<lparr>se_heap := x6\<rparr>) = calls_inv s"
  "calls_inv (s\<lparr>se_streamTasks := x7\<rparr>) = calls_inv s"
  "calls_inv (s\<lparr>se_nextStreamID := x8\<rparr>) = calls_inv s"
  by (simp_all add: sess_inv_defs)

lemma opens_inv_irrelevant [simp]:
  "opens_inv (s\<lparr>se_streams := x1\<rparr>) = opens_inv s" "opens_inv (s\<lparr>se_calls := x2\<rparr>) = opens_inv s"
  "opens_inv (s\<lparr>se_callChans := x3\<rparr>) = opens_inv s" "opens_inv (s\<lparr>se_callers := x4\<rparr>) = opens_inv s"
  "opens_inv (s\<lparr>se_followers := x5\<rparr>) = opens_inv s" "opens_inv (s\<lparr>se_heap := x6\<rparr>) = opens_inv s"
  "opens_inv (s\<lparr>se_streamTasks := x7\<rparr>) = opens_inv s"
  "opens_inv (s\<lparr>se_nextStreamID := x8\<rparr>) = opens_inv s"
  by (simp_all add: sess_inv_defs)

lemma ids_inv_irrelevant [simp]:
  "ids_inv (s\<lparr>se_streams := x1\<rparr>) = ids_inv s" "ids_inv (s\<lparr>se_callChans := x2\<rparr>) = ids_inv s"
  "ids_inv (s\<lparr>se_openChans := x3\<rparr>) = ids_inv s" "ids_inv (s\<lparr>se_followers := x4\<rparr>) = ids_inv s"
  "ids_inv (s\<lparr>se_streamTasks := x5\<rparr>) = ids_inv s"
  by (simp_all add: sess_inv_defs)

lemma heap_ok_irrelevant [simp]:
  "heap_ok (s\<lparr>se_calls := x1\<rparr>) = heap_ok s" "heap_ok (s\<lparr>se_opens := x2\<rparr>) = heap_ok s"
  "heap_ok (s\<lparr>se_callChans := x3\<rparr>) = heap_ok s" "heap_ok (s\<lparr>se_openChans := x4\<rparr>) = heap_ok s"
  "heap_ok (s\<lparr>se_callers := x5\<rparr>) = heap_ok s" "heap_ok (s\<lparr>se_nextStreamID := x6\<rparr>) = heap_ok s"
  by (simp_all add: sess_inv_defs)

lemma reach_inv_irrelevant [simp]:
  "reach_inv (s\<lparr>se_calls := x1\<rparr>) = reach_inv s" "reach_inv (s\<lparr>se_opens := x2\<rparr>) = reach_inv s"
  "reach_inv (s\<lparr>se_callChans := x3\<rparr>) = reach_inv s" "reach_inv (s\<lparr>se_openChans := x4\<rparr>) = reach_inv s"
  "reach_inv (s\<lparr>se_callers := x5\<rparr>) = reach_inv s" "reach_inv (s\<lparr>se_openers := x6\<rparr>) = reach_inv s"
  "reach_inv (s\<lparr>se_followers := x7\<rparr>) = reach_inv s"
  "reach_inv (s\<lparr>se_streamTasks := x8\<rparr>) = reach_inv s"
  "reach_inv (s\<lparr>se_nextStreamID := x9\<rparr>) = reach_inv s"
  by (simp_all add: sess_inv_defs)

lemma opener_waits_irrelevant [simp]:
  "opener_waits (s\<lparr>se_streams := x1\<rparr>) = opener_waits s"
  "opener_waits (s\<lparr>se_calls := x2\<rparr>) = opener_waits s"
  "opener_waits (s\<lparr>se_opens := x3\<rparr>) = opener_waits s"
  "opener_waits (s\<lparr>se_callChans := x4\<rparr>) = opener_waits s"
  "opener_waits (s\<lparr>se_openChans := x5\<rparr>) = opener_waits s"
  "opener_waits (s\<lparr>se_callers := x6\<rparr>) = opener_waits s"
  "opener_waits (s\<lparr>se_followers := x7\<rparr>) = opener_waits s"
  "opener_waits (s\<lparr>se_heap := x8\<rparr>) = opener_waits s"
  "opener_waits (s\<lparr>se_streamTasks := x9\<rparr>) = opener_waits s"
  "opener_waits (s\<lparr>se_nextStreamID := x10\<rparr>) = opener_waits s"
  "opener_waits (s\<lparr>se_transport := x11\<rparr>) = opener_waits s"
  by (simp_all add: opener_waits_def)

lemma own_streams_irrelevant [simp]:
  "own_streams (s\<lparr>se_streams := x1\<rparr>) = own_streams s"
  "own_streams (s\<lparr>se_calls := x2\<rparr>) = own_streams s" "own_streams (s\<lparr>se_opens := x3\<rparr>) = own_streams s"
  "own_streams (s\<lparr>se_callChans := x4\<rparr>) = own_streams s"
  "own_streams (s\<lparr>se_openChans := x5\<rparr>) = own_streams s"
  "own_streams (s\<lparr>se_callers := x6\<rparr>) = own_streams s"
  "own_streams (s\<lparr>se_openers := x7\<rparr>) = own_streams s"
  "own_streams (s\<lparr>se_followers := x8\<rparr>) = own_streams s"
  "own_streams (s\<lparr>se_streamTasks := x9\<rparr>) = own_streams s"
  "own_streams (s\<lparr>se_nextStreamID := x10\<rparr>) = own_streams s"
  "own_streams (s\<lparr>se_transport := x11\<rparr>) = own_streams s"
  by (simp_all add: own_streams_def)

lemma delete_keys_subset: "set (map fst (AList.delete i t)) \<subseteq> set (map fst t)"
  by (induction t) auto

lemma own_ids_delete:
  "own_ids (s\<lparr>se_calls := map_delete i (se_calls s)\<rparr>) \<subseteq> own_ids s"
  "own_ids (s\<lparr>se_opens := map_delete i (se_opens s)\<rparr>) \<subseteq> own_ids s"
  using delete_keys_subset[of i "se_calls s"] delete_keys_subset[of i "se_opens s"]
  unfolding own_ids_def by (auto simp del: set_map)

lemma life_inv_tables:
  "life_inv s \<Longrightarrow> (se_streams s = [] \<longrightarrow> x = []) \<Longrightarrow> life_inv (s\<lparr>se_streams := x\<rparr>)"
  "life_inv s \<Longrightarrow> (se_calls s = [] \<longrightarrow> y = []) \<Longrightarrow> life_inv (s\<lparr>se_calls := y\<rparr>)"
  "life_inv s \<Longrightarrow> (se_opens s = [] \<longrightarrow> z = []) \<Longrightarrow> life_inv (s\<lparr>se_opens := z\<rparr>)"
  unfolding life_inv_def by (elim conjE, intro conjI; simp)+

lemma ids_inv_mono:
  assumes "ids_inv s" "se_ended s' = se_ended s" "se_nextStreamID s' = se_nextStreamID s" "se_cfg s' = se_cfg s"
    "se_heap s' = se_heap s" "own_ids s' \<subseteq> own_ids s"
  shows "ids_inv s'"
proof -
  have "own_streams s' = own_streams s" by (simp add: own_streams_def assms(5))
  then show ?thesis using assms unfolding ids_inv_def by (auto simp: ownsStreamID_def)
qed

lemma sess_inv_transport: "tr_closed t = tr_closed (se_transport s) \<Longrightarrow> sess_inv (s\<lparr>se_transport := t\<rparr>) = sess_inv s"
  by (simp add: sess_inv_def sess_inv_defs)

subsection \<open>Ending\<close>

text \<open>What ending needs: less than the invariant, since it empties the tables.\<close>

definition endable :: "('h, 'v, 'w) Session \<Rightarrow> bool" where
  "endable s \<longleftrightarrow> se_ended s = (se_terminal s \<noteq> None) \<and> calls_inv s \<and> opens_inv s
     \<and> ownsStreamID s (se_nextStreamID s) \<and> heap_ok s
     \<and> (\<forall>r < length (se_heap s). st_ctx (se_heap s ! r) = None \<longrightarrow>
          st_fromSession (se_heap s ! r) \<or> r \<in> set (map_vals (se_streams s)))"

lemma sess_inv_endable: "sess_inv s \<Longrightarrow> endable s"
  unfolding endable_def sess_inv_def
  by (auto simp: life_inv_def ids_inv_def reach_inv_def simp del: set_map intro: map_of_val)

lemma endable_transport: "endable (s\<lparr>se_transport := t\<rparr>) = endable s"
  by (simp add: endable_def sess_inv_defs)

lemma owns_session_end [simp]: "ownsStreamID (session_end c s) i = ownsStreamID s i"
  by (simp add: ownsStreamID_def)

lemma sess_inv_end:
  assumes "endable s"
  shows "sess_inv (session_end c s)"
proof -
  let ?s = "session_end c s"
  have h: "heap_ended_by (se_heap s) (se_heap ?s)" by (rule session_end_heap)
  note hD = heap_ended_byD[OF h]
  have w: "calls_inv ?s" "opens_inv ?s"
    using assms by (simp_all add: endable_def calls_inv_def opens_inv_def opener_waits_def session_end_eq waiters_end)
  have l: "life_inv ?s"
    using assms by (auto simp: endable_def life_inv_def end_terminal_def cancel_ctx_def transport_close_def split: option.splits)
  have i: "ids_inv ?s" using assms by (simp add: endable_def ids_inv_def)
  have inv: "list_all stream_inv (se_heap ?s)"
    using assms hD by (auto simp: endable_def heap_ok_def list_all_length ended_by_def)
  have own: "r \<in> own_streams ?s \<longleftrightarrow> r \<in> own_streams s" "r \<in> own_streams s \<Longrightarrow> st_id (se_heap ?s ! r) = st_id (se_heap s ! r)" for r
    using hD(1) hD(2)[of r] by (auto simp: own_streams_def ended_by_def)
  have o: "heap_ok ?s"
    using assms hD(1) inv by (auto simp: endable_def heap_ok_def own)
  have "st_ctx (se_heap ?s ! r) \<noteq> None" if r: "r < length (se_heap s)" for r
  proof (cases "st_ctx (se_heap s ! r) = None")
    case True
    then consider "st_fromSession (se_heap s ! r)" | "r \<in> set (map_vals (se_streams s))"
      using assms r by (auto simp: endable_def)
    then show ?thesis
    proof cases
      case 1
      then show ?thesis by (rule session_end_cancelled[OF r])
    next
      case 2
      then have "st_finishOnce (se_heap ?s ! r)" using r by (rule session_end_finished)
      then show ?thesis using inv r hD(1) by (auto simp: list_all_length stream_inv_def)
    qed
  next
    case False
    then show ?thesis using hD(2)[OF r] by (simp add: ended_by_def)
  qed
  then show ?thesis using w l i o hD(1) by (simp add: sess_inv_def reach_inv_def)
qed

lemma sess_inv_session_end [simp]: "sess_inv s \<Longrightarrow> sess_inv (session_end c s)"
  by (simp add: sess_inv_end sess_inv_endable)

lemma writeFrame_inv:
  assumes "endable s" "writeFrame f s = (s', e)"
  shows "e \<noteq> None \<Longrightarrow> sess_inv s' \<and> se_ended s'"
    and "e = None \<Longrightarrow> \<exists>t. s' = s\<lparr>se_transport := t\<rparr> \<and> tr_closed t = tr_closed (se_transport s)
      \<and> \<not> tr_closed t \<and> Frame_StreamID f \<le> MaxStreamID"
proof -
  show "e \<noteq> None \<Longrightarrow> sess_inv s' \<and> se_ended s'"
    by (cases rule: writeFrame_cases[of f s]) (use assms in \<open>auto simp: sess_inv_end endable_transport\<close>)
  show "e = None \<Longrightarrow> \<exists>t. s' = s\<lparr>se_transport := t\<rparr> \<and> tr_closed t = tr_closed (se_transport s)
      \<and> \<not> tr_closed t \<and> Frame_StreamID f \<le> MaxStreamID"
    by (cases rule: writeFrame_cases[of f s])
      (use assms in \<open>auto dest: WriteFrame_closed WriteFrame_id\<close>)
qed

lemma writeFrame_sess_inv:
  assumes "sess_inv s" "writeFrame f s = (s', e)"
  shows "sess_inv s'"
proof (cases e)
  case None
  then show ?thesis using writeFrame_inv(2)[OF sess_inv_endable[OF assms(1)] assms(2)] assms(1)
    by (auto simp: sess_inv_transport)
next
  case (Some x)
  then show ?thesis using writeFrame_inv(1)[OF sess_inv_endable[OF assms(1)] assms(2)] by simp
qed

lemma sendFrame_inv [simp]: "sess_inv s \<Longrightarrow> sess_inv (sendFrame f s)"
  using writeFrame_sess_inv[of s f] unfolding sendFrame_def by (metis prod.collapse)

lemma notifyCancelled_inv [simp]: "sess_inv s \<Longrightarrow> sess_inv (notifyCancelled pb i e s)"
  by (simp add: notifyCancelled_def Let_def)

subsection \<open>Streams that change\<close>

text \<open>What any operation on a stream keeps: its identity, a context that is done, and its invariant.\<close>

definition evolves :: "stream \<Rightarrow> stream \<Rightarrow> bool" where
  "evolves a b \<longleftrightarrow> st_id b = st_id a \<and> st_fromSession b = st_fromSession a
     \<and> (st_ctx a \<noteq> None \<longrightarrow> st_ctx b \<noteq> None) \<and> (stream_inv a \<longrightarrow> stream_inv b)"

lemma ended_by_evolves: "ended_by a b \<Longrightarrow> evolves a b"
  by (simp add: ended_by_def evolves_def)

lemma evolves_finish [simp]: "evolves a (finishStream e a)" "evolves a (stream_cancel x a)"
  by (simp_all add: ended_by_evolves)

lemma evolves_refl [simp]: "evolves a a"
  by (simp add: evolves_def)

lemma evolves_ops [simp]:
  "evolves a (fst (Recv u a))" "evolves a (fst (Send pb l m a))" "evolves a (fst (deliver l p d a))"
  "evolves a (fst (pump_next p a))" "evolves a (CloseSend_begin a)" "evolves a (CloseSend_enqueue p a)"
  "evolves a (CloseSend_await p a)" "evolves a (flushOutbound_begin a)" "evolves a (flushOutbound_enqueue p a)"
  "evolves a (flushOutbound_await p a)" "evolves a (closeInboundHalf a)"
  using Recv_inv[of a u] Send_inv[of a pb l m] deliver_inv[of a l p d] pump_next_inv[of a p] wf_intros
  by (auto simp: evolves_def intro: wf_intros)
    (simp_all add: Recv_def settleCancelled_def Send_def deliver_def pump_next_def CloseSend_begin_def CloseSend_enqueue_def
      CloseSend_await_def flushOutbound_begin_def flushOutbound_enqueue_def flushOutbound_await_def closeInboundHalf_def
      finishStream_def closeInboundFinal_def stream_cancel_def Let_def
      split: list.splits option.splits sum.splits if_splits)

lemma sess_inv_evolve:
  assumes "sess_inv s" "r < length (se_heap s) \<Longrightarrow> evolves (se_heap s ! r) x"
  shows "sess_inv (s\<lparr>se_heap := (se_heap s)[r := x]\<rparr>)"
proof (cases "r < length (se_heap s)")
  case True
  let ?s = "s\<lparr>se_heap := (se_heap s)[r := x]\<rparr>"
  note e = assms(2)[OF True, unfolded evolves_def]
  have own: "own_streams ?s = own_streams s"
    using e True by (auto simp: own_streams_def nth_list_update)
  have ids: "st_id (se_heap ?s ! q) = st_id (se_heap s ! q)" if "q < length (se_heap s)" for q
    using e that True by (cases "q = r") simp_all
  have oids: "own_ids ?s = own_ids s"
    unfolding own_ids_def own using ids by (force simp: own_streams_def opener_waits_def image_iff)
  have inj: "inj_on (\<lambda>r. st_id (se_heap ?s ! r)) (own_streams s) = inj_on (\<lambda>r. st_id (se_heap s ! r)) (own_streams s)"
    by (rule inj_on_cong) (rule ids, simp add: own_streams_def)
  have "ids_inv ?s" using assms(1) unfolding sess_inv_def ids_inv_def own oids inj by (simp add: ownsStreamID_def)
  moreover have "heap_ok ?s" using assms(1) e True unfolding sess_inv_def heap_ok_def own
    by (auto simp: list_all_length nth_list_update ownsStreamID_def own_streams_def)
  moreover have "reach_inv ?s"
    using assms(1) e True unfolding sess_inv_def reach_inv_def by (auto simp: nth_list_update)
  ultimately show ?thesis using assms(1) by (simp add: sess_inv_def)
next
  case False
  then have "s\<lparr>se_heap := (se_heap s)[r := x]\<rparr> = s" by (cases s) (simp add: list_update_beyond)
  then show ?thesis using assms(1) by simp
qed

lemma upd_stream_inv: "sess_inv s \<Longrightarrow> (r < length (se_heap s) \<Longrightarrow> evolves (se_heap s ! r) (f (se_heap s ! r))) \<Longrightarrow> sess_inv (upd_stream r f s)"
  unfolding upd_stream_def by (rule sess_inv_evolve)

lemma wake_reader_inv [simp]: "sess_inv (wake_reader s) = sess_inv s"
  by (simp add: wake_reader_def)

lemma finish_ref_inv [simp]: "sess_inv s \<Longrightarrow> sess_inv (finish_ref r e s)"
  by (simp add: finish_ref_def upd_stream_inv)

lemma cancel_call_inv [simp]: "sess_inv (cancel_call c s) = sess_inv s"
  by (simp add: cancel_call_def)

subsection \<open>Tables\<close>

lemma waiters_fewer: "waiters_inv t b ws \<Longrightarrow> waiters_inv t b (remove1 x ws)"
proof -
  assume w: "waiters_inv t b ws"
  have d: "distinct ws" "inj_on fst (set ws)" "inj_on snd (set ws)"
    using waiters_invD(5,6)[OF w] by (auto simp: distinct_map)
  have s: "set (remove1 x ws) \<subseteq> set ws" by (rule set_remove1_subset)
  have "distinct (map fst (remove1 x ws))" "distinct (map snd (remove1 x ws))"
    using d s by (auto simp: distinct_map intro: inj_on_subset)
  then show ?thesis
    by (intro waiters_invI) (use waiters_invD[OF w] s in \<open>blast+\<close>)
qed

lemma discardCall_inv:
  assumes "sess_inv s" "\<forall>c. (i, c) \<in> set (se_callers s) \<longrightarrow> se_callChans s ! c \<noteq> []"
  shows "sess_inv (discardCall i s)"
proof -
  have "calls_inv (discardCall i s)"
    using assms waiters_discard[of "se_calls s" "se_callChans s" "se_callers s" i]
    by (simp add: sess_inv_def calls_inv_def discardCall_def)
  moreover have "ids_inv (discardCall i s)"
    by (rule ids_inv_mono[of s]) (use assms own_ids_delete in \<open>simp_all add: sess_inv_def discardCall_def\<close>)
  ultimately show ?thesis using assms(1) life_inv_tables(2)[of s "map_delete i (se_calls s)"]
    by (simp add: sess_inv_def discardCall_def)
qed

lemma discardOpen_inv:
  assumes "sess_inv s" "\<forall>c. (i, c) \<in> set (opener_waits s) \<longrightarrow> se_openChans s ! c \<noteq> []"
  shows "sess_inv (discardOpen i s)"
proof -
  have "opens_inv (discardOpen i s)"
    using assms waiters_discard[of "se_opens s" "se_openChans s" "opener_waits s" i]
    by (simp add: sess_inv_def opens_inv_def opener_waits_def discardOpen_def)
  moreover have "ids_inv (discardOpen i s)"
    by (rule ids_inv_mono[of s]) (use assms own_ids_delete in \<open>simp_all add: sess_inv_def discardOpen_def\<close>)
  ultimately show ?thesis using assms(1) life_inv_tables(3)[of s "map_delete i (se_opens s)"]
    by (simp add: sess_inv_def discardOpen_def)
qed

lemma discardStream_inv:
  assumes "sess_inv s" "\<And>r. r \<in> own_streams s \<Longrightarrow> st_id (se_heap s ! r) = i \<Longrightarrow> st_ctx (se_heap s ! r) \<noteq> None"
  shows "sess_inv (discardStream i s)"
proof -
  have v: "set (map_vals (map_delete i (se_streams s))) \<subseteq> set (map_vals (se_streams s))" by (rule vals_delete)
  have "reach_inv (discardStream i s)"
    unfolding reach_inv_def
  proof (intro allI impI conjI)
    fix r assume r: "r < length (se_heap (discardStream i s))" "st_ctx (se_heap (discardStream i s) ! r) = None"
    then show "\<not> se_ended (discardStream i s)" using assms(1) by (simp add: sess_inv_def reach_inv_def discardStream_def)
    assume "\<not> st_fromSession (se_heap (discardStream i s) ! r)"
    then have o: "r \<in> own_streams s" using r by (simp add: own_streams_def discardStream_def)
    then have "st_id (se_heap s ! r) \<noteq> i" using assms(2)[of r] r by (auto simp: discardStream_def)
    then show "map_of (se_streams (discardStream i s)) (st_id (se_heap (discardStream i s) ! r)) = Some r"
      using assms(1) o r by (simp add: discardStream_def sess_inv_def reach_inv_def own_streams_def)
  qed
  moreover have "heap_ok (discardStream i s)"
    using assms(1) v by (auto simp: sess_inv_def heap_ok_def discardStream_def own_streams_def ownsStreamID_def simp del: set_map)
  ultimately show ?thesis using assms(1) life_inv_tables(1)[of s "map_delete i (se_streams s)"]
    by (simp add: sess_inv_def discardStream_def)
qed

lemma own_stream_owned:
  "sess_inv s \<Longrightarrow> r \<in> own_streams s \<Longrightarrow> st_ctx (se_heap s ! r) = None \<Longrightarrow> ownsStreamID s (st_id (se_heap s ! r))"
  by (auto simp: sess_inv_def reach_inv_def ids_inv_def own_ids_def own_streams_def)

lemma discardStream_foreign: "sess_inv s \<Longrightarrow> \<not> ownsStreamID s i \<Longrightarrow> sess_inv (discardStream i s)"
  by (rule discardStream_inv) (auto dest: own_stream_owned)

lemma discardStream_ended: "sess_inv s \<Longrightarrow> se_ended s \<Longrightarrow> sess_inv (discardStream i s)"
  by (rule discardStream_inv) (auto simp: sess_inv_def reach_inv_def own_streams_def)

lemma finish_discard: "finish_ref r e (discardStream i s) = discardStream i (finish_ref r e s)"
  by (simp add: finish_ref_eq discardStream_def Let_def)

lemma finish_taken_inv:
  assumes "sess_inv s" "map_of (se_streams s) i = Some r"
  shows "sess_inv (finish_ref r e (discardStream i s))"
  unfolding finish_discard
proof (rule discardStream_inv)
  show inv: "sess_inv (finish_ref r e s)" using assms(1) by simp
  fix q assume q: "q \<in> own_streams (finish_ref r e s)" "st_id (se_heap (finish_ref r e s) ! q) = i"
  show "st_ctx (se_heap (finish_ref r e s) ! q) \<noteq> None"
  proof
    assume n: "st_ctx (se_heap (finish_ref r e s) ! q) = None"
    have "map_of (se_streams (finish_ref r e s)) i = Some q"
      using inv n q by (auto simp: sess_inv_def reach_inv_def own_streams_def simp del: finish_ref_fields)
    then have "q = r" using assms(2) by simp
    moreover have "r < length (se_heap s)" using q \<open>q = r\<close> by (simp add: own_streams_def)
    ultimately have "st_finishOnce (se_heap (finish_ref r e s) ! q)" by simp
    moreover have "stream_inv (se_heap (finish_ref r e s) ! q)"
      using inv q by (auto simp: sess_inv_def heap_ok_def list_all_length own_streams_def simp del: finish_ref_fields)
    ultimately show False using n by (auto simp: stream_inv_def)
  qed
qed

lemma settled_call_inv:
  assumes "sess_inv s" "map_of (se_calls s) i = Some c"
  shows "sess_inv (send_outcome c v (s\<lparr>se_calls := map_delete i (se_calls s)\<rparr>))"
proof -
  have "calls_inv (send_outcome c v (s\<lparr>se_calls := map_delete i (se_calls s)\<rparr>))"
    using assms waiters_settle(1)[of "se_calls s" "se_callChans s" "se_callers s" i c v]
    by (simp add: sess_inv_def calls_inv_def send_outcome_def)
  moreover have "ids_inv (s\<lparr>se_calls := map_delete i (se_calls s)\<rparr>)"
    by (rule ids_inv_mono[of s]) (use assms own_ids_delete in \<open>simp_all add: sess_inv_def\<close>)
  ultimately show ?thesis using assms(1) life_inv_tables(2)[of s "map_delete i (se_calls s)"]
    by (simp add: sess_inv_def send_outcome_def)
qed

lemma settled_open_inv:
  assumes "sess_inv s" "map_of (se_opens s) i = Some c"
  shows "sess_inv (send_accepted c v (s\<lparr>se_opens := map_delete i (se_opens s)\<rparr>))"
proof -
  have "opens_inv (send_accepted c v (s\<lparr>se_opens := map_delete i (se_opens s)\<rparr>))"
    using assms waiters_settle(1)[of "se_opens s" "se_openChans s" "opener_waits s" i c v]
    by (simp add: sess_inv_def opens_inv_def opener_waits_def send_accepted_def)
  moreover have "ids_inv (s\<lparr>se_opens := map_delete i (se_opens s)\<rparr>)"
    by (rule ids_inv_mono[of s]) (use assms own_ids_delete in \<open>simp_all add: sess_inv_def\<close>)
  ultimately show ?thesis using assms(1) life_inv_tables(3)[of s "map_delete i (se_opens s)"]
    by (simp add: sess_inv_def send_accepted_def)
qed

end
