(* ===== verification/Session_Steps.thy ===== *)
theory Session_Steps
  imports Session_Waiters
begin

text \<open>
  Every operation of the session engine keeps the invariant of the previous theory, and so
  does every step of the state machine. The properties of the reachable states follow.
\<close>

section \<open>The operations keep the invariant\<close>

subsection \<open>New stream IDs\<close>

lemma owns_iff: "ownsStreamID s i \<longleftrightarrow> (odd i) = (cfg_Role (se_cfg s) = RoleClient)"
  by (simp add: ownsStreamID_def odd_iff_mod_2_eq_one)

lemma owns_next: "ownsStreamID s (i + 2) = ownsStreamID s i"
  by (simp add: owns_iff)

lemma next_id_bounds:
  fixes i :: u64
  assumes "i \<le> MaxStreamID"
  shows "i < i + 2" and "i + 2 \<le> 9223372036854775809"
proof -
  have i: "unat i \<le> 9223372036854775807" using assms by (simp add: word_le_nat_alt)
  then have "unat (i + 2) = unat i + 2" by (simp add: unat_word_ariths)
  then show "i < i + 2" "i + 2 \<le> 9223372036854775809"
    using i by (simp_all add: word_less_nat_alt word_le_nat_alt)
qed

lemma waiting_settled:
  assumes "sess_inv s" "se_ended s"
  shows "(i, c) \<in> set (se_callers s) \<Longrightarrow> se_callChans s ! c \<noteq> []"
    and "(i, d) \<in> set (opener_waits s) \<Longrightarrow> se_openChans s ! d \<noteq> []"
  using assms by (auto simp: sess_inv_def calls_inv_def opens_inv_def life_inv_def dest: waiters_invD(7))

lemma fresh_id:
  assumes "sess_inv s"
  shows "se_nextStreamID s \<notin> set (map_keys (se_calls s))"
    and "se_nextStreamID s \<notin> set (map_keys (se_opens s))"
    and "(se_nextStreamID s, c) \<in> set (se_callers s) \<Longrightarrow> se_callChans s ! c \<noteq> []"
    and "(se_nextStreamID s, c) \<in> set (opener_waits s) \<Longrightarrow> se_openChans s ! c \<noteq> []"
    and "r \<in> own_streams s \<Longrightarrow> st_id (se_heap s ! r) = se_nextStreamID s \<Longrightarrow> st_ctx (se_heap s ! r) \<noteq> None"
    and "\<not> se_ended s \<Longrightarrow> se_nextStreamID s \<notin> own_ids s"
proof -
  show n: "\<not> se_ended s \<Longrightarrow> se_nextStreamID s \<notin> own_ids s"
    using assms by (auto simp: sess_inv_def ids_inv_def)
  have e: "se_ended s \<Longrightarrow> se_calls s = [] \<and> se_opens s = []"
    using assms by (auto simp: sess_inv_def life_inv_def)
  show "se_nextStreamID s \<notin> set (map_keys (se_calls s))" "se_nextStreamID s \<notin> set (map_keys (se_opens s))"
    using n e by (cases "se_ended s"; simp add: own_ids_def)+
  show "se_callChans s ! c \<noteq> []" if "(se_nextStreamID s, c) \<in> set (se_callers s)"
    using n that waiting_settled[OF assms] by (cases "se_ended s") (force simp: own_ids_def)+
  show "se_openChans s ! c \<noteq> []" if "(se_nextStreamID s, c) \<in> set (opener_waits s)"
    using n that waiting_settled[OF assms] by (cases "se_ended s") (force simp: own_ids_def)+
  show "st_ctx (se_heap s ! r) \<noteq> None" if "r \<in> own_streams s" "st_id (se_heap s ! r) = se_nextStreamID s"
  proof (cases "se_ended s")
    case True
    then show ?thesis using that(1) assms by (auto simp: sess_inv_def reach_inv_def own_streams_def)
  next
    case False
    then show ?thesis using n that by (force simp: own_ids_def)
  qed
qed

text \<open>A session that took the next ID and is still alive.\<close>

lemma ids_inv_next:
  assumes "ids_inv s" "\<not> se_ended s" "se_nextStreamID s \<le> MaxStreamID"
    "se_ended s' = se_ended s" "se_nextStreamID s' = se_nextStreamID s + 2" "se_cfg s' = se_cfg s"
    "own_ids s' \<subseteq> insert (se_nextStreamID s) (own_ids s)"
    "inj_on (\<lambda>r. st_id (se_heap s' ! r)) (own_streams s')"
  shows "ids_inv s'"
proof -
  note b = next_id_bounds[OF assms(3)]
  have o: "ownsStreamID s' i = ownsStreamID s i" for i by (simp add: ownsStreamID_def assms(6))
  have "i < se_nextStreamID s' \<and> ownsStreamID s i" if "i \<in> own_ids s'" for i
    using that assms(1,2,5,7) b(1) unfolding ids_inv_def by (auto intro: less_trans)
  then show ?thesis using assms(1,2,4,5,8) b(2) by (simp add: ids_inv_def o owns_next)
qed

lemma set_update_vals: "set (map snd (AList.update i c t)) \<subseteq> insert c (set (map snd t))"
  by (induction t) auto

lemma remove1_key_gone: "distinct (map fst ws) \<Longrightarrow> (i, k) \<in> set ws \<Longrightarrow> (i, d) \<notin> set (remove1 (i, k) ws)"
  using eq_key_imp_eq_value[of ws i k d] by (auto simp: distinct_map dest: notin_set_remove1)

lemma life_inv_alive:
  "life_inv s \<Longrightarrow> \<not> se_ended s \<Longrightarrow> life_inv (s\<lparr>se_calls := y\<rparr>)"
  "life_inv s \<Longrightarrow> \<not> se_ended s \<Longrightarrow> life_inv (s\<lparr>se_opens := y\<rparr>)"
  "life_inv s \<Longrightarrow> \<not> se_ended s \<Longrightarrow> life_inv (s\<lparr>se_streams := y\<rparr>)"
  unfolding life_inv_def by (elim conjE, intro conjI; simp)+

lemma endableI:
  assumes "se_ended s = (se_terminal s \<noteq> None)" "calls_inv s" "opens_inv s" "ownsStreamID s (se_nextStreamID s)" "heap_ok s"
    "\<And>r. r < length (se_heap s) \<Longrightarrow> st_ctx (se_heap s ! r) = None \<Longrightarrow> \<not> st_fromSession (se_heap s ! r) \<Longrightarrow>
       map_of (se_streams s) (st_id (se_heap s ! r)) = Some r"
  shows "endable s"
  unfolding endable_def using assms(1-5) map_of_val[OF assms(6)] by blast

lemma sess_invD:
  assumes "sess_inv s"
  shows "se_ended s = (se_terminal s \<noteq> None)" "calls_inv s" "opens_inv s" "ownsStreamID s (se_nextStreamID s)" "heap_ok s"
  using assms unfolding sess_inv_def life_inv_def ids_inv_def by blast+

subsection \<open>Calls\<close>

lemma Call_send_inv:
  assumes "sess_inv s" "Call_send body s = (s', r)"
  shows "sess_inv s'"
proof -
  let ?i = "se_nextStreamID s" and ?c = "length (se_callChans s)"
  define s3 where "s3 = s\<lparr>se_callChans := se_callChans s @ [[]], se_nextStreamID := ?i + 2, se_calls := map_set ?i ?c (se_calls s)\<rparr>"
  let ?f = "\<lparr>Frame_Type = FrameOpenCall, Frame_StreamID = ?i, Frame_Payload = body\<rparr>"
  obtain s4 e where w: "writeFrame ?f s3 = (s4, e)" by fastforce
  have eq: "(s', r) = (case e of Some err \<Rightarrow> (discardCall ?i s4, Inl err)
      | None \<Rightarrow> (s4\<lparr>se_callers := (?i, ?c) # se_callers s4\<rparr>, Inr (?i, ?c)))"
    using assms(2) w by (simp add: Call_send_def allocateStreamID_def registerCall_def s3_def Let_def split: option.splits)
  have wt: "waiters_inv (se_calls s) (se_callChans s) (se_callers s)" using assms(1) by (simp add: sess_inv_def calls_inv_def)
  have c3: "calls_inv s3"
    using waiters_new[OF wt fresh_id(1)[OF assms(1)]] fresh_id(3)[OF assms(1)] by (simp add: calls_inv_def s3_def)
  have e3: "endable s3"
    using sess_inv_endable[OF assms(1)] c3 by (simp add: endable_def s3_def owns_next) (simp add: ownsStreamID_def owns_next[unfolded ownsStreamID_def])
  show ?thesis
  proof (cases e)
    case (Some err)
    then have s4: "sess_inv s4" "se_ended s4" using writeFrame_inv(1)[OF e3 w] by auto
    then have "sess_inv (discardCall ?i s4)" by (intro discardCall_inv allI impI) (auto dest: waiting_settled(1))
    then show ?thesis using eq Some by simp
  next
    case None
    obtain t where t: "s4 = s3\<lparr>se_transport := t\<rparr>" "tr_closed t = tr_closed (se_transport s3)" "\<not> tr_closed t" "?i \<le> MaxStreamID"
      using writeFrame_inv(2)[OF e3 w None] by auto
    have al: "\<not> se_ended s" using assms(1) t by (auto simp: sess_inv_def life_inv_def s3_def)
    let ?s = "s3\<lparr>se_callers := (?i, ?c) # se_callers s3\<rparr>"
    have nk: "?i \<notin> fst ` set (se_callers s)" using fresh_id(6)[OF assms(1) al] by (simp add: own_ids_def)
    have "calls_inv ?s"
      using waiters_new_caller[OF wt fresh_id(1)[OF assms(1)] nk] by (simp add: calls_inv_def s3_def)
    moreover have "ids_inv ?s"
    proof (rule ids_inv_next[of s])
      show "own_ids ?s \<subseteq> insert ?i (own_ids s)"
        by (auto simp: own_ids_def s3_def update_conv dom_update)
      show "inj_on (\<lambda>r. st_id (se_heap ?s ! r)) (own_streams ?s)"
        using assms(1) al by (simp add: sess_inv_def ids_inv_def s3_def)
    qed (use assms(1) al t in \<open>simp_all add: sess_inv_def s3_def\<close>)
    moreover have "life_inv ?s" using assms(1) al by (simp add: sess_inv_def s3_def life_inv_alive)
    ultimately have "sess_inv ?s" using assms(1) by (simp add: sess_inv_def s3_def)
    then have "sess_inv (?s\<lparr>se_transport := t\<rparr>)" using t by (simp add: sess_inv_transport)
    moreover have "s' = ?s\<lparr>se_transport := t\<rparr>" using eq None t by (cases s3) simp
    ultimately show ?thesis by simp
  qed
qed

lemma Call_finish_inv:
  assumes "sess_inv s" "c \<in> set (se_callers s)" "Call_finish pb pick ctx_err c s = (s', r)"
  shows "sess_inv s'"
proof -
  obtain i k where c: "c = (i, k)" by (cases c)
  have wt: "waiters_inv (se_calls s) (se_callChans s) (se_callers s)" using assms(1) by (simp add: sess_inv_def calls_inv_def)
  let ?s1 = "s\<lparr>se_callers := remove1 c (se_callers s)\<rparr>"
  have ids: "ids_inv ?s1"
    by (rule ids_inv_mono[of s])
      (use assms(1) set_remove1_subset[of c "se_callers s"] in \<open>auto simp: sess_inv_def own_ids_def simp del: set_map\<close>)
  have i1: "sess_inv ?s1"
    using assms(1) waiters_fewer[OF wt] ids by (simp add: sess_inv_def calls_inv_def)
  have gone: "(i, d) \<notin> set (remove1 c (se_callers s))" for d
    using remove1_key_gone[OF waiters_invD(5)[OF wt]] assms(2) c by simp
  consider "s' = s" | e where "s' = discardCall i (notifyCancelled pb i (Some e) ?s1)"
    | "s' = discardCall i (?s1\<lparr>se_callChans := (se_callChans s)[k := tl (se_callChans s ! k)]\<rparr>)"
    using assms(3) by (auto simp: Call_finish_def c Let_def split: option.splits sum.splits)
  then show ?thesis
  proof cases
    case 1
    then show ?thesis using assms(1) by simp
  next
    case (2 e)
    have "se_callers (notifyCancelled pb i (Some e) ?s1) = remove1 c (se_callers s)"
      by (simp add: notifyCancelled_def Let_def)
    then show ?thesis using 2 i1 gone by (auto intro!: discardCall_inv)
  next
    case 3
    have "calls_inv s'" using waiters_leave(2)[OF wt assms(2)[unfolded c]] by (simp add: 3 calls_inv_def discardCall_def c)
    moreover have "ids_inv s'"
      unfolding 3 discardCall_def
      by (rule ids_inv_mono[of "?s1\<lparr>se_callChans := (se_callChans s)[k := tl (se_callChans s ! k)]\<rparr>"])
        (use ids own_ids_delete(1)[of i "?s1\<lparr>se_callChans := (se_callChans s)[k := tl (se_callChans s ! k)]\<rparr>"] in simp_all)
    moreover have "life_inv s'" using i1 by (simp add: 3 discardCall_def sess_inv_def life_inv_tables)
    ultimately show ?thesis using i1 by (simp add: 3 sess_inv_def discardCall_def)
  qed
qed

subsection \<open>Opened streams\<close>

text \<open>The state in which \<^verbatim>\<open>OpenStream\<close> writes its request: the stream and the channel of the answer are registered.\<close>

definition open_requesting :: "string \<Rightarrow> go_error option \<Rightarrow> ('h, 'v, 'w) Session \<Rightarrow> ('h, 'v, 'w) Session" where
  "open_requesting m ctx_err s = s\<lparr>se_openChans := se_openChans s @ [[]], se_nextStreamID := se_nextStreamID s + 2,
     se_streams := map_set (se_nextStreamID s) (length (se_heap s)) (se_streams s),
     se_opens := map_set (se_nextStreamID s) (length (se_openChans s)) (se_opens s),
     se_heap := se_heap s @ [startPump (newStreamWithin (se_limits s) (se_nextStreamID s) m False ctx_err)]\<rparr>"

lemma open_requesting_heap:
  "q < length (se_heap s) \<Longrightarrow> se_heap (open_requesting m c s) ! q = se_heap s ! q"
  "st_id (se_heap (open_requesting m c s) ! length (se_heap s)) = se_nextStreamID s"
  "own_streams (open_requesting m c s) = insert (length (se_heap s)) (own_streams s)"
  by (auto simp: open_requesting_def own_streams_def nth_append less_Suc_eq startPump_def newStreamWithin_def)

lemma own_streams_lt: "q \<in> own_streams s \<Longrightarrow> q < length (se_heap s)"
  by (simp add: own_streams_def)

lemma open_requesting_heap_ok:
  assumes "sess_inv s"
  shows "heap_ok (open_requesting m c s)"
proof -
  let ?n = "length (se_heap s)" and ?s = "open_requesting m c s"
  have st: "stream_inv (startPump (newStreamWithin (se_limits s) (se_nextStreamID s) m False c))"
    by (simp add: startPump_def newStreamWithin_def stream_inv_def)
  have "set (map_vals (se_streams ?s)) \<subseteq> insert ?n (set (map_vals (se_streams s)))"
    by (simp add: open_requesting_def set_update_vals del: set_map)
  moreover have "r < ?n" if "r \<in> set (map_vals (se_streams s))" for r using assms that unfolding sess_inv_def heap_ok_def by blast
  ultimately have vb: "r < length (se_heap ?s)" if "r \<in> set (map_vals (se_streams ?s))" for r
    using that by (fastforce simp: open_requesting_def simp del: set_map)
  show ?thesis
    using assms vb st own_streams_lt[of _ s] unfolding sess_inv_def heap_ok_def open_requesting_heap(3)
    by (auto simp: open_requesting_heap open_requesting_def nth_append ownsStreamID_def simp del: set_map)
qed

lemma open_requesting_reach:
  assumes "sess_inv s" "q < length (se_heap (open_requesting m c s))" "st_ctx (se_heap (open_requesting m c s) ! q) = None"
    "\<not> st_fromSession (se_heap (open_requesting m c s) ! q)"
  shows "map_of (se_streams (open_requesting m c s)) (st_id (se_heap (open_requesting m c s) ! q)) = Some q"
proof (cases "q = length (se_heap s)")
  case True
  then show ?thesis using open_requesting_heap(2)[of m c s] by (simp add: open_requesting_def)
next
  case False
  then have q: "q < length (se_heap s)" "se_heap (open_requesting m c s) ! q = se_heap s ! q"
    using assms(2) open_requesting_heap(1)[of q s m c] by (simp_all add: open_requesting_def)
  then have "q \<in> own_streams s" "st_ctx (se_heap s ! q) = None" using assms(3,4) by (simp_all add: own_streams_def)
  then have "st_id (se_heap s ! q) \<noteq> se_nextStreamID s" using fresh_id(5)[OF assms(1)] by blast
  then show ?thesis using assms(1,3,4) q by (simp add: open_requesting_def sess_inv_def reach_inv_def)
qed

lemma open_requesting_endable:
  assumes "sess_inv s"
  shows "endable (open_requesting m c s)"
proof (rule endableI)
  have wt: "waiters_inv (se_opens s) (se_openChans s) (opener_waits s)" using assms by (simp add: sess_inv_def opens_inv_def)
  show "opens_inv (open_requesting m c s)"
    using waiters_new[OF wt fresh_id(2)[OF assms]] fresh_id(4)[OF assms] by (simp add: opens_inv_def open_requesting_def)
qed (use sess_invD[OF assms] open_requesting_heap_ok[OF assms] open_requesting_reach[OF assms] in
    \<open>simp_all add: open_requesting_def owns_iff\<close>)

lemma open_requested_inv:
  assumes "sess_inv s" "\<not> se_ended s" "se_nextStreamID s \<le> MaxStreamID"
  shows "sess_inv ((open_requesting m c s)\<lparr>se_openers := (se_nextStreamID s, length (se_openChans s), length (se_heap s)) # se_openers s\<rparr>)"
proof -
  let ?i = "se_nextStreamID s" and ?c = "length (se_openChans s)" and ?r = "open_requesting m c s"
  let ?s = "?r\<lparr>se_openers := (?i, ?c, length (se_heap s)) # se_openers s\<rparr>"
  have wt: "waiters_inv (se_opens s) (se_openChans s) (opener_waits s)" using assms(1) by (simp add: sess_inv_def opens_inv_def)
  have fr: "?i \<notin> own_ids s" by (rule fresh_id(6)[OF assms(1,2)])
  then have nk: "?i \<notin> fst ` set (opener_waits s)" by (simp add: own_ids_def)
  have ow: "opener_waits ?s = (?i, ?c) # opener_waits s" by (simp add: opener_waits_def)
  note hp = open_requesting_heap(1)[of _ s m c] open_requesting_heap(2,3)[of m c s] own_streams_lt[of _ s]
  have "opens_inv ?s"
    using waiters_new_caller[OF wt fresh_id(2)[OF assms(1)] nk] by (simp add: opens_inv_def ow) (simp add: open_requesting_def)
  moreover have "ids_inv ?s"
  proof (rule ids_inv_next[of s])
    show "own_ids ?s \<subseteq> insert ?i (own_ids s)"
      unfolding own_ids_def ow using hp by (auto simp: open_requesting_def dom_update)
    have "inj_on (\<lambda>r. st_id (se_heap s ! r)) (own_streams s)" using assms(1,2) by (simp add: sess_inv_def ids_inv_def)
    moreover have "?i \<notin> (\<lambda>r. st_id (se_heap s ! r)) ` own_streams s" using fr by (simp add: own_ids_def)
    ultimately show "inj_on (\<lambda>r. st_id (se_heap ?s ! r)) (own_streams ?s)" using hp by (auto simp: inj_on_def image_iff)
  qed (use assms in \<open>simp_all add: sess_inv_def open_requesting_def\<close>)
  moreover have "heap_ok ?s" using open_requesting_heap_ok[OF assms(1), of m c] hp by (auto simp: heap_ok_def ownsStreamID_def open_requesting_def)
  moreover have "reach_inv ?s" using open_requesting_reach[OF assms(1), of _ m c] assms(2) by (auto simp: reach_inv_def open_requesting_def)
  moreover have "life_inv ?s" "calls_inv ?s" using assms(1,2) by (simp_all add: sess_inv_def open_requesting_def life_inv_alive)
  ultimately show ?thesis by (simp add: sess_inv_def)
qed

lemma OpenStream_send_inv:
  assumes "sess_inv s" "OpenStream_send m body ctx_err s = (s', r)"
  shows "sess_inv s'"
proof -
  let ?i = "se_nextStreamID s" and ?c = "length (se_openChans s)" and ?n = "length (se_heap s)" and ?s6 = "open_requesting m ctx_err s"
  let ?f = "\<lparr>Frame_Type = FrameOpenStream, Frame_StreamID = ?i, Frame_Payload = body\<rparr>"
  obtain s7 e where w: "writeFrame ?f ?s6 = (s7, e)" by fastforce
  have eq: "(s', r) = (case e of Some err \<Rightarrow> (discardOpen ?i (finish_ref ?n (Some err) s7), Inl err)
      | None \<Rightarrow> (s7\<lparr>se_openers := (?i, ?c, ?n) # se_openers s7\<rparr>, Inr (?i, ?c, ?n)))"
    using assms(2) w
    by (simp add: OpenStream_send_def allocateStreamID_def registerStream_def registerOpen_def upd_stream_def open_requesting_def Let_def
        split: option.splits)
  show ?thesis
  proof (cases e)
    case (Some err)
    then have "sess_inv s7" "se_ended s7" using writeFrame_inv(1)[OF open_requesting_endable[OF assms(1)] w] by auto
    then have "sess_inv (finish_ref ?n (Some err) s7)" "se_ended (finish_ref ?n (Some err) s7)" by simp_all
    then have "sess_inv (discardOpen ?i (finish_ref ?n (Some err) s7))"
      by (intro discardOpen_inv allI impI) (auto dest: waiting_settled(2))
    then show ?thesis using eq Some by simp
  next
    case None
    obtain t where t: "s7 = ?s6\<lparr>se_transport := t\<rparr>" "tr_closed t = tr_closed (se_transport ?s6)" "\<not> tr_closed t" "?i \<le> MaxStreamID"
      using writeFrame_inv(2)[OF open_requesting_endable[OF assms(1)] w None] by auto
    have "\<not> se_ended s" using assms(1) t by (auto simp: sess_inv_def life_inv_def open_requesting_def)
    from open_requested_inv[OF assms(1) this t(4)]
    have "sess_inv (?s6\<lparr>se_openers := (?i, ?c, ?n) # se_openers s\<rparr>\<lparr>se_transport := t\<rparr>)" using t(2) by (simp add: sess_inv_transport)
    moreover have "s' = ?s6\<lparr>se_openers := (?i, ?c, ?n) # se_openers s\<rparr>\<lparr>se_transport := t\<rparr>" using eq None t by (simp add: open_requesting_def)
    ultimately show ?thesis by simp
  qed
qed

lemma opener_facts:
  assumes "sess_inv s" "(i, c, r) \<in> set (se_openers s)"
  shows "r \<in> own_streams s" "st_id (se_heap s ! r) = i" "(i, c) \<in> set (opener_waits s)"
  using assms rev_image_eqI[OF assms(2), of "(i, c)" "\<lambda>(i, c, r). (i, c)"]
  by (auto simp: sess_inv_def heap_ok_def opener_waits_def)

lemma map_remove1_inj: "inj_on f (set xs) \<Longrightarrow> x \<in> set xs \<Longrightarrow> map f (remove1 x xs) = remove1 (f x) (map f xs)"
  by (induction xs) (auto simp: inj_on_def)

lemma opener_waits_remove:
  assumes "sess_inv s" "(i, c, r) \<in> set (se_openers s)"
  shows "opener_waits (s\<lparr>se_openers := remove1 (i, c, r) (se_openers s)\<rparr>) = remove1 (i, c) (opener_waits s)"
proof -
  have "distinct (map fst (opener_waits s))" using assms(1) waiters_invD(5) by (auto simp: sess_inv_def opens_inv_def)
  then have "inj_on (fst \<circ> (\<lambda>(i, c, r). (i, c))) (set (se_openers s))"
    by (simp add: opener_waits_def distinct_map)
  then have "inj_on (\<lambda>(i, c, r). (i, c)) (set (se_openers s))" by (rule inj_on_imageI2)
  from map_remove1_inj[OF this assms(2)] show ?thesis by (simp add: opener_waits_def)
qed

lemma OpenStream_finish_inv:
  assumes "sess_inv s" "c \<in> set (se_openers s)" "OpenStream_finish pb pick ctx_err c s = (s', res)"
  shows "sess_inv s'"
proof -
  obtain i k r where c: "c = (i, k, r)" by (cases c)
  note of = opener_facts[OF assms(1) assms(2)[unfolded c]] and owr = opener_waits_remove[OF assms(1) assms(2)[unfolded c]]
  have wt: "waiters_inv (se_opens s) (se_openChans s) (opener_waits s)" using assms(1) by (simp add: sess_inv_def opens_inv_def)
  let ?s1 = "s\<lparr>se_openers := remove1 c (se_openers s)\<rparr>"
  have sub: "set (remove1 c (se_openers s)) \<subseteq> set (se_openers s)" by (rule set_remove1_subset)
  have ids: "ids_inv ?s1"
  proof (rule ids_inv_mono[of s])
    have "set (opener_waits ?s1) \<subseteq> set (opener_waits s)" unfolding c owr by (rule set_remove1_subset)
    then show "own_ids ?s1 \<subseteq> own_ids s" by (auto simp: own_ids_def simp del: set_map)
  qed (use assms(1) in \<open>simp_all add: sess_inv_def\<close>)
  have hp: "heap_ok ?s1" using assms(1) sub by (auto simp: sess_inv_def heap_ok_def ownsStreamID_def)
  have op: "opens_inv ?s1" using waiters_fewer[OF wt] owr c by (simp add: opens_inv_def)
  have i1: "sess_inv ?s1" using assms(1) ids hp op by (simp add: sess_inv_def)
  have gone: "(i, d) \<notin> set (opener_waits ?s1)" for d
    using remove1_key_gone[OF waiters_invD(5)[OF wt] of(3)] owr c by simp
  let ?s2 = "?s1\<lparr>se_openChans := (se_openChans s)[k := tl (se_openChans s ! k)]\<rparr>"
  have "opens_inv (discardOpen i ?s2)"
    using waiters_leave(2)[OF wt of(3)] owr c by (simp add: opens_inv_def discardOpen_def)
  moreover have "ids_inv (discardOpen i ?s2)"
    unfolding discardOpen_def by (rule ids_inv_mono[of ?s2]) (use ids own_ids_delete(2)[of i ?s2] in simp_all)
  ultimately have i2: "sess_inv (discardOpen i ?s2)" using i1 by (simp add: sess_inv_def discardOpen_def life_inv_tables)
  consider "s' = s" | e where "s' = discardOpen i (notifyCancelled pb i (Some e) (finish_ref r (Some e) ?s1))"
    | e where "s' = discardOpen i (finish_ref r (Some e) ?s2)" | "s' = followStreamContext i r (discardOpen i ?s2)"
    using assms(3) by (auto simp: OpenStream_finish_def c Let_def split: option.splits sum.splits)
  then show ?thesis
  proof cases
    case 1
    then show ?thesis using assms(1) by simp
  next
    case (2 e)
    have "opener_waits (notifyCancelled pb i (Some e) (finish_ref r (Some e) ?s1)) = opener_waits ?s1"
      by (simp add: notifyCancelled_def Let_def opener_waits_def)
    then show ?thesis using 2 i1 gone by (auto intro!: discardOpen_inv)
  next
    case (3 e)
    have "discardOpen i (finish_ref r (Some e) ?s2) = finish_ref r (Some e) (discardOpen i ?s2)"
      by (simp add: discardOpen_def finish_ref_eq Let_def)
    then show ?thesis using 3 i2 by simp
  next
    case 4
    have "own_streams (discardOpen i ?s2) = own_streams s" "se_heap (discardOpen i ?s2) = se_heap s"
      by (simp_all add: discardOpen_def)
    then have "heap_ok s'" using 4 i2 of(1,2)
      by (auto simp: sess_inv_def heap_ok_def followStreamContext_def ownsStreamID_def)
    then show ?thesis using 4 i2 by (simp add: sess_inv_def followStreamContext_def)
  qed
qed

lemma follow_done_inv:
  assumes "sess_inv s" "(i, r) \<in> set (se_followers s)" "st_ctx (se_heap s ! r) \<noteq> None"
  shows "sess_inv (follow_done pb (i, r) s)"
proof -
  let ?s1 = "s\<lparr>se_followers := remove1 (i, r) (se_followers s)\<rparr>"
  have fr: "r \<in> own_streams s" "st_id (se_heap s ! r) = i" using assms(1,2) by (auto simp: sess_inv_def heap_ok_def)
  have "set (remove1 (i, r) (se_followers s)) \<subseteq> set (se_followers s)" by (rule set_remove1_subset)
  then have i1: "sess_inv ?s1" using assms(1) by (auto simp: sess_inv_def heap_ok_def ownsStreamID_def)
  have "sess_inv (discardStream i ?s1)"
  proof (rule discardStream_inv[OF i1])
    fix q assume q: "q \<in> own_streams ?s1" "st_id (se_heap ?s1 ! q) = i"
    show "st_ctx (se_heap ?s1 ! q) \<noteq> None"
    proof (cases "se_ended s")
      case True
      then show ?thesis using assms(1) q(1) by (auto simp: sess_inv_def reach_inv_def own_streams_def)
    next
      case False
      then have "inj_on (\<lambda>r. st_id (se_heap s ! r)) (own_streams s)" using assms(1) by (simp add: sess_inv_def ids_inv_def)
      then have "q = r" using q fr by (auto dest: inj_onD)
      then show ?thesis using assms(3) by simp
    qed
  qed
  then show ?thesis using i1 by (simp add: follow_done_def Let_def)
qed

subsection \<open>The users of a stream and the pump\<close>

lemma session_Recv_inv:
  assumes "sess_inv s" "session_Recv r s = (s', x)"
  shows "sess_inv s'"
proof -
  obtain st res where rv: "Recv (usable s) (se_heap s ! r) = (st, res)" by fastforce
  have e: "evolves (se_heap s ! r) st" using evolves_ops(1)[of "se_heap s ! r" "usable s"] rv by simp
  let ?s1 = "upd_stream r (\<lambda>_. st) s"
  have i1: "sess_inv ?s1" by (rule upd_stream_inv[OF assms(1)]) (rule e)
  have i2: "sess_inv (upd_stream r (\<lambda>_. st') ?s1)" if "deliver (se_limits ?s1) True p st = (st', d)" for p st' d
  proof (rule upd_stream_inv[OF i1])
    assume "r < length (se_heap ?s1)"
    then have "se_heap ?s1 ! r = st" by (simp add: upd_stream_def)
    then show "evolves (se_heap ?s1 ! r) st'" using evolves_ops(3)[of st "se_limits ?s1" True p] that by simp
  qed
  show ?thesis using assms(2) i1 i2
    by (auto simp: session_Recv_def rv Let_def split: reader_state.splits if_splits prod.splits deliver_result.splits)
qed

lemma session_Send_inv: "sess_inv s \<Longrightarrow> sess_inv (fst (session_Send pb r m s))"
proof -
  assume "sess_inv s"
  moreover have "fst (session_Send pb r m s) = upd_stream r (\<lambda>x. fst (Send pb (se_limits s) m x)) s"
    by (simp add: session_Send_def upd_stream_def split: prod.splits)
  ultimately show ?thesis by (simp add: upd_stream_inv)
qed

lemma writeFrame_heap: "writeFrame f s = (s', e) \<Longrightarrow> heap_ended_by (se_heap s) (se_heap s')"
proof -
  assume w: "writeFrame f s = (s', e)"
  show ?thesis
  proof (cases rule: writeFrame_cases[of f s])
    case (1 t)
    then show ?thesis using w by simp
  next
    case (2 t err)
    then show ?thesis using w session_end_heap[of "s\<lparr>se_transport := t\<rparr>" "Some err"] by simp
  qed
qed

lemma pump_wrote_fields:
  "st_id (pump_wrote i e s) = st_id s" "st_fromSession (pump_wrote i e s) = st_fromSession s" "st_ctx (pump_wrote i e s) = st_ctx s"
  by (simp_all add: pump_wrote_def)

lemma pump_inv:
  assumes "sess_inv s" "r < length (se_heap s)"
  shows "sess_inv (pump pick r s)"
proof -
  obtain st a where p: "pump_next pick (se_heap s ! r) = (st, a)" by fastforce
  have e: "evolves (se_heap s ! r) st" using evolves_ops(4)[of "se_heap s ! r" pick] p by simp
  let ?s1 = "upd_stream r (\<lambda>_. st) s"
  have i1: "sess_inv ?s1" by (rule upd_stream_inv[OF assms(1)]) (rule e)
  show ?thesis
  proof (cases a)
    case (PumpWrite item)
    define f where "f = (if oi_closeSend item then \<lparr>Frame_Type = FrameCloseSend, Frame_StreamID = st_id st, Frame_Payload = []\<rparr>
       else frameData (st_id st) (oi_body item))"
    obtain s2 err where w: "writeFrame f ?s1 = (s2, err)" by fastforce
    have i2: "sess_inv s2" by (rule writeFrame_sess_inv[OF i1 w])
    have sinv: "stream_inv (se_heap s ! r)" using assms by (auto simp: sess_inv_def heap_ok_def list_all_length)
    have se: "oi_closeSend item \<longrightarrow> st_sendEnd st \<notin> {NotCalled, Enqueueing}"
      using pump_next_write[OF p[unfolded PumpWrite] sinv] by (metis stream.select_convs(14) stream.update_convs(9) stream.surjective)
    have hb: "heap_ended_by (se_heap ?s1) (se_heap s2)"
      by (rule writeFrame_heap[OF w])
    have "ended_by st (se_heap s2 ! r)" using heap_ended_byD(2)[OF hb, of r] assms(2) by (simp add: upd_stream_def)
    then have "oi_closeSend item \<longrightarrow> st_sendEnd (se_heap s2 ! r) \<notin> {NotCalled, Enqueueing}" using se by (simp add: ended_by_def)
    then have ev: "evolves (se_heap s2 ! r) (pump_wrote item err (se_heap s2 ! r))"
      by (auto simp: evolves_def pump_wrote_fields intro: pump_wrote_inv)
    have "pump pick r s = upd_stream r (pump_wrote item err) s2"
      using w PumpWrite by (simp add: pump_def p f_def Let_def)
    then show ?thesis using upd_stream_inv[OF i2, of r "pump_wrote item err"] ev by simp
  qed (use i1 in \<open>simp_all add: pump_def p Let_def\<close>)
qed

lemma caller_cancel_inv: "sess_inv s \<Longrightarrow> sess_inv (caller_cancel r e s)"
  by (simp add: caller_cancel_def upd_stream_inv)

subsection \<open>Inbound requests\<close>

lemma openCall_inv: "sess_inv s \<Longrightarrow> sess_inv (openCall pb ops i body s)"
  by (auto simp: openCall_def trackInflight_def Let_def split: sum.splits prod.splits bool.splits)

lemma finish_call_inv: "sess_inv s \<Longrightarrow> sess_inv (finish_call pb ops t out s)"
  by (auto simp: finish_call_def call_reply_def releaseInflight_def Let_def split: prod.splits sum.splits)

lemma sess_inv_add_stream:
  assumes "sess_inv s"
  shows "sess_inv (s\<lparr>se_heap := se_heap s @ [newStream (se_limits s) (se_ctx s) i m]\<rparr>)"
    and "sess_inv (s\<lparr>se_heap := se_heap s @ [startPump (newStream (se_limits s) (se_ctx s) i m)]\<rparr>)"
proof -
  have *: "sess_inv (s\<lparr>se_heap := se_heap s @ [st]\<rparr>)"
    if st: "st_fromSession st" "stream_inv st" "st_ctx st = se_ctx s" for st
  proof -
    let ?s = "s\<lparr>se_heap := se_heap s @ [st]\<rparr>"
    have own: "own_streams ?s = own_streams s" using st(1) by (auto simp: own_streams_def nth_append less_Suc_eq)
    have hp: "q \<in> own_streams s \<Longrightarrow> se_heap ?s ! q = se_heap s ! q" for q by (simp add: own_streams_def nth_append)
    have oids: "own_ids ?s = own_ids s" unfolding own_ids_def own using hp by (auto simp: image_iff simp del: set_map)
    have inj: "inj_on (\<lambda>r. st_id (se_heap ?s ! r)) (own_streams s) = inj_on (\<lambda>r. st_id (se_heap s ! r)) (own_streams s)"
      by (rule inj_on_cong) (simp only: hp)
    have "ids_inv ?s" using assms unfolding sess_inv_def ids_inv_def own oids inj by (simp add: ownsStreamID_def)
    moreover have "heap_ok ?s" using assms st(2) hp unfolding sess_inv_def heap_ok_def own
      by (auto simp: ownsStreamID_def less_SucI)
    moreover have "reach_inv ?s"
      using assms st(1,3) unfolding sess_inv_def reach_inv_def life_inv_def by (auto simp: nth_append less_Suc_eq)
    ultimately show ?thesis using assms by (simp add: sess_inv_def)
  qed
  show "sess_inv (s\<lparr>se_heap := se_heap s @ [newStream (se_limits s) (se_ctx s) i m]\<rparr>)"
    by (rule *) (simp_all add: newStream_def newStreamWithin_def stream_inv_def)
  show "sess_inv (s\<lparr>se_heap := se_heap s @ [startPump (newStream (se_limits s) (se_ctx s) i m)]\<rparr>)"
    by (rule *) (simp_all add: newStream_def newStreamWithin_def startPump_def stream_inv_def)
qed

lemma openStream_accept_inv:
  assumes "sess_inv s" "\<not> ownsStreamID s i" "live < length (se_heap s)" "st_fromSession (se_heap s ! live)"
  shows "sess_inv (openStream_accept pb i live serve (s\<lparr>se_streams := map_set i live (se_streams s)\<rparr>))"
proof -
  let ?s = "s\<lparr>se_streams := map_set i live (se_streams s)\<rparr>"
  have vals: "set (map_vals (se_streams ?s)) \<subseteq> insert live (set (map_vals (se_streams s)))"
    by (simp add: set_update_vals del: set_map)
  have ok: "heap_ok ?s" using assms(1,3) vals unfolding sess_inv_def heap_ok_def
    by (force simp: ownsStreamID_def simp del: set_map)
  have fresh: "st_id (se_heap s ! q) \<noteq> i" if "q \<in> own_streams s" "st_ctx (se_heap s ! q) = None" for q
    using own_stream_owned[OF assms(1) that] assms(2) by auto
  have reach: "map_of (se_streams ?s) (st_id (se_heap s ! q)) = Some q"
    if "q < length (se_heap s)" "st_ctx (se_heap s ! q) = None" "\<not> st_fromSession (se_heap s ! q)" for q
    using that fresh[of q] assms(1) by (simp add: sess_inv_def reach_inv_def own_streams_def)
  have en: "endable ?s"
    by (rule endableI) (use sess_invD[OF assms(1)] ok reach in \<open>simp_all add: ownsStreamID_def\<close>)
  show ?thesis
  proof (cases "Marshal (pb_StreamAccepted pb) mkStreamAccepted")
    case (Inl err)
    have "discardStream i (?s\<lparr>se_streamGate := g\<rparr>) = (discardStream i s)\<lparr>se_streamGate := g\<rparr>" for g
      by (cases s) (simp add: discardStream_def delete_update_same)
    then show ?thesis using discardStream_foreign[OF assms(1,2)] by (simp add: openStream_accept_def Inl Let_def)
  next
    case (Inr ack)
    obtain s1 e where w: "writeFrame \<lparr>Frame_Type = FrameStreamOpenAck, Frame_StreamID = i, Frame_Payload = ack\<rparr> ?s = (s1, e)"
      by fastforce
    show ?thesis
    proof (cases e)
      case (Some err)
      have "sess_inv s1" "se_ended s1" using writeFrame_inv(1)[OF en w] Some by auto
      then show ?thesis using Some discardStream_ended[of "s1\<lparr>se_streamGate := session_release (se_streamGate s1)\<rparr>" i]
        by (simp add: openStream_accept_def Inr w)
    next
      case None
      obtain t where t: "s1 = ?s\<lparr>se_transport := t\<rparr>" "tr_closed t = tr_closed (se_transport s)" "\<not> tr_closed t"
        using writeFrame_inv(2)[OF en w None] by auto
      have al: "\<not> se_ended s" using assms(1) t by (auto simp: sess_inv_def life_inv_def)
      have "reach_inv ?s" using reach al by (simp add: reach_inv_def)
      then have "sess_inv ?s" using assms(1) ok al by (simp add: sess_inv_def life_inv_alive)
      then have i1: "sess_inv s1" using t by (simp add: sess_inv_transport)
      let ?k = "\<lparr>sk_id = i, sk_stream = live, sk_serve = serve, sk_phase = Serving\<rparr>"
      have "heap_ok (s1\<lparr>se_streamTasks := ?k # se_streamTasks s1\<rparr>)"
        using i1 assms(2,3) t by (auto simp: sess_inv_def heap_ok_def ownsStreamID_def)
      then show ?thesis using i1 None by (simp add: openStream_accept_def Inr w sess_inv_def)
    qed
  qed
qed

lemma openStream_inv:
  assumes "sess_inv s" "\<not> ownsStreamID s i"
  shows "sess_inv (openStream pb ops i body s)"
proof (cases rule: openStream_cases[of pb ops i body s])
  case (Refused f)
  then show ?thesis using assms(1) by simp
next
  case (Denied h e g m f)
  then show ?thesis using sess_inv_add_stream(1)[OF assms(1), of i m] by simp
next
  case (Accepted h g m serve)
  let ?st = "startPump (newStream (se_limits s) (se_ctx s) i m)"
  let ?s = "s\<lparr>se_streamGate := g, se_handler := h, se_heap := se_heap s @ [?st]\<rparr>"
  have "sess_inv (s\<lparr>se_streamGate := g, se_handler := h\<rparr>)" using assms(1) by simp
  from sess_inv_add_stream(2)[OF this, of i m] have i1: "sess_inv ?s" by simp
  have "openStream pb ops i body s = openStream_accept pb i (length (se_heap s)) serve
      (?s\<lparr>se_streams := map_set i (length (se_heap s)) (se_streams ?s)\<rparr>)"
    unfolding Accepted(2) by (rule arg_cong[of _ _ "openStream_accept pb i (length (se_heap s)) serve"]) (cases s, simp)
  then show ?thesis using openStream_accept_inv[OF i1, of i "length (se_heap s)" pb serve] assms(2)
    by (simp add: ownsStreamID_def nth_append startPump_def newStream_def newStreamWithin_def)
qed

lemma stream_tasks_inv:
  assumes "sess_inv s" "\<forall>k \<in> set ks. \<not> ownsStreamID s (sk_id k) \<and> sk_stream k < length (se_heap s)"
  shows "sess_inv (s\<lparr>se_streamTasks := ks\<rparr>)"
  using assms by (auto simp: sess_inv_def heap_ok_def ownsStreamID_def)

lemma stream_task_facts:
  assumes "sess_inv s" "k \<in> set (se_streamTasks s)"
  shows "\<not> ownsStreamID s (sk_id k)" "sk_stream k < length (se_heap s)"
    and "sess_inv (s\<lparr>se_streamTasks := remove1 k (se_streamTasks s)\<rparr>)"
    and "sess_inv (s\<lparr>se_streamTasks := k\<lparr>sk_phase := p\<rparr> # remove1 k (se_streamTasks s)\<rparr>)"
proof -
  have all: "\<forall>k \<in> set (se_streamTasks s). \<not> ownsStreamID s (sk_id k) \<and> sk_stream k < length (se_heap s)"
    using assms(1) by (simp add: sess_inv_def heap_ok_def)
  show "\<not> ownsStreamID s (sk_id k)" "sk_stream k < length (se_heap s)" using all assms(2) by auto
  have sub: "set (remove1 k (se_streamTasks s)) \<subseteq> set (se_streamTasks s)" by (rule set_remove1_subset)
  show "sess_inv (s\<lparr>se_streamTasks := remove1 k (se_streamTasks s)\<rparr>)"
    by (rule stream_tasks_inv[OF assms(1)]) (use all sub in blast)
  show "sess_inv (s\<lparr>se_streamTasks := k\<lparr>sk_phase := p\<rparr> # remove1 k (se_streamTasks s)\<rparr>)"
    by (rule stream_tasks_inv[OF assms(1)]) (use all assms(2) sub in auto)
qed

lemma stream_served_inv:
  assumes "sess_inv s" "k \<in> set (se_streamTasks s)"
  shows "sess_inv (stream_served ops k out s)"
proof -
  obtain h err where h: "op_ServeStream ops (se_handler s) (sk_serve k) out = (h, err)" by fastforce
  let ?s = "s\<lparr>se_handler := h\<rparr>"
  have i: "sess_inv ?s" and k: "k \<in> set (se_streamTasks ?s)" using assms by simp_all
  note f = stream_task_facts[OF i k]
  have "sess_inv (upd_stream (sk_stream k) g (?s\<lparr>se_streamTasks := k\<lparr>sk_phase := p\<rparr> # remove1 k (se_streamTasks s)\<rparr>))"
    if "\<And>x. evolves x (g x)" for g p
    using f(4)[of p] that by (intro upd_stream_inv) simp_all
  moreover have "(upd_stream (sk_stream k) g (?s\<lparr>se_streamTasks := remove1 k (se_streamTasks s)\<rparr>))\<lparr>se_streamTasks := ks\<rparr>
      = upd_stream (sk_stream k) g (?s\<lparr>se_streamTasks := ks\<rparr>)" for g ks
    by (simp add: upd_stream_def)
  ultimately show ?thesis using f(3) by (simp add: stream_served_def h Let_def)
qed

lemma stream_settle_inv:
  assumes "sess_inv s" "k \<in> set (se_streamTasks s)"
  shows "sess_inv (stream_settle pb k err s)"
proof -
  note f = stream_task_facts[OF assms]
  have "sess_inv (discardStream (sk_id k) (s\<lparr>se_streamTasks := remove1 k (se_streamTasks s)\<rparr>))"
    by (rule discardStream_foreign[OF f(3)]) (use f(1) in \<open>simp add: ownsStreamID_def\<close>)
  then show ?thesis by (simp add: stream_settle_def Let_def)
qed

lemma stream_closed_inv: "sess_inv s \<Longrightarrow> k \<in> set (se_streamTasks s) \<Longrightarrow> sess_inv (stream_closed pb k s)"
  by (simp add: stream_closed_def stream_settle_inv split: task_phase.splits progress.splits)

subsection \<open>The read loop and the prober\<close>

lemma delivery_failed_inv: "sess_inv s \<Longrightarrow> sess_inv (fst (delivery_failed pb r e s))"
  by (simp add: delivery_failed_def)

lemma serveFrame_inv:
  assumes "sess_inv s"
  shows "sess_inv (fst (serveFrame pb pick r f s))"
proof -
  have d: "sess_inv (upd_stream r (\<lambda>_. st) s)" if "deliver (se_limits s) pick p (se_heap s ! r) = (st, x)" for p st x
    using that evolves_ops(3)[of "se_heap s ! r" "se_limits s" pick p] by (intro upd_stream_inv[OF assms]) simp
  show ?thesis
    using assms by (auto simp: serveFrame_def delivery_failed_inv upd_stream_inv split: sum.splits prod.splits deliver_result.splits dest: d)
qed

text \<open>A terminal frame finishes the stream it removes from the table.\<close>

lemma serveFrame_end: "Frame_Type f = FrameStreamEnd \<Longrightarrow> \<exists>e. fst (serveFrame pb pick r f s) = finish_ref r e s"
  by (auto simp: serveFrame_def split: sum.splits)

lemma settleCall_inv:
  assumes "sess_inv s" "map_of (se_calls s) i = Some c"
  shows "sess_inv (fst (settleCall pb c f (s\<lparr>se_calls := map_delete i (se_calls s)\<rparr>)))"
  using settled_call_inv[OF assms] by (auto simp: settleCall_def split: sum.splits)

lemma settleOpen_inv:
  assumes "sess_inv s" "map_of (se_opens s) i = Some c"
  shows "sess_inv (fst (settleOpen pb c f (s\<lparr>se_opens := map_delete i (se_opens s)\<rparr>)))"
  using settled_open_inv[OF assms] by (auto simp: settleOpen_def split: sum.splits option.splits)

lemma dispatchScoped_inv:
  assumes "sess_inv s"
  shows "sess_inv (fst (dispatchScoped pb ops pick f s))"
proof -
  let ?i = "Frame_StreamID f"
  consider "?i = 0" | "Frame_Type f = FrameOpenCall" "?i \<noteq> 0" | "Frame_Type f = FrameOpenStream" "?i \<noteq> 0"
    | "?i \<noteq> 0" "Frame_Type f \<noteq> FrameOpenCall" "Frame_Type f \<noteq> FrameOpenStream" by blast
  then show ?thesis
  proof cases
    case 4
    show ?thesis
    proof (cases "map_of (se_calls s) ?i")
      case (Some c)
      then show ?thesis using 4 settleCall_inv[OF assms Some] by (simp add: dispatchScoped_def takeCall_def Let_def)
    next
      case None
      note nc = None
      show ?thesis
      proof (cases "map_of (se_opens s) ?i")
        case (Some c)
        then show ?thesis using 4 nc settleOpen_inv[OF assms Some] by (simp add: dispatchScoped_def takeCall_def takeOpen_def Let_def)
      next
        case None
        have e: "sess_inv (fst (serveFrame pb pick r f (s\<lparr>se_streams := map_delete ?i (se_streams s)\<rparr>)))"
          if "Frame_Type f = FrameStreamEnd" "map_of (se_streams s) ?i = Some r" for r
          using serveFrame_end[OF that(1)] finish_taken_inv[OF assms that(2)] unfolding discardStream_def by metis
        have ci: "sess_inv (fst (cancelInflight ?i s))"
          using assms by (simp add: cancelInflight_def split: option.splits)
        show ?thesis using 4 nc None assms e ci
          by (auto simp: dispatchScoped_def takeCall_def takeOpen_def takeStream_def findStream_def serveFrame_inv Let_def split: option.splits)
      qed
    qed
  qed (use assms openCall_inv openStream_inv in \<open>auto simp: dispatchScoped_def Let_def\<close>)
qed

lemma dispatch_inv:
  assumes "sess_inv s"
  shows "sess_inv (fst (dispatch pb ops now pick f s))"
proof -
  have "sess_inv (fst (answerPing pb now f s))"
    using assms by (auto simp: answerPing_def split: sum.splits prod.splits dest!: writeFrame_sess_inv[rotated])
  then show ?thesis using assms dispatchScoped_inv[OF assms] by (simp add: dispatch_def)
qed

lemma readLoop_continue_inv: "sess_inv (fst x) \<Longrightarrow> sess_inv (readLoop_continue x)"
  by (cases x; cases "snd x") (auto simp: readLoop_continue_def)

lemma readLoop_inv:
  assumes "sess_inv s"
  shows "sess_inv (readLoop_read s)" "sess_inv (readLoop_dispatch pb ops now pick s)" "sess_inv (readLoop_resume pb s)"
  using assms
  by (simp_all add: readLoop_read_def readLoop_dispatch_def readLoop_resume_def readLoop_continue_inv dispatch_inv delivery_failed_inv
      split: prod.splits sum.splits reader_state.splits option.splits)

lemma probeLoop_inv: "sess_inv s \<Longrightarrow> sess_inv (probeLoop pb pick now later s)"
  by (auto simp: probeLoop_def probe_def split: prod.splits sum.splits option.splits dest!: writeFrame_sess_inv[rotated])

lemma Close_inv: "sess_inv s \<Longrightarrow> sess_inv (Close s)"
  by (simp add: Close_def)

section \<open>Reachable states\<close>

lemma sess_inv_step: "sess_step pb ops s s' \<Longrightarrow> sess_inv s \<Longrightarrow> sess_inv s'"
proof (induction rule: sess_step.induct)
  case (step_send r s m s' e)
  then show ?case using session_Send_inv[of s pb r m] by simp
next
  case (step_progress r s f pick)
  then show ?case by (auto intro!: upd_stream_inv)
qed (auto intro: Call_send_inv Call_finish_inv OpenStream_send_inv OpenStream_finish_inv follow_done_inv Close_inv
      readLoop_inv probeLoop_inv finish_call_inv stream_served_inv stream_closed_inv session_Recv_inv pump_inv caller_cancel_inv)

lemma sess_inv_New:
  assumes "\<not> tr_closed transport"
  shows "sess_inv (New cfg transport source h now)"
  using assms
  by (simp add: New_def Start_def NewSession_def Let_def sess_inv_def sess_inv_defs waiters_inv_def parity_def)

lemma sess_inv_reachable: "(sess_step pb ops)\<^sup>*\<^sup>* s s' \<Longrightarrow> sess_inv s \<Longrightarrow> sess_inv s'"
  by (induction rule: rtranclp_induct) (auto intro: sess_inv_step)

end
