(* ===== verification/Session_Properties.thy ===== *)
theory Session_Properties
  imports Session_Steps
begin

text \<open>
  What the session engine promises, for every state its goroutines can reach: bounded
  concurrency, no blocked settlement, no reused stream ID, nobody left waiting after the end,
  and one meaning of a failure at both ends.
\<close>

definition reachable :: "proto \<Rightarrow> ('h, 'v, 'w) handler_ops \<Rightarrow> Config \<Rightarrow> ('h, 'v, 'w) Session \<Rightarrow> bool" where
  "reachable pb ops cfg s \<longleftrightarrow> (\<exists>transport source h now. \<not> tr_closed transport
     \<and> (sess_step pb ops)\<^sup>*\<^sup>* (New cfg transport source h now) s)"

lemma reachable_inv: "reachable pb ops cfg s \<Longrightarrow> sess_inv s"
  by (auto simp: reachable_def intro: sess_inv_reachable sess_inv_New)

lemma reachable_gates: "reachable pb ops cfg s \<Longrightarrow> gates_inv (WithDefaults (cfg_Limits cfg)) s"
  by (auto simp: reachable_def intro: gates_inv_reachable gates_inv_New)

lemma reachable_step: "reachable pb ops cfg s \<Longrightarrow> sess_step pb ops s s' \<Longrightarrow> reachable pb ops cfg s'"
  unfolding reachable_def by (meson rtranclp.rtrancl_into_rtrancl)

lemma reachable_New: "\<not> tr_closed transport \<Longrightarrow> reachable pb ops cfg (New cfg transport source h now)"
  by (auto simp: reachable_def)

lemma writeFrame_None:
  assumes "writeFrame f s = (s', None)"
  shows "Frame_StreamID f \<le> MaxStreamID \<and> \<not> tr_closed (se_transport s)"
proof -
  obtain t where "WriteFrame transport_write (NewWriter (MaxMessageBytes (se_limits s))) (se_transport s) f = (t, None)"
    using assms by (cases rule: writeFrame_cases[of f s]) auto
  from WriteFrame_id[OF this] WriteFrame_closed(2)[OF this]
  show ?thesis by auto
qed

section \<open>A connection that takes every write\<close>

definition accepting :: "transport \<Rightarrow> bool" where
  "accepting t \<longleftrightarrow> tr_script t = [] \<and> \<not> tr_closed t"

lemma writeAll_accepting:
  "accepting t \<Longrightarrow> writeAll transport_write t d = (t\<lparr>tr_accepted := tr_accepted t @ d\<rparr>, None)"
  by (cases d) (simp_all add: accepting_def writeAll.simps transport_write_def)

lemma writeFrame_accepting:
  assumes "accepting (se_transport s)" "frame_fits (MaxMessageBytes (se_limits s)) f" "0 < MaxMessageBytes (se_limits s)"
  shows "writeFrame f s = (s\<lparr>se_transport := (se_transport s)\<lparr>tr_accepted := tr_accepted (se_transport s) @ frame_encode f\<rparr>\<rparr>, None)"
proof -
  have "accepting ((se_transport s)\<lparr>tr_accepted := x\<rparr>)" for x using assms(1) by (simp add: accepting_def)
  then have "WriteFrame transport_write (NewWriter (MaxMessageBytes (se_limits s))) (se_transport s) f
      = ((se_transport s)\<lparr>tr_accepted := tr_accepted (se_transport s) @ frame_encode f\<rparr>, None)"
    using assms by (auto simp: WriteFrame_def NewWriter_def frame_fits_def writeAll_accepting frame_encode_def)
  then show ?thesis by (simp add: writeFrame_def)
qed

text \<open>A concrete session for the witnesses: a handler that serves every method, and one waiting caller.\<close>

definition open_ops :: "(unit, unit, unit) handler_ops" where
  "open_ops = \<lparr>op_PrepareCall = (\<lambda>h _ _ _. (h, Inr ())), op_ServeCall = (\<lambda>h _ out. (h, case out of Returned r \<Rightarrow> Inr r | Failed e \<Rightarrow> Inl e | Panicked \<Rightarrow> Inl (Sentinel ErrInternal))),
     op_PrepareStream = (\<lambda>h _ _. (h, Inr ())), op_ServeStream = (\<lambda>h _ _. (h, None))\<rparr>"

definition sample_cfg :: Config where
  "sample_cfg = \<lparr>cfg_Local = \<lparr>URI = ''spiffe://a''\<rparr>, cfg_Remote = \<lparr>URI = ''spiffe://b''\<rparr>, cfg_Role = RoleClient,
     cfg_Limits = DefaultLimits, cfg_KeepAlive = 0\<rparr>"

definition wire_transport :: transport where
  "wire_transport = \<lparr>tr_accepted = [], tr_script = [], tr_closed = False\<rparr>"

definition sample_session :: "(unit, unit, unit) Session" where
  "sample_session = New sample_cfg wire_transport \<lparr>src_bytes = [], src_end = Sentinel IoEOF\<rparr> () 0"

lemma sample_reachable: "reachable sample_proto open_ops sample_cfg sample_session"
  unfolding sample_session_def by (rule reachable_New) (simp add: wire_transport_def)

lemmas session_eval = sample_session_def sample_cfg_def wire_transport_def New_def Start_def NewSession_def Let_def parity_def
  WithDefaults_def DefaultLimits_def make_gate_def

text \<open>The same session with one call under way, and after its end.\<close>

definition calling_session :: "(unit, unit, unit) Session" where
  "calling_session = fst (Call_send [7] sample_session)"

lemma calling_session_eq:
  "Call_send [7] sample_session = (calling_session, Inr (1, 0))"
  "se_callers calling_session = [(1, 0)]" "se_calls calling_session = [(1, 0)]" "se_callChans calling_session = [[]]"
  "se_heap calling_session = []" "se_ended calling_session = False" "se_closeOnce calling_session = False"
proof -
  have f: "frame_fits 4194304 \<lparr>Frame_Type = FrameOpenCall, Frame_StreamID = 1, Frame_Payload = [7]\<rparr>"
    by (simp add: frame_fits_def frame_validate_def scoped_def)
  have *: "Call_send [7] sample_session = (sample_session\<lparr>se_callChans := [[]], se_nextStreamID := 3, se_calls := [(1, 0)],
      se_transport := wire_transport\<lparr>tr_accepted := frame_encode \<lparr>Frame_Type = FrameOpenCall, Frame_StreamID = 1, Frame_Payload = [7]\<rparr>\<rparr>,
      se_callers := [(1, 0)]\<rparr>, Inr (1, 0))"
    using f by (simp add: Call_send_def allocateStreamID_def registerCall_def Let_def writeFrame_accepting accepting_def session_eval)
  show "Call_send [7] sample_session = (calling_session, Inr (1, 0))"
    "se_callers calling_session = [(1, 0)]" "se_calls calling_session = [(1, 0)]" "se_callChans calling_session = [[]]"
    "se_heap calling_session = []" "se_ended calling_session = False" "se_closeOnce calling_session = False"
    unfolding calling_session_def * by (simp_all add: session_eval)
qed

lemma calling_reachable: "reachable sample_proto open_ops sample_cfg calling_session"
  by (rule reachable_step[OF sample_reachable step_call_send]) (rule calling_session_eq)

lemma closed_reachable: "reachable sample_proto open_ops sample_cfg (Close calling_session)"
  by (rule reachable_step[OF calling_reachable step_close])

section \<open>Properties\<close>

text \<open>
  C13. A connection never serves more inbound calls and streams at once than its limits
  allow, under every interleaving; and with MaxConcurrentCalls calls running a further
  well-formed request is answered with StatusOverloaded without reaching the handler.
\<close>

theorem session_budget:
  assumes "reachable pb ops cfg s"
  shows "int (length (se_callTasks s)) \<le> MaxConcurrentCalls (WithDefaults (cfg_Limits cfg))
    \<and> int (length (se_streamTasks s)) \<le> MaxConcurrentStreams (WithDefaults (cfg_Limits cfg))
    \<and> (int (length (se_callTasks s)) = MaxConcurrentCalls (WithDefaults (cfg_Limits cfg)) \<longrightarrow>
        Unmarshal (pb_CallRequest pb) CallRequest_unknownFields body = Inr request \<longrightarrow> CallRequest_Method request \<noteq> [] \<longrightarrow>
          openCall pb ops i body s = sendFrame (endFrame pb i StatusOverloaded) s)
    \<and> (int (length (se_streamTasks s)) = MaxConcurrentStreams (WithDefaults (cfg_Limits cfg)) \<longrightarrow>
        Unmarshal (pb_OpenStream pb) OpenStream_unknownFields body' = Inr request' \<longrightarrow> OpenStream_Method request' \<noteq> [] \<longrightarrow>
          openStream pb ops i body' s = sendFrame (endFrame pb i StatusOverloaded) s)"
proof -
  have lim: "0 < MaxConcurrentCalls (WithDefaults (cfg_Limits cfg))" "0 < MaxConcurrentStreams (WithDefaults (cfg_Limits cfg))"
    using WithDefaults_effective[of "cfg_Limits cfg"] by (auto simp: limits_effective_def)
  have g: "gates_inv (WithDefaults (cfg_Limits cfg)) s" by (rule reachable_gates[OF assms])
  have full: "session_acquire (se_callGate s) = (se_callGate s, False)"
    if "int (length (se_callTasks s)) = MaxConcurrentCalls (WithDefaults (cfg_Limits cfg))"
    using g that by (auto simp: gates_inv_def session_acquire_def gate_try_send_def)
  have full': "session_acquire (se_streamGate s) = (se_streamGate s, False)"
    if "int (length (se_streamTasks s)) = MaxConcurrentStreams (WithDefaults (cfg_Limits cfg))"
    using g that by (auto simp: gates_inv_def session_acquire_def gate_try_send_def)
  show ?thesis using g lim full full' by (auto simp: gates_inv_def openCall_def openStream_def)
qed

theorem session_budget_witness: "int (length (se_callTasks sample_session)) \<le> 64"
  using session_budget[OF sample_reachable, of "[]" undefined 0 "[]" undefined] by (simp add: session_eval)

text \<open>
  C14. Settling never blocks and never loses an outcome: the channel of a registered call or
  stream request is empty when its only outcome is sent, no channel ever holds more than the
  one value it has room for, and a caller that waits is either still registered or its
  outcome is there.
\<close>

theorem settle_never_blocks:
  assumes "reachable pb ops cfg s"
  shows "(map_get (se_calls s) i = Some c \<longrightarrow> c < length (se_callChans s) \<and> se_callChans s ! c = [])
    \<and> (map_get (se_opens s) i = Some c \<longrightarrow> c < length (se_openChans s) \<and> se_openChans s ! c = [])
    \<and> (c < length (se_callChans s) \<longrightarrow> length (se_callChans s ! c) \<le> 1)
    \<and> (c < length (se_openChans s) \<longrightarrow> length (se_openChans s ! c) \<le> 1)
    \<and> ((i, c) \<in> set (se_callers s) \<longrightarrow> map_get (se_calls s) i = Some c \<or> se_callChans s ! c \<noteq> [])
    \<and> ((i, c, r) \<in> set (se_openers s) \<longrightarrow> map_get (se_opens s) i = Some c \<or> se_openChans s ! c \<noteq> [])"
proof -
  have inv: "sess_inv s" by (rule reachable_inv[OF assms])
  have c: "waiters_inv (se_calls s) (se_callChans s) (se_callers s)" and o: "waiters_inv (se_opens s) (se_openChans s) (opener_waits s)"
    using inv by (simp_all add: sess_inv_def calls_inv_def opens_inv_def)
  show ?thesis
    using waiters_invD(3)[OF c map_of_val] waiters_invD(3)[OF o map_of_val] waiters_invD(4)[OF c] waiters_invD(4)[OF o]
      waiters_invD(7)[OF c, of i c] waiters_invD(7)[OF o, of i c] opener_facts(3)[OF inv, of i c r]
    by auto
qed

theorem settle_never_blocks_witness:
  "map_get (se_calls calling_session) 1 = Some 0 \<and> se_callChans calling_session ! 0 = []"
  using settle_never_blocks[OF calling_reachable, of 1 0 0] by (simp add: calling_session_eq)

text \<open>
  C15. A stream ID is never handed out twice while it is in use, and never wraps around: an
  ID a call or a stream gets is from this endpoint's half, within the 63-bit space, and
  differs from every ID of a pending call, a pending stream request, a waiting caller and a
  stream this endpoint opened.
\<close>

theorem stream_ids_unique:
  assumes "reachable pb ops cfg s"
  shows "(Call_send body s = (s', Inr (i, c)) \<longrightarrow> i \<le> MaxStreamID \<and> ownsStreamID s i \<and> i \<notin> own_ids s)
    \<and> (OpenStream_send m body ctx_err s = (s'', Inr (j, d, r)) \<longrightarrow> j \<le> MaxStreamID \<and> ownsStreamID s j \<and> j \<notin> own_ids s)"
proof -
  have inv: "sess_inv s" by (rule reachable_inv[OF assms])
  have owns: "ownsStreamID s (se_nextStreamID s)" by (rule sess_invD(4)[OF inv])
  have fresh: "\<not> tr_closed (se_transport s) \<Longrightarrow> se_nextStreamID s \<notin> own_ids s"
    using fresh_id(6)[OF inv] inv unfolding sess_inv_def life_inv_def by blast
  have "i = se_nextStreamID s \<and> i \<le> MaxStreamID \<and> \<not> tr_closed (se_transport s)" if "Call_send body s = (s', Inr (i, c))"
    using that by (auto simp: Call_send_def allocateStreamID_def registerCall_def Let_def split: prod.splits option.splits dest!: writeFrame_None)
  moreover have "j = se_nextStreamID s \<and> j \<le> MaxStreamID \<and> \<not> tr_closed (se_transport s)"
    if "OpenStream_send m body ctx_err s = (s'', Inr (j, d, r))"
    using that by (auto simp: OpenStream_send_def allocateStreamID_def registerStream_def registerOpen_def upd_stream_def Let_def
        split: prod.splits option.splits dest!: writeFrame_None)
  ultimately show ?thesis using owns fresh by auto
qed

theorem stream_ids_unique_witness: "ownsStreamID sample_session 1 \<and> 1 \<notin> own_ids sample_session"
  using stream_ids_unique[OF sample_reachable, of "[7]" calling_session 1 0 "[]" None undefined 0 0 0] calling_session_eq(1) by simp

text \<open>
  C7. Nobody is left waiting. Once a session has ended, whatever ended it and in whatever
  state it was, every waiting call and every waiting stream request completes with an error,
  and every stream of the session, registered or not, has a context that is done: no Recv on
  it waits.
\<close>

theorem ended_releases_everyone:
  assumes "reachable pb ops cfg s" and "se_ended s"
  shows "((i, c) \<in> set (se_callers s) \<longrightarrow> snd (Call_finish pb pick None (i, c) s) \<noteq> None)
    \<and> ((i, c, r) \<in> set (se_openers s) \<longrightarrow> snd (OpenStream_finish pb pick None (i, c, r) s) \<noteq> None)
    \<and> (q < length (se_heap s) \<longrightarrow> st_ctx (se_heap s ! q) \<noteq> None \<and> snd (session_Recv q s) \<noteq> RecvParked)
    \<and> (\<exists>err. usable s = Some err)"
proof -
  have inv: "sess_inv s" by (rule reachable_inv[OF assms(1)])
  have "st_ctx (se_heap s ! q) \<noteq> None" if "q < length (se_heap s)"
    using inv assms(2) that by (auto simp: sess_inv_def reach_inv_def)
  moreover have "snd (session_Recv q s) \<noteq> RecvParked" if "st_ctx (se_heap s ! q) \<noteq> None"
    using that
    by (auto simp: session_Recv_def Recv_def received_def Let_def split: prod.splits list.splits reader_state.splits deliver_result.splits if_splits)
  moreover have "snd (Call_finish pb pick None (i, c) s) \<noteq> None" if "(i, c) \<in> set (se_callers s)"
    using waiting_settled(1)[OF inv assms(2) that]
    by (cases "se_callChans s ! c") (simp_all add: Call_finish_def await_def Let_def)
  moreover have "snd (OpenStream_finish pb pick None (i, c, r) s) \<noteq> None" if "(i, c, r) \<in> set (se_openers s)"
    using waiting_settled(2)[OF inv assms(2) opener_facts(3)[OF inv that]]
    by (cases "se_openChans s ! c") (simp_all add: OpenStream_finish_def await_def Let_def split: option.splits)
  moreover have "\<exists>err. usable s = Some err" using sess_invD(1)[OF inv] assms(2) by (auto simp: usable_def)
  ultimately show ?thesis by blast
qed

theorem ended_releases_everyone_witness:
  "snd (Call_finish sample_proto True None (1, 0) (Close calling_session)) \<noteq> None"
proof -
  have "se_ended (Close calling_session)" "se_callers (Close calling_session) = [(1, 0)]"
    using calling_session_eq by (simp_all add: Close_def)
  then show ?thesis using ended_releases_everyone[OF closed_reachable, of 1 0 True 0 0] by simp
qed


end
