(* ===== verification/Session_Tasks.thy ===== *)
theory Session_Tasks
  imports Session_Properties
begin

text \<open>
  What the goroutines of a session wait for: an invariant of every reachable state, shown by
  following how each operation may change the streams and the read loop.
\<close>

section \<open>What the goroutines wait for\<close>

text \<open>
  A read loop that is parked in a delivery waits for a stream whose context is alive, and a stream
  goroutine that waits for a close or a flush has asked for it.
\<close>

definition awake :: "stream list \<Rightarrow> reader_state \<Rightarrow> bool" where
  "awake h rd = (case rd of Parked r p \<Rightarrow> r < length h \<and> st_ctx (h ! r) = None | _ \<Rightarrow> True)"

definition asked :: "task_phase \<Rightarrow> stream \<Rightarrow> bool" where
  "asked p st = (case p of Serving \<Rightarrow> True | ClosingSend e \<Rightarrow> st_sendEnd st \<noteq> NotCalled | Flushing e \<Rightarrow> st_flush st \<noteq> NotCalled)"

definition tasks_inv :: "('h, 'v, 'w) Session \<Rightarrow> bool" where
  "tasks_inv s \<longleftrightarrow> awake (se_heap s) (se_reader s)
     \<and> (\<forall>k \<in> set (se_streamTasks s). sk_stream k < length (se_heap s) \<and> asked (sk_phase k) (se_heap s ! sk_stream k))"

text \<open>
  How a step may change the streams and the read loop: streams are added, a request that was made stays
  made, an ended session stays ended, and the read loop is not left waiting for a dead stream.
\<close>

definition stream_adv :: "stream \<Rightarrow> stream \<Rightarrow> bool" where
  "stream_adv a b \<longleftrightarrow> (st_sendEnd a \<noteq> NotCalled \<longrightarrow> st_sendEnd b \<noteq> NotCalled) \<and> (st_flush a \<noteq> NotCalled \<longrightarrow> st_flush b \<noteq> NotCalled)"

definition adv :: "stream list \<times> reader_state \<times> bool \<Rightarrow> stream list \<times> reader_state \<times> bool \<Rightarrow> bool" where
  "adv x y = (case (x, y) of ((h, rd, en), (h', rd', en')) \<Rightarrow>
     length h \<le> length h' \<and> (\<forall>r < length h. stream_adv (h ! r) (h' ! r)) \<and> (awake h rd \<longrightarrow> awake h' rd') \<and> (en \<longrightarrow> en'))"

definition look :: "('h, 'v, 'w) Session \<Rightarrow> stream list \<times> reader_state \<times> bool" where
  "look s = (se_heap s, se_reader s, se_ended s)"

lemma look_updates [simp]:
  "look (s\<lparr>se_callChans := x1\<rparr>) = look s" "look (s\<lparr>se_openChans := x2\<rparr>) = look s" "look (s\<lparr>se_callers := x3\<rparr>) = look s"
  "look (s\<lparr>se_openers := x4\<rparr>) = look s" "look (s\<lparr>se_followers := x5\<rparr>) = look s" "look (s\<lparr>se_callTasks := x6\<rparr>) = look s"
  "look (s\<lparr>se_streamTasks := x7\<rparr>) = look s" "look (s\<lparr>se_probing := x8\<rparr>) = look s" "look (s\<lparr>se_lastPong := x9\<rparr>) = look s"
  "look (s\<lparr>se_source := y1\<rparr>) = look s" "look (s\<lparr>se_closeOnce := y2\<rparr>) = look s" "look (s\<lparr>se_handler := y3\<rparr>) = look s"
  "look (s\<lparr>se_callCtxs := y4\<rparr>) = look s" "look (s\<lparr>se_transport := y5\<rparr>) = look s" "look (s\<lparr>se_nextStreamID := y6\<rparr>) = look s"
  "look (s\<lparr>se_streams := y7\<rparr>) = look s" "look (s\<lparr>se_calls := y7\<rparr>) = look s" "look (s\<lparr>se_opens := y8\<rparr>) = look s"
  "look (s\<lparr>se_inflight := y9\<rparr>) = look s" "look (s\<lparr>se_callGate := z1\<rparr>) = look s" "look (s\<lparr>se_streamGate := z2\<rparr>) = look s"
  by (simp_all add: look_def)

lemma look_prims [simp]:
  "look (cancel_call k s) = look s" "look (send_outcome k v s) = look s" "look (send_accepted k a s) = look s"
  "look (discardCall i s) = look s" "look (discardOpen i s) = look s" "look (discardStream i s) = look s"
  "look (registerCall i k s) = look s" "look (registerOpen i k s) = look s" "look (registerStream i k s) = look s"
  "look (trackInflight i k s) = look s" "look (releaseInflight i s) = look s"
  by (simp_all add: cancel_call_def send_outcome_def send_accepted_def discardCall_def discardOpen_def discardStream_def
      registerCall_def registerOpen_def registerStream_def trackInflight_def releaseInflight_def)

lemma nth_upd: "k < length h \<Longrightarrow> h[r := x] ! k = (if r = k then x else h ! k)"
  by (cases "r = k") auto

lemma adv_refl [simp]: "adv x x"
  by (cases x) (simp add: adv_def stream_adv_def)

lemma adv_trans: "adv x y \<Longrightarrow> adv y z \<Longrightarrow> adv x z"
  by (cases x; cases y; cases z) (fastforce simp: adv_def stream_adv_def)

lemma adv_reader: "(\<And>r p. rd' \<noteq> Parked r p) \<Longrightarrow> adv (h, rd, en) (h, rd', en)"
  by (cases rd') (auto simp: adv_def stream_adv_def awake_def)

lemma adv_append: "adv (h, rd, en) (h @ [x], rd, en)"
  by (auto simp: adv_def stream_adv_def awake_def nth_append split: reader_state.splits)

lemma adv_update:
  "stream_adv (h ! r) x \<Longrightarrow> st_ctx (h ! r) = None \<longrightarrow> st_ctx x = None \<Longrightarrow> adv (h, rd, en) (h[r := x], rd, en)"
  by (simp add: adv_def stream_adv_def awake_def nth_upd split: reader_state.split)

lemma awake_woken: "awake h rd \<Longrightarrow> length h \<le> length h' \<Longrightarrow> awake h' (woken h' rd)"
  by (auto simp: awake_def woken_def split: reader_state.splits option.splits)

lemma adv_woken: "length h' = length h \<Longrightarrow> \<forall>r < length h. stream_adv (h ! r) (h' ! r) \<Longrightarrow> adv (h, rd, en) (h', woken h' rd, en)"
  by (simp add: adv_def awake_woken)

lemma stream_adv_end [simp]: "stream_adv a a" "stream_adv a (finishStream e a)" "stream_adv a (stream_cancel x a)"
  by (simp_all add: stream_adv_def finishStream_def closeInboundFinal_def stream_cancel_def Let_def)

lemma adv_finish: "adv (h, rd, en) (h[r := finishStream e (h ! r)], woken (h[r := finishStream e (h ! r)]) rd, en)"
  by (rule adv_woken) (auto simp: nth_upd)

lemma adv_finish_ref [intro]: "adv (look s) (look (finish_ref r e s))"
  using adv_finish by (simp add: look_def finish_ref_eq Let_def)

lemma adv_finish_all: "adv (fst x, snd x, en) (fst (finish_all e rs x), snd (finish_all e rs x), en)"
proof (induction rs arbitrary: x)
  case (Cons r rs)
  let ?h = "(fst x)[r := finishStream e (fst x ! r)]"
  have "finish_all e (r # rs) x = finish_all e rs (?h, woken ?h (snd x))"
    by (simp add: finish_all_def case_prod_beta Let_def)
  then show ?case using adv_trans[OF adv_finish Cons.IH[of "(?h, woken ?h (snd x))", simplified]] by simp
qed (simp add: finish_all_def)

lemma adv_ended: "adv (h, rd, en) (h, rd, True)"
  by (simp add: adv_def stream_adv_def)

lemma adv_session_end [intro]: "adv (look s) (look (session_end c s))"
proof -
  let ?h = "cancel_heap (se_heap s)"
  have "adv (se_heap s, se_reader s, se_ended s) (?h, woken ?h (se_reader s), se_ended s)"
    by (rule adv_woken) (simp_all add: cancel_heap_def)
  then have "adv (look s) (?h, woken ?h (se_reader s), True)" unfolding look_def using adv_ended adv_trans by blast
  then show ?thesis
    using adv_trans[OF _ adv_finish_all[of "(?h, woken ?h (se_reader s))" True "if err_is c IoEOF then None else c" "map_vals (se_streams s)"]]
    by (simp add: session_end_eq end_streams_def look_def)
qed

lemma adv_writeFrame: "writeFrame f s = (s', e) \<Longrightarrow> adv (look s) (look s')"
  using adv_session_end[of "s\<lparr>se_transport := t\<rparr>" for t] by (cases rule: writeFrame_cases[of f s]) auto

lemma adv_sendFrame [intro]: "adv (look s) (look (sendFrame f s))"
  using adv_writeFrame[of f s] by (cases "writeFrame f s") (simp add: sendFrame_def)

lemma adv_then [intro]:
  "adv x (look s) \<Longrightarrow> adv x (look (sendFrame f s))" "adv x (look s) \<Longrightarrow> adv x (look (finish_ref r e s))"
  "adv x (look s) \<Longrightarrow> adv x (look (session_end c s))" "adv x (look s) \<Longrightarrow> adv x (look (notifyCancelled pb i err s))"
  by (rule adv_trans, assumption, auto simp: notifyCancelled_def Let_def)+

lemma adv_reader_set [intro]: "adv x (look s) \<Longrightarrow> (\<And>r p. rd \<noteq> Parked r p) \<Longrightarrow> adv x (look (s\<lparr>se_reader := rd\<rparr>))"
  by (rule adv_trans, assumption) (simp add: look_def adv_reader)

lemma adv_heap_append [intro]: "adv x (look s) \<Longrightarrow> adv x (look (s\<lparr>se_heap := se_heap s @ [st]\<rparr>))"
  by (rule adv_trans, assumption) (simp add: look_def adv_append)

lemma adv_upd_stream [intro]:
  "adv x (look s) \<Longrightarrow> stream_adv (se_heap s ! r) (f (se_heap s ! r)) \<Longrightarrow> (st_ctx (se_heap s ! r) = None \<longrightarrow> st_ctx (f (se_heap s ! r)) = None) \<Longrightarrow>
   adv x (look (upd_stream r f s))"
  by (rule adv_trans, assumption) (simp add: look_def upd_stream_def adv_update)


subsection \<open>Every operation\<close>

lemma stream_adv_ops [simp]:
  "stream_adv a (fst (Recv u a))" "stream_adv a (fst (Send pb l m a))" "stream_adv a (fst (deliver l p d a))"
  "stream_adv a (fst (pump_next p a))" "stream_adv a (pump_wrote x e a)" "stream_adv a (CloseSend_begin a)" "stream_adv a (CloseSend_enqueue p a)"
  "stream_adv a (CloseSend_await p a)" "stream_adv a (flushOutbound_begin a)" "stream_adv a (flushOutbound_enqueue p a)"
  "stream_adv a (flushOutbound_await p a)" "stream_adv a (closeInboundHalf a)" "stream_adv a (startPump a)"
  by (auto simp: stream_adv_def Recv_def settleCancelled_def Send_def deliver_def pump_next_def pump_wrote_def CloseSend_begin_def
      CloseSend_enqueue_def CloseSend_await_def flushOutbound_begin_def flushOutbound_enqueue_def flushOutbound_await_def closeInboundHalf_def
      startPump_def finishStream_def closeInboundFinal_def stream_cancel_def Let_def
      split: list.splits option.splits sum.splits if_splits)

lemma ctx_ops [simp]:
  "st_ctx (fst (Recv u a)) = st_ctx a" "st_ctx (fst (Send pb l m a)) = st_ctx a" "st_ctx (fst (deliver l p d a)) = st_ctx a"
  "st_ctx (fst (pump_next p a)) = st_ctx a" "st_ctx (pump_wrote x e a) = st_ctx a" "st_ctx (CloseSend_begin a) = st_ctx a"
  "st_ctx (CloseSend_enqueue p a) = st_ctx a" "st_ctx (CloseSend_await p a) = st_ctx a" "st_ctx (flushOutbound_begin a) = st_ctx a"
  "st_ctx (flushOutbound_enqueue p a) = st_ctx a" "st_ctx (flushOutbound_await p a) = st_ctx a" "st_ctx (closeInboundHalf a) = st_ctx a"
  "st_ctx (startPump a) = st_ctx a"
  by (auto simp: Recv_def settleCancelled_def Send_def deliver_def pump_next_def pump_wrote_def CloseSend_begin_def
      CloseSend_enqueue_def CloseSend_await_def flushOutbound_begin_def flushOutbound_enqueue_def flushOutbound_await_def closeInboundHalf_def
      startPump_def finishStream_def closeInboundFinal_def stream_cancel_def Let_def
      split: list.splits option.splits sum.splits if_splits)

lemma adv_Call_send: "Call_send body s = (s', r) \<Longrightarrow> adv (look s) (look s')"
  by (auto simp: Call_send_def allocateStreamID_def Let_def split: prod.splits option.splits dest!: adv_writeFrame)

lemma adv_Call_finish: "Call_finish pb pick ctx_err c s = (s', r) \<Longrightarrow> adv (look s) (look s')"
  by (auto simp: Call_finish_def Let_def split: prod.splits option.splits sum.splits intro!: adv_then)

lemma adv_OpenStream_send: "OpenStream_send m body ctx_err s = (s', r) \<Longrightarrow> adv (look s) (look s')"
proof -
  assume o: "OpenStream_send m body ctx_err s = (s', r)"
  define s6 where "s6 = upd_stream (length (se_heap s)) startPump (registerOpen (se_nextStreamID s) (length (se_openChans s))
    (registerStream (se_nextStreamID s) (length (se_heap s)) (s\<lparr>se_openChans := se_openChans s @ [[]], se_nextStreamID := se_nextStreamID s + 2,
       se_heap := se_heap s @ [newStreamWithin (se_limits s) (se_nextStreamID s) m False ctx_err]\<rparr>)))"
  have "adv (look s) (look s6)"
    unfolding s6_def by (rule adv_upd_stream) (simp_all add: look_def adv_append registerOpen_def registerStream_def)
  moreover obtain s7 e where w: "writeFrame \<lparr>Frame_Type = FrameOpenStream, Frame_StreamID = se_nextStreamID s, Frame_Payload = body\<rparr> s6 = (s7, e)"
    by fastforce
  ultimately have "adv (look s) (look s7)" using adv_writeFrame adv_trans by blast
  then show ?thesis
    using o by (cases e) (auto simp: OpenStream_send_def allocateStreamID_def s6_def[symmetric] w Let_def intro!: adv_then)
qed

lemma adv_OpenStream_finish: "OpenStream_finish pb pick ctx_err c s = (s', r) \<Longrightarrow> adv (look s) (look s')"
  by (auto simp: OpenStream_finish_def followStreamContext_def Let_def split: prod.splits option.splits sum.splits intro!: adv_then)

lemma adv_consumer:
  "adv (look s) (look (follow_done pb c s))" "adv (look s) (look (Close s))" "adv (look s) (look (readLoop_read s))"
  by (auto simp: follow_done_def Close_def readLoop_read_def Let_def split: prod.splits sum.splits intro!: adv_then adv_reader_set)

lemma adv_caller_cancel: "adv (look s) (look (caller_cancel r x s))"
  unfolding caller_cancel_def wake_reader_def upd_stream_def look_def
  by (simp, rule adv_woken) (simp_all add: nth_upd)

lemma adv_upd_to:
  "stream_adv (se_heap s ! r) st \<Longrightarrow> st_ctx st = st_ctx (se_heap s ! r) \<Longrightarrow> adv (look s) (look (upd_stream r (\<lambda>_. st) s))"
  by (rule adv_upd_stream) simp_all

lemma adv_session_Send: "session_Send pb r m s = (s', e) \<Longrightarrow> adv (look s) (look s')"
proof -
  assume "session_Send pb r m s = (s', e)"
  then have "s' = upd_stream r (\<lambda>_. fst (Send pb (se_limits s) m (se_heap s ! r))) s" by (simp add: session_Send_def split: prod.splits)
  then show ?thesis by (simp add: adv_upd_to)
qed

lemma adv_session_Recv: "session_Recv r s = (s', x) \<Longrightarrow> adv (look s) (look s')"
proof -
  assume r: "session_Recv r s = (s', x)"
  obtain st res where st: "Recv (usable s) (se_heap s ! r) = (st, res)" by fastforce
  let ?s1 = "upd_stream r (\<lambda>_. st) s"
  have s1: "adv (look s) (look ?s1)"
    using stream_adv_ops(1)[of "se_heap s ! r" "usable s"] ctx_ops(1)[of "usable s" "se_heap s ! r"] by (intro adv_upd_to) (simp_all add: st)
  show ?thesis
  proof (cases "\<exists>p. se_reader s = Parked r p")
    case False
    then have "s' = ?s1" using r by (cases "se_reader s") (auto simp: session_Recv_def st upd_stream_def Let_def)
    then show ?thesis using s1 by simp
  next
    case True
    then obtain p where p: "se_reader s = Parked r p" by blast
    obtain st' y where d: "deliver (se_limits s) True p st = (st', y)" by fastforce
    have w: "adv (look ?s1) (look (wake_reader ?s1))" unfolding wake_reader_def look_def by (simp, rule adv_woken) simp_all
    show ?thesis
    proof (cases "y = Delivered")
      case True
      have "adv (look ?s1) (look (upd_stream r (\<lambda>_. st') ?s1))"
      proof (cases "r < length (se_heap s)")
        case True
        then show ?thesis
          using stream_adv_ops(3)[of st "se_limits s" True p] ctx_ops(3)[of "se_limits s" True p st]
          by (intro adv_upd_to) (simp_all add: d upd_stream_def)
      qed (simp add: upd_stream_def list_update_beyond)
      then have "adv (look s) (look (upd_stream r (\<lambda>_. st') ?s1))" by (rule adv_trans[OF s1])
      moreover have "s' = (upd_stream r (\<lambda>_. st') ?s1)\<lparr>se_reader := Woken r None\<rparr>"
        using r True by (simp add: session_Recv_def st p d upd_stream_def)
      ultimately show ?thesis by (auto intro!: adv_reader_set)
    next
      case False
      then have "s' = wake_reader ?s1" using r by (cases y) (simp_all add: session_Recv_def st p d upd_stream_def)
      then show ?thesis using adv_trans[OF s1 w] by simp
    qed
  qed
qed

lemma adv_pump: "adv (look s) (look (pump pick r s))"
proof -
  obtain st a where a: "pump_next pick (se_heap s ! r) = (st, a)" by fastforce
  let ?s1 = "upd_stream r (\<lambda>_. st) s"
  have s1: "adv (look s) (look ?s1)"
    using stream_adv_ops(4)[of "se_heap s ! r" pick] ctx_ops(4)[of pick "se_heap s ! r"] by (intro adv_upd_to) (simp_all add: a)
  show ?thesis
  proof (cases "\<exists>x. a = PumpWrite x")
    case False
    then show ?thesis using s1 by (cases a) (simp_all add: pump_def a Let_def)
  next
    case True
    then obtain x where x: "a = PumpWrite x" by blast
    let ?f = "if oi_closeSend x then \<lparr>Frame_Type = FrameCloseSend, Frame_StreamID = st_id st, Frame_Payload = []\<rparr> else frameData (st_id st) (oi_body x)"
    obtain s2 e where w: "writeFrame ?f ?s1 = (s2, e)" by fastforce
    have "pump pick r s = upd_stream r (pump_wrote x e) s2" by (simp only: pump_def a x Let_def prod.case pump_action.case w)
    then show ?thesis using adv_trans[OF s1 adv_writeFrame[OF w]] by (auto intro!: adv_upd_stream)
  qed
qed

lemma adv_openCall: "adv (look s) (look (openCall pb ops i body s))"
  by (auto simp: openCall_def Let_def split: sum.splits prod.splits bool.splits intro!: adv_then)

lemma adv_finish_call: "adv (look s) (look (finish_call pb ops t out s))"
  by (auto simp: finish_call_def call_reply_def Let_def split: sum.splits prod.splits intro!: adv_then)

lemma adv_accept: "adv x (look s) \<Longrightarrow> adv x (look (openStream_accept pb i live serve s))"
proof -
  assume x: "adv x (look s)"
  show ?thesis
    using x adv_trans[OF x adv_writeFrame]
    by (auto simp: openStream_accept_def Let_def split: sum.splits prod.splits option.splits intro!: adv_then)
qed

lemma adv_openStream: "adv (look s) (look (openStream pb ops i body s))"
proof (cases rule: openStream_cases[of pb ops i body s])
  case (Denied h e g m f)
  show ?thesis unfolding Denied(2) by (intro adv_then) (simp add: look_def adv_append)
next
  case (Accepted h g m serve)
  show ?thesis unfolding Accepted(2) by (rule adv_accept) (simp add: look_def adv_append)
qed auto

lemma adv_stream_settle: "adv (look s) (look (stream_settle pb k err s))"
  by (auto simp: stream_settle_def Let_def intro!: adv_then)

lemma adv_stream_closed: "adv (look s) (look (stream_closed pb k s))"
  by (simp add: stream_closed_def adv_stream_settle split: task_phase.splits progress.splits)

lemma adv_stream_served: "adv (look s) (look (stream_served ops k out s))"
  by (auto simp: stream_served_def Let_def split: prod.splits intro!: adv_upd_stream)

lemma adv_probeLoop: "adv (look s) (look (probeLoop pb pick now later s))"
  by (auto simp: probeLoop_def probe_def Let_def split: prod.splits option.splits sum.splits dest!: adv_writeFrame intro!: adv_then)

subsection \<open>The read loop\<close>

lemma adv_takes [simp]:
  "look (fst (takeCall i s)) = look s" "look (fst (takeOpen i s)) = look s" "look (fst (takeStream i s)) = look s"
  "look (fst (cancelInflight i s)) = look s"
  by (simp_all add: takeCall_def takeOpen_def takeStream_def cancelInflight_def split: option.splits)

lemma adv_answerPing: "adv (look s) (look (fst (answerPing pb now f s)))"
  using adv_writeFrame[of _ "s\<lparr>se_lastPong := now\<rparr>"] by (auto simp: answerPing_def split: sum.splits prod.splits)

lemma adv_delivery_failed: "adv (look s) (look (fst (delivery_failed pb r e s)))"
  by (auto simp: delivery_failed_def)

lemma adv_settle:
  "look (fst (settleCall pb k f s)) = look s" "look (fst (settleOpen pb k f s)) = look s"
  by (simp_all add: settleCall_def settleOpen_def split: sum.splits option.splits)

lemma adv_serveFrame: "adv (look s) (look (fst (serveFrame pb pick r f s)))"
proof -
  have "adv (look s) (look (upd_stream r (\<lambda>_. fst (deliver (se_limits s) pick p (se_heap s ! r))) s))" for p
    by (rule adv_upd_to) simp_all
  then have "adv (look s) (look (upd_stream r (\<lambda>_. st) s))" if "deliver (se_limits s) pick p (se_heap s ! r) = (st, y)" for p st y
    using that by (metis fst_conv)
  moreover have "adv (look s) (look (upd_stream r closeInboundHalf s))" by (rule adv_upd_stream) simp_all
  ultimately show ?thesis
    by (auto simp: serveFrame_def adv_delivery_failed split: sum.splits prod.splits deliver_result.splits)
qed

lemma adv_dispatch: "adv (look s) (look (fst (dispatch pb ops now pick f s)))"
proof -
  obtain s1 c where c: "takeCall (Frame_StreamID f) s = (s1, c)" by fastforce
  obtain s2 d where d: "takeOpen (Frame_StreamID f) s1 = (s2, d)" by fastforce
  obtain s3 r where r: "takeStream (Frame_StreamID f) s2 = (s3, r)" by fastforce
  have l: "look s1 = look s" "look s2 = look s" "look s3 = look s"
    using adv_takes(1)[of "Frame_StreamID f" s] adv_takes(2)[of "Frame_StreamID f" s1] adv_takes(3)[of "Frame_StreamID f" s2]
    by (simp_all add: c d r)
  have "adv (look s) (look (fst (dispatchScoped pb ops pick f s)))"
    using adv_serveFrame[of s2 pb pick _ f] adv_serveFrame[of s3 pb pick _ f]
    by (auto simp: dispatchScoped_def c d r l adv_settle adv_openCall adv_openStream Let_def split: option.splits)
  then show ?thesis by (auto simp: dispatch_def adv_answerPing)
qed

lemma serveFrame_parked:
  "serveFrame pb pick live f s = (s', FlowParked r p) \<Longrightarrow> s' = s \<and> r = live \<and> st_ctx (se_heap s ! live) = None"
  by (auto simp: serveFrame_def delivery_failed_def deliver_def split: if_splits sum.splits prod.splits deliver_result.splits option.splits)

lemma dispatch_parked:
  assumes "dispatch pb ops now pick f s = (s', FlowParked r p)" and "heap_ok s"
  shows "r < length (se_heap s') \<and> st_ctx (se_heap s' ! r) = None"
proof -
  have a: "dispatchScoped pb ops pick f s = (s', FlowParked r p)"
    using assms(1) by (auto simp: dispatch_def answerPing_def flow_of_def split: if_splits sum.splits prod.splits option.splits)
  obtain s1 c where c: "takeCall (Frame_StreamID f) s = (s1, c)" by fastforce
  obtain s2 d where d: "takeOpen (Frame_StreamID f) s1 = (s2, d)" by fastforce
  obtain s3 q where q: "takeStream (Frame_StreamID f) s2 = (s3, q)" by fastforce
  have l: "se_streams s2 = se_streams s" "se_heap s2 = se_heap s" "se_heap s3 = se_heap s"
    using c d q by (auto simp: takeCall_def takeOpen_def takeStream_def split: option.splits)
  obtain live x where live: "map_get (se_streams s) (Frame_StreamID f) = Some live" "serveFrame pb pick live f x = (s', FlowParked r p)" "se_heap x = se_heap s"
    using a l q by (auto simp: dispatchScoped_def c d findStream_def takeStream_def settleCall_def settleOpen_def Let_def
        split: if_splits option.splits sum.splits prod.splits)
  have "live \<in> set (map_vals (se_streams s))" using live(1) by (intro map_of_val) simp
  then show ?thesis using serveFrame_parked[OF live(2)] assms(2) live(3) unfolding heap_ok_def by auto
qed

lemma adv_continue:
  assumes "adv x (look (fst y))" and "\<And>r p. snd y = FlowParked r p \<Longrightarrow> r < length (se_heap (fst y)) \<and> st_ctx (se_heap (fst y) ! r) = None"
  shows "adv x (look (readLoop_continue y))"
proof (cases "snd y")
  case (FlowParked r p)
  then show ?thesis using assms by (cases x) (auto simp: readLoop_continue_def look_def adv_def awake_def split: prod.splits)
qed (use assms(1) in \<open>auto simp: readLoop_continue_def split: prod.splits intro!: adv_then adv_reader_set\<close>)

lemma adv_readLoop_dispatch: "heap_ok s \<Longrightarrow> adv (look s) (look (readLoop_dispatch pb ops now pick s))"
proof -
  assume h: "heap_ok s"
  have "adv (look s) (look (readLoop_continue (dispatch pb ops now pick f s)))" for f
    by (rule adv_continue[OF adv_dispatch], rule dispatch_parked[OF _ h]) (simp add: prod_eq_iff)
  then show ?thesis by (simp add: readLoop_dispatch_def split: reader_state.split)
qed

lemma adv_readLoop_resume: "adv (look s) (look (readLoop_resume pb s))"
proof -
  have "snd (delivery_failed pb r e s) \<noteq> FlowParked q p" for r e q p by (simp add: delivery_failed_def)
  then show ?thesis
    by (auto simp: readLoop_resume_def split: reader_state.splits option.splits intro!: adv_continue adv_delivery_failed adv_reader_set)
qed

subsection \<open>The invariant\<close>

definition task_ok :: "stream list \<Rightarrow> 'w stream_task \<Rightarrow> bool" where
  "task_ok h k \<longleftrightarrow> sk_stream k < length h \<and> asked (sk_phase k) (h ! sk_stream k)"

lemma tasks_inv_iff: "tasks_inv s \<longleftrightarrow> awake (se_heap s) (se_reader s) \<and> (\<forall>k \<in> set (se_streamTasks s). task_ok (se_heap s) k)"
  by (simp add: tasks_inv_def task_ok_def)

lemma task_ok_adv: "adv (look s) (look s') \<Longrightarrow> task_ok (se_heap s) k \<Longrightarrow> task_ok (se_heap s') k"
  by (auto simp: task_ok_def asked_def adv_def look_def stream_adv_def split: task_phase.splits)

lemma tasks_inv_adv:
  assumes "tasks_inv s" and "adv (look s) (look s')"
    and "\<And>k. k \<in> set (se_streamTasks s') \<Longrightarrow> k \<in> set (se_streamTasks s) \<or> task_ok (se_heap s') k"
  shows "tasks_inv s'"
  using assms task_ok_adv[OF assms(2)] by (auto simp: tasks_inv_iff adv_def look_def)

lemma tasks_inv_gates: "tasks_inv s \<Longrightarrow> adv (look s) (look s') \<Longrightarrow> gates s' = gates s \<Longrightarrow> tasks_inv s'"
  by (rule tasks_inv_adv) (auto simp: gates_def)

lemma tasks_of_accept:
  assumes "k \<in> set (se_streamTasks (openStream_accept pb i live serve s))" and "live < length (se_heap s)"
  shows "k \<in> set (se_streamTasks s) \<or> task_ok (se_heap (openStream_accept pb i live serve s)) k"
proof (cases "Marshal (pb_StreamAccepted pb) mkStreamAccepted")
  case (Inl err)
  then show ?thesis using assms by (simp add: openStream_accept_def discardStream_def Let_def)
next
  case (Inr ack)
  obtain s1 e where w: "writeFrame \<lparr>Frame_Type = FrameStreamOpenAck, Frame_StreamID = i, Frame_Payload = ack\<rparr> s = (s1, e)"
    by fastforce
  have "length (se_heap s) \<le> length (se_heap s1)" using adv_writeFrame[OF w] by (simp add: adv_def look_def)
  then show ?thesis using assms writeFrame_frame(10)[OF w]
    by (cases e) (auto simp: openStream_accept_def Inr w discardStream_def task_ok_def asked_def)
qed

lemma tasks_of_openStream:
  assumes "k \<in> set (se_streamTasks (openStream pb ops i body s))"
  shows "k \<in> set (se_streamTasks s) \<or> task_ok (se_heap (openStream pb ops i body s)) k"
proof (cases rule: openStream_cases[of pb ops i body s])
  case (Accepted h g m serve)
  then show ?thesis using tasks_of_accept[of k pb i "length (se_heap s)" serve] assms by fastforce
qed (use assms in auto)


lemma gates_tasks: "gates s' = gates s \<Longrightarrow> se_streamTasks s' = se_streamTasks s"
  by (simp add: gates_def)

lemma openCall_tasks: "se_streamTasks (openCall pb ops i body s) = se_streamTasks s"
  by (auto simp: openCall_def cancel_call_def trackInflight_def Let_def split: sum.splits prod.splits bool.splits)

lemma dispatchScoped_tasks:
  assumes "dispatchScoped pb ops pick f s \<noteq> (openStream pb ops (Frame_StreamID f) (Frame_Payload f) s, FlowOk)"
  shows "se_streamTasks (fst (dispatchScoped pb ops pick f s)) = se_streamTasks s"
proof (cases "Frame_Type f = FrameOpenCall \<or> Frame_Type f = FrameOpenStream")
  case True
  then show ?thesis using assms by (auto simp: dispatchScoped_def openCall_tasks Let_def split: if_splits)
next
  case False
  then have "gates (fst (dispatchScoped pb ops pick f s)) = gates s"
    using gates_takes(1)[of "Frame_StreamID f" s] gates_takes(2,3,4)[of "Frame_StreamID f"]
    by (auto simp: dispatchScoped_def takeCall_def takeOpen_def takeStream_def cancelInflight_def findStream_def
        gates_settle Let_def split: option.splits)
  then show ?thesis by (rule gates_tasks)
qed

lemma dispatch_tasks:
  "dispatch pb ops now pick f s \<noteq> (openStream pb ops (Frame_StreamID f) (Frame_Payload f) s, FlowOk) \<Longrightarrow>
   se_streamTasks (fst (dispatch pb ops now pick f s)) = se_streamTasks s"
  using gates_tasks[OF gates_answerPing[of pb now f s]]
  by (auto simp: dispatch_def dispatchScoped_tasks split: if_splits)

lemma tasks_inv_dispatch:
  assumes "tasks_inv s" and "heap_ok s"
  shows "tasks_inv (readLoop_dispatch pb ops now pick s)"
proof (cases "\<exists>f. se_reader s = Holding f")
  case False
  then show ?thesis using assms(1) by (cases "se_reader s") (simp_all add: readLoop_dispatch_def)
next
  case True
  then obtain f where f: "se_reader s = Holding f" by blast
  let ?d = "dispatch pb ops now pick f s"
  have d: "readLoop_dispatch pb ops now pick s = readLoop_continue ?d" by (simp add: readLoop_dispatch_def f)
  show ?thesis
  proof (rule tasks_inv_adv[OF assms(1) adv_readLoop_dispatch[OF assms(2)]])
    fix k assume "k \<in> set (se_streamTasks (readLoop_dispatch pb ops now pick s))"
    then have k: "k \<in> set (se_streamTasks (fst ?d))" using gates_continue[of ?d] by (simp add: d gates_def)
    show "k \<in> set (se_streamTasks s) \<or> task_ok (se_heap (readLoop_dispatch pb ops now pick s)) k"
    proof (cases "?d = (openStream pb ops (Frame_StreamID f) (Frame_Payload f) s, FlowOk)")
      case True
      then show ?thesis using k tasks_of_openStream by (simp add: d readLoop_continue_def)
    next
      case False
      then show ?thesis using k dispatch_tasks by fastforce
    qed
  qed
qed

lemma tasks_inv_stream_served:
  assumes "tasks_inv s" and "k \<in> set (se_streamTasks s)"
  shows "tasks_inv (stream_served ops k out s)"
proof (rule tasks_inv_adv[OF assms(1) adv_stream_served])
  fix j assume "j \<in> set (se_streamTasks (stream_served ops k out s))"
  moreover have "sk_stream k < length (se_heap s)" using assms by (auto simp: tasks_inv_iff task_ok_def)
  ultimately show "j \<in> set (se_streamTasks s) \<or> task_ok (se_heap (stream_served ops k out s)) j"
    by (auto simp: stream_served_def upd_stream_def task_ok_def asked_def CloseSend_begin_def flushOutbound_begin_def Let_def
        split: prod.splits if_splits dest: notin_set_remove1)
qed

lemma tasks_inv_stream_closed:
  assumes "tasks_inv s"
  shows "tasks_inv (stream_closed pb k s)"
proof (rule tasks_inv_adv[OF assms adv_stream_closed])
  fix j assume "j \<in> set (se_streamTasks (stream_closed pb k s))"
  then show "j \<in> set (se_streamTasks s) \<or> task_ok (se_heap (stream_closed pb k s)) j"
    by (auto simp: stream_closed_def stream_settle_def discardStream_def Let_def
        split: task_phase.splits progress.splits if_splits dest: subsetD[OF set_remove1_subset])
qed

lemma tasks_inv_finish_call: "tasks_inv s \<Longrightarrow> tasks_inv (finish_call pb ops t out s)"
  by (rule tasks_inv_adv[OF _ adv_finish_call])
    (auto simp: finish_call_def call_reply_def releaseInflight_def cancel_call_def Let_def split: prod.splits sum.splits)

lemma tasks_inv_step: "sess_step pb ops s s' \<Longrightarrow> heap_ok s \<Longrightarrow> tasks_inv s \<Longrightarrow> tasks_inv s'"
proof (induction rule: sess_step.induct)
  case (step_call_send body s s' r)
  then show ?case using tasks_inv_gates[OF _ adv_Call_send gates_Call_send] by blast
next
  case (step_call_finish c s pick ctx_err s' r)
  then show ?case using tasks_inv_gates[OF _ adv_Call_finish gates_Call_finish] by blast
next
  case (step_open_send m body ctx_err s s' r)
  then show ?case using tasks_inv_gates[OF _ adv_OpenStream_send gates_OpenStream_send] by blast
next
  case (step_open_finish c s pick ctx_err s' r)
  then show ?case using tasks_inv_gates[OF _ adv_OpenStream_finish gates_OpenStream_finish] by blast
next
  case (step_recv r s s' x)
  then show ?case using tasks_inv_gates[OF _ adv_session_Recv] gates_consumer(5)[of r s] by (metis fst_conv)
next
  case (step_send r s m s' e)
  then show ?case using tasks_inv_gates[OF _ adv_session_Send] gates_consumer(6)[of pb r m s] by (metis fst_conv)
next
  case (step_progress r s f pick)
  then have "adv (look s) (look (upd_stream r f s))" by (intro adv_upd_stream) auto
  then show ?case using step_progress.prems tasks_inv_gates gates_prims(4) by blast
qed (simp_all add: tasks_inv_dispatch tasks_inv_stream_served tasks_inv_stream_closed tasks_inv_finish_call
      tasks_inv_gates[OF _ adv_consumer(1) gates_consumer(1)] tasks_inv_gates[OF _ adv_consumer(2) gates_consumer(2)]
      tasks_inv_gates[OF _ adv_consumer(3) gates_consumer(3)] tasks_inv_gates[OF _ adv_caller_cancel gates_consumer(4)]
      tasks_inv_gates[OF _ adv_pump gates_pump] tasks_inv_gates[OF _ adv_probeLoop gates_probeLoop]
      tasks_inv_gates[OF _ adv_readLoop_resume gates_resume])

lemma tasks_inv_New: "tasks_inv (New cfg transport source h now)"
  by (simp add: tasks_inv_def New_def Start_def NewSession_def awake_def Let_def)

lemma reachable_tasks: "reachable pb ops cfg s \<Longrightarrow> tasks_inv s"
proof -
  assume "reachable pb ops cfg s"
  then obtain t src h now where o: "\<not> tr_closed t" and st: "(sess_step pb ops)\<^sup>*\<^sup>* (New cfg t src h now) s"
    by (auto simp: reachable_def)
  from st show ?thesis
  proof (induction rule: rtranclp_induct)
    case (step y z)
    then have "sess_inv y" using o by (intro reachable_inv) (auto simp: reachable_def)
    then show ?case using step tasks_inv_step[of pb ops y z] by (simp add: sess_inv_def)
  qed (rule tasks_inv_New)
qed

end
