(* ===== verification/Session_Drain.thy ===== *)
theory Session_Drain
  imports Session_Tasks
begin

text \<open>
  The shutdown of a session: \<^verbatim>\<open>Wait\<close> of \<^verbatim>\<open>session.go\<close> waits for the goroutines the session started. Once the
  session has ended, each of them can come to its end without any other one, so \<^verbatim>\<open>Wait\<close> returns.
\<close>

section \<open>The goroutines of a session\<close>

text \<open>
  The counter of the wait group: the read loop, the prober, the goroutines of inbound calls and streams,
  the followers of opened streams, the pumps.
\<close>

definition waiters :: "('h, 'v, 'w) Session \<Rightarrow> nat" where
  "waiters s = (if se_reader s = ReaderDone then 0 else 1) + (if se_probing s then 1 else 0)
     + length (se_callTasks s) + length (se_streamTasks s) + length (se_followers s) + length (filter st_pumping (se_heap s))"

definition Wait :: "('h, 'v, 'w) Session \<Rightarrow> bool" where
  "Wait s \<longleftrightarrow> waiters s = 0"

section \<open>An ended session\<close>

lemma ended_facts:
  assumes "reachable pb ops cfg s" and "se_ended s"
  shows "se_ctx s \<noteq> None" "tr_closed (se_transport s)" "se_streams s = []"
    "r < length (se_heap s) \<Longrightarrow> st_ctx (se_heap s ! r) \<noteq> None" "se_reader s \<noteq> Parked q p" "heap_ok s"
  using reachable_inv[OF assms(1)] assms(2) reachable_tasks[OF assms(1)]
  by (auto simp: sess_inv_def life_inv_def reach_inv_def tasks_inv_def awake_def split: reader_state.splits)

lemma woken_done [simp]: "(woken h rd = ReaderDone) = (rd = ReaderDone)"
  by (auto simp: woken_def split: reader_state.splits option.splits)

lemma finish_all_done [simp]: "(snd (finish_all e rs x) = ReaderDone) = (snd x = ReaderDone)"
  by (induction rs arbitrary: x) (simp_all add: finish_all_def case_prod_beta Let_def)

lemma session_end_done [simp]: "(se_reader (session_end c s) = ReaderDone) = (se_reader s = ReaderDone)"
  by (simp add: session_end_eq end_streams_def)

text \<open>First the read loop comes to its end: a read of a closed connection fails.\<close>

lemma readLoop_read_closed: "tr_closed (se_transport s) \<Longrightarrow> se_reader (readLoop_read s) = ReaderDone"
  by (simp add: readLoop_read_def ReadFrame_def io_ReadFull_def split: prod.split)

lemma continue_reader:
  "(\<And>r p. snd y \<noteq> FlowParked r p) \<Longrightarrow> se_reader (readLoop_continue y) \<in> {Reading, ReaderDone}"
  by (cases y; cases "snd y") (auto simp: readLoop_continue_def)

lemma adv_ended_step: "adv (look s) (look s') \<Longrightarrow> se_ended s \<Longrightarrow> se_ended s'"
  by (simp add: adv_def look_def)

lemma reader_ends:
  assumes "reachable pb ops cfg s" and "se_ended s"
  shows "\<exists>s'. (sess_step pb ops)\<^sup>*\<^sup>* s s' \<and> reachable pb ops cfg s' \<and> se_ended s' \<and> se_reader s' = ReaderDone"
proof -
  note f = ended_facts[OF assms]
  have finish: ?thesis if st: "(sess_step pb ops)\<^sup>*\<^sup>* s t" "reachable pb ops cfg t" "se_ended t" "se_reader t \<in> {Reading, ReaderDone}" for t
  proof (cases "se_reader t = ReaderDone")
    case False
    then have "se_reader t = Reading" using st(4) by simp
    then have "se_reader (readLoop_read t) = ReaderDone" "sess_step pb ops t (readLoop_read t)"
      using readLoop_read_closed ended_facts(2)[OF st(2,3)] step_read by blast+
    then show ?thesis
      using st rtranclp.rtrancl_into_rtrancl[OF st(1)] reachable_step[OF st(2)] adv_ended_step[OF adv_consumer(3)] by blast
  qed (use st in blast)
  have finish1: ?thesis if "sess_step pb ops s t" "se_ended t" "se_reader t \<in> {Reading, ReaderDone}" for t
    using that finish[of t] reachable_step[OF assms(1)] by blast
  show ?thesis
  proof (cases "se_reader s")
    case (Holding g)
    have "snd (dispatch pb ops 0 True g s) \<noteq> FlowParked r p" for r p
    proof
      assume "snd (dispatch pb ops 0 True g s) = FlowParked r p"
      then have d: "dispatch pb ops 0 True g s = (fst (dispatch pb ops 0 True g s), FlowParked r p)" by (simp add: prod_eq_iff)
      have t: "se_reader (readLoop_dispatch pb ops 0 True s) = Parked r p"
        by (subst readLoop_dispatch_def) (simp add: Holding, subst d, simp add: readLoop_continue_def)
      show False
        using ended_facts(5)[OF reachable_step[OF assms(1) step_dispatch] adv_ended_step[OF adv_readLoop_dispatch[OF f(6)] assms(2)]] t by blast
    qed
    then have "se_reader (readLoop_dispatch pb ops 0 True s) \<in> {Reading, ReaderDone}"
      unfolding readLoop_dispatch_def Holding reader_state.case by (rule continue_reader)
    then show ?thesis by (intro finish1[OF step_dispatch adv_ended_step[OF adv_readLoop_dispatch[OF f(6)] assms(2)]])
  next
    case (Woken q e)
    have "snd (delivery_failed pb q x s) \<noteq> FlowParked r p" for x r p by (simp add: delivery_failed_def)
    then have "se_reader (readLoop_resume pb s) \<in> {Reading, ReaderDone}"
      using continue_reader[of "delivery_failed pb q (the e) s"] by (cases e) (simp_all add: readLoop_resume_def Woken)
    then show ?thesis by (intro finish1[OF step_resume adv_ended_step[OF adv_readLoop_resume assms(2)]])
  qed (use finish[of s] assms f(5) in auto)
qed

text \<open>Then every other goroutine does.\<close>

lemma pumps_ended: "heap_ended_by h h' \<Longrightarrow> length (filter st_pumping h') = length (filter st_pumping h)"
  unfolding heap_ended_by_def by (induction rule: list_all2_induct) (simp_all add: ended_by_def)

lemma pumps_update: "st_pumping x = st_pumping (h ! r) \<Longrightarrow> length (filter st_pumping (h[r := x])) = length (filter st_pumping h)"
  by (induction h arbitrary: r) (auto split: nat.splits)

lemma pumps_stop:
  "r < length h \<Longrightarrow> st_pumping (h ! r) \<Longrightarrow> \<not> st_pumping x \<Longrightarrow> Suc (length (filter st_pumping (h[r := x]))) = length (filter st_pumping h)"
proof (induction h arbitrary: r)
  case (Cons a h)
  then show ?case by (cases r) auto
qed simp

lemma waiters_ops [simp]:
  "waiters (session_end c s) = waiters s" "waiters (finish_ref r e s) = waiters s" "waiters (sendFrame f s) = waiters s"
proof -
  show e: "waiters (session_end c s) = waiters s" for c and s :: "('a, 'b, 'c) Session"
    using pumps_ended[OF session_end_heap[of s c]] by (simp add: waiters_def)
  show "waiters (finish_ref r e s) = waiters s"
    by (simp add: waiters_def) (simp add: finish_ref_eq pumps_update Let_def)
  have t: "waiters (s\<lparr>se_transport := t\<rparr>) = waiters s" for t by (simp add: waiters_def)
  show "waiters (sendFrame f s) = waiters s" by (cases rule: writeFrame_cases[of f s]) (simp_all add: sendFrame_def e t)
qed

lemma waiters_upd: "st_pumping (f (se_heap s ! r)) = st_pumping (se_heap s ! r) \<Longrightarrow> waiters (upd_stream r f s) = waiters s"
  by (simp add: waiters_def upd_stream_def pumps_update)

lemma waiters_fields [simp]:
  "waiters (s\<lparr>se_handler := x1\<rparr>) = waiters s" "waiters (s\<lparr>se_callGate := x2\<rparr>) = waiters s" "waiters (s\<lparr>se_streamGate := x3\<rparr>) = waiters s"
  "waiters (releaseInflight i s) = waiters s" "waiters (cancel_call c s) = waiters s" "waiters (discardStream i s) = waiters s"
  by (simp_all add: waiters_def releaseInflight_def cancel_call_def discardStream_def)

lemma waiters_reply [simp]: "waiters (call_reply pb i r s) = waiters s"
  by (simp add: call_reply_def split: sum.splits)

lemma done_ops [simp]:
  "(se_reader (finish_ref r e s) = ReaderDone) = (se_reader s = ReaderDone)"
  "(se_reader (sendFrame f s) = ReaderDone) = (se_reader s = ReaderDone)"
  by (simp add: finish_ref_eq Let_def) (cases rule: writeFrame_cases[of f s]; simp add: sendFrame_def)

lemma done_steps:
  assumes "se_reader s = ReaderDone"
  shows "se_reader (finish_call pb ops t out s) = ReaderDone" "se_reader (stream_settle pb k err s) = ReaderDone"
    "se_streams s = [] \<Longrightarrow> se_reader (follow_done pb (i, r) s) = ReaderDone" "se_streams s = [] \<Longrightarrow> se_reader (stream_served ops k out' s) = ReaderDone"
    "st_ctx (se_heap s ! r) \<noteq> None \<Longrightarrow> se_reader (pump False r s) = ReaderDone" "se_reader (upd_stream r f s) = ReaderDone"
  using assms
  by (simp_all add: finish_call_def call_reply_def releaseInflight_def cancel_call_def stream_settle_def discardStream_def follow_done_def
      findStream_def stream_served_def pump_def pump_next_def upd_stream_def Let_def split: prod.split sum.split)

lemma waiters_less:
  "t \<in> set (se_callTasks s) \<Longrightarrow> waiters (s\<lparr>se_callTasks := remove1 t (se_callTasks s)\<rparr>) < waiters s"
  "k \<in> set (se_streamTasks s) \<Longrightarrow> waiters (s\<lparr>se_streamTasks := remove1 k (se_streamTasks s)\<rparr>) < waiters s"
  "c \<in> set (se_followers s) \<Longrightarrow> waiters (s\<lparr>se_followers := remove1 c (se_followers s)\<rparr>) < waiters s"
  "se_probing s \<Longrightarrow> waiters (s\<lparr>se_probing := False\<rparr>) < waiters s"
  by (auto simp: waiters_def length_remove1 dest: length_pos_if_in_set)

lemma waiters_set: "waiters (s\<lparr>se_handler := h, se_callTasks := x\<rparr>) = waiters (s\<lparr>se_callTasks := x\<rparr>)"
  "waiters (s\<lparr>se_handler := h, se_streamTasks := y\<rparr>) = waiters (s\<lparr>se_streamTasks := y\<rparr>)"
  by (simp_all add: waiters_def)

lemma call_task_ends: "t \<in> set (se_callTasks s) \<Longrightarrow> waiters (finish_call pb ops t out s) < waiters s"
  using waiters_less(1)[of t s] by (simp add: finish_call_def waiters_set Let_def split: prod.splits)

lemma follower_ends: "(i, r) \<in> set (se_followers s) \<Longrightarrow> se_streams s = [] \<Longrightarrow> waiters (follow_done pb (i, r) s) < waiters s"
  using waiters_less(3)[of "(i, r)" s] by (simp add: follow_done_def findStream_def Let_def)

lemma pump_ends:
  "r < length (se_heap s) \<Longrightarrow> st_pumping (se_heap s ! r) \<Longrightarrow> st_ctx (se_heap s ! r) \<noteq> None \<Longrightarrow> waiters (pump False r s) < waiters s"
  using pumps_stop[of r "se_heap s" "(se_heap s ! r)\<lparr>st_pumping := False\<rparr>"]
  by (simp add: pump_def pump_next_def waiters_def upd_stream_def Let_def)

lemma served_ends: "k \<in> set (se_streamTasks s) \<Longrightarrow> se_streams s = [] \<Longrightarrow> waiters (stream_served ops k out s) < waiters s"
  using waiters_less(2)[of k s] by (simp add: stream_served_def waiters_set Let_def split: prod.splits)

lemma settled_ends: "k \<in> set (se_streamTasks s) \<Longrightarrow> waiters (stream_settle pb k err s) < waiters s"
  using waiters_less(2)[of k s] by (simp add: stream_settle_def Let_def)

text \<open>A close or a flush that was asked for is given up, as the stream's context is done.\<close>

definition give_up :: "stream \<Rightarrow> stream" where
  "give_up st = flushOutbound_await False (flushOutbound_enqueue False (CloseSend_await False (CloseSend_enqueue False st)))"

lemma gives_up:
  assumes "st_ctx st \<noteq> None"
  shows "st_pumping (give_up st) = st_pumping st" "st_ctx (give_up st) = st_ctx st"
    "st_sendEnd st \<noteq> NotCalled \<Longrightarrow> \<exists>e. st_sendEnd (give_up st) = Done e" "st_flush st \<noteq> NotCalled \<Longrightarrow> \<exists>e. st_flush (give_up st) = Done e"
  using assms
  by (cases "st_sendEnd st"; cases "st_flush st"; cases "st_written st"; cases "st_flushed st";
      simp add: give_up_def CloseSend_enqueue_def CloseSend_await_def flushOutbound_enqueue_def flushOutbound_await_def)+

lemma upd_stream_upd: "r < length (se_heap s) \<Longrightarrow> upd_stream r g (upd_stream r f s) = upd_stream r (\<lambda>x. g (f x)) s"
  by (simp add: upd_stream_def)

lemma give_up_steps:
  assumes "r < length (se_heap s)"
  shows "(sess_step pb ops)\<^sup>*\<^sup>* s (upd_stream r give_up s)"
proof -
  have p: "sess_step pb ops x (upd_stream r f x)"
    if "length (se_heap x) = length (se_heap s)"
      "f \<in> {CloseSend_enqueue False, CloseSend_await False, flushOutbound_enqueue False, flushOutbound_await False}" for x f
    using that assms by (intro step_progress[where pick = False]) auto
  let ?a = "upd_stream r (CloseSend_enqueue False) s" let ?b = "upd_stream r (CloseSend_await False) ?a"
  let ?c = "upd_stream r (flushOutbound_enqueue False) ?b"
  have "sess_step pb ops s ?a" "sess_step pb ops ?a ?b" "sess_step pb ops ?b ?c" "sess_step pb ops ?c (upd_stream r (flushOutbound_await False) ?c)"
    by (rule p; simp add: upd_stream_def)+
  moreover have "upd_stream r (flushOutbound_await False) ?c = upd_stream r give_up s"
    using assms by (simp add: upd_stream_def give_up_def)
  ultimately show ?thesis by (metis (no_types, lifting) r_into_rtranclp rtranclp_trans)
qed

lemma task_ends:
  assumes "reachable pb ops cfg s" "se_ended s" "se_reader s = ReaderDone" "k \<in> set (se_streamTasks s)"
  shows "\<exists>s'. (sess_step pb ops)\<^sup>*\<^sup>* s s' \<and> waiters s' < waiters s \<and> se_reader s' = ReaderDone"
proof (cases "sk_phase k = Serving")
  case True
  then show ?thesis
    using step_stream_served[OF assms(4), of pb ops] served_ends[OF assms(4) ended_facts(3)[OF assms(1,2)]]
      done_steps(4)[OF assms(3) ended_facts(3)[OF assms(1,2)]] by blast
next
  case False
  let ?r = "sk_stream k" let ?s = "upd_stream ?r give_up s"
  have k: "task_ok (se_heap s) k" using reachable_tasks[OF assms(1)] assms(4) by (simp add: tasks_inv_iff)
  then have r: "?r < length (se_heap s)" by (simp add: task_ok_def)
  note g = gives_up[OF ended_facts(4)[OF assms(1,2) r]]
  have h: "se_heap ?s ! ?r = give_up (se_heap s ! ?r)" "se_streamTasks ?s = se_streamTasks s" using r by (simp_all add: upd_stream_def)
  have "\<exists>err. stream_closed pb k ?s = stream_settle pb k err ?s"
    using k False g(3,4) h by (cases "sk_phase k") (auto simp: stream_closed_def task_ok_def asked_def)
  then obtain err where c: "stream_closed pb k ?s = stream_settle pb k err ?s" by blast
  have "sess_step pb ops ?s (stream_settle pb k err ?s)" using step_stream_closed[of k ?s pb ops] assms(4) h(2) c by simp
  moreover have "waiters ?s = waiters s" by (rule waiters_upd) (rule g(1))
  ultimately show ?thesis
    using give_up_steps[OF r, of pb ops] settled_ends[of k ?s pb err] assms(4) h(2) done_steps(2,6)[OF assms(3)] done_steps(2)[OF done_steps(6)[OF assms(3)]]
    by (metis rtranclp.rtrancl_into_rtrancl)
qed

lemma someone_ends:
  assumes "reachable pb ops cfg s" "se_ended s" "se_reader s = ReaderDone" "waiters s \<noteq> 0"
  shows "\<exists>s'. (sess_step pb ops)\<^sup>*\<^sup>* s s' \<and> waiters s' < waiters s \<and> se_reader s' = ReaderDone"
proof -
  note f = ended_facts[OF assms(1,2)]
  consider "se_probing s" | "se_callTasks s \<noteq> []" | "se_streamTasks s \<noteq> []" | "se_followers s \<noteq> []" | "filter st_pumping (se_heap s) \<noteq> []"
    using assms(3,4) by (auto simp: waiters_def split: if_splits)
  then show ?thesis
  proof cases
    case 1
    then have "probeLoop pb False 0 0 s = s\<lparr>se_probing := False\<rparr>" using f(1) by (simp add: probeLoop_def)
    then show ?thesis using step_probe[OF 1, of pb ops False 0 0] waiters_less(4)[OF 1] assms(3) by auto
  next
    case 2
    then have "hd (se_callTasks s) \<in> set (se_callTasks s)" by simp
    then show ?thesis using step_call_task[of _ s pb ops] call_task_ends done_steps(1)[OF assms(3)] by blast
  next
    case 3
    then have "hd (se_streamTasks s) \<in> set (se_streamTasks s)" by simp
    then show ?thesis using task_ends[OF assms(1-3)] by blast
  next
    case 4
    then obtain i r where ir: "(i, r) \<in> set (se_followers s)" by (cases "se_followers s") auto
    then have "r < length (se_heap s)" using f(6) by (auto simp: heap_ok_def own_streams_def)
    then show ?thesis using step_follow[OF ir f(4), of pb ops] follower_ends[OF ir f(3)] done_steps(3)[OF assms(3) f(3)] by blast
  next
    case 5
    then obtain r where r: "r < length (se_heap s)" "st_pumping (se_heap s ! r)" by (auto simp: filter_empty_conv in_set_conv_nth)
    then show ?thesis using step_pump[OF r(1), of pb ops False] pump_ends[OF r f(4)] done_steps(5)[OF assms(3) f(4)] by blast
  qed
qed

lemma steps_keep:
  assumes "(sess_step pb ops)\<^sup>*\<^sup>* s s'" "reachable pb ops cfg s"
  shows "reachable pb ops cfg s'"
  using assms(1) by (induction rule: rtranclp_induct) (auto intro: reachable_step assms(2))

lemma step_adv: "sess_step pb ops s s' \<Longrightarrow> heap_ok s \<Longrightarrow> adv (look s) (look s')"
  by (cases rule: sess_step.cases)
    (auto simp: adv_consumer adv_caller_cancel adv_pump adv_probeLoop adv_readLoop_resume adv_readLoop_dispatch adv_finish_call
      adv_stream_served adv_stream_closed intro: adv_Call_send adv_Call_finish adv_OpenStream_send adv_OpenStream_finish
      adv_session_Recv adv_session_Send intro!: adv_upd_stream)

lemma ended_stays: "(sess_step pb ops)\<^sup>*\<^sup>* s s' \<Longrightarrow> reachable pb ops cfg s \<Longrightarrow> se_ended s \<Longrightarrow> se_ended s'"
proof (induction rule: rtranclp_induct)
  case (step y z)
  then have "heap_ok y" using reachable_inv[OF steps_keep[of pb ops s y cfg]] by (simp add: sess_inv_def)
  then show ?case using step step_adv adv_ended_step by blast
qed simp

lemma drains:
  assumes "reachable pb ops cfg s" "se_ended s" "se_reader s = ReaderDone"
  shows "\<exists>s'. (sess_step pb ops)\<^sup>*\<^sup>* s s' \<and> waiters s' = 0"
  using assms
proof (induction "waiters s" arbitrary: s rule: less_induct)
  case less
  show ?case
  proof (cases "waiters s = 0")
    case False
    then obtain t where t: "(sess_step pb ops)\<^sup>*\<^sup>* s t" "waiters t < waiters s" "se_reader t = ReaderDone"
      using someone_ends[OF less.prems] by blast
    then show ?thesis
      using less.hyps[OF t(2) steps_keep[OF t(1) less.prems(1)] ended_stays[OF t(1) less.prems(1,2)] t(3)] by (meson rtranclp_trans)
  qed blast
qed

section \<open>Properties\<close>

text \<open>
  C11. Shutdown completes. From every state a session can be in once it has ended, whatever
  ended it and wherever its goroutines are at that moment (in a read, holding a frame, in a
  parked delivery, in a handler, waiting for a close marker or a flush to be written, in a
  pump), its goroutines can all come to their end by their own steps, so that \<^verbatim>\<open>Wait\<close> returns;
  and then every unit of both concurrency budgets has been given back.
\<close>

theorem ended_session_drains:
  assumes "reachable pb ops cfg s" and "se_ended s"
  shows "\<exists>s'. (sess_step pb ops)\<^sup>*\<^sup>* s s' \<and> Wait s' \<and> gate_len (se_callGate s') = 0 \<and> gate_len (se_streamGate s') = 0"
proof -
  obtain t where t: "(sess_step pb ops)\<^sup>*\<^sup>* s t" "reachable pb ops cfg t" "se_ended t" "se_reader t = ReaderDone"
    using reader_ends[OF assms] by blast
  obtain s' where s': "(sess_step pb ops)\<^sup>*\<^sup>* t s'" "waiters s' = 0" using drains[OF t(2-4)] by blast
  have "gates_inv (WithDefaults (cfg_Limits cfg)) s'" by (rule reachable_gates[OF steps_keep[OF s'(1) t(2)]])
  then have "gate_len (se_callGate s') = 0 \<and> gate_len (se_streamGate s') = 0" using s'(2) by (simp add: waiters_def gates_inv_def)
  then show ?thesis using s'(2) rtranclp_trans[OF t(1) s'(1)] by (auto simp: Wait_def)
qed

theorem ended_session_drains_witness:
  "\<exists>s'. (sess_step sample_proto open_ops)\<^sup>*\<^sup>* (Close calling_session) s' \<and> Wait s'"
proof -
  have "se_ended (Close calling_session)" using calling_session_eq by (simp add: Close_def)
  then show ?thesis using ended_session_drains[OF closed_reachable] by blast
qed

end
