(* ===== verification/Facade.thy ===== *)
theory Facade
  imports Carrier_TCP Carrier_Quic Carrier_Unix Carrier_Pipe Router Session_Drain
begin

text \<open>
  The public API, \<^verbatim>\<open>src/presentation/peer\<close>: the registry builder (\<^verbatim>\<open>registry.go\<close>), the choice of a profile
  and a carrier, dialing, listening and serving (\<^verbatim>\<open>endpoint.go\<close>), and the revocation functions it
  re-exports (\<^verbatim>\<open>revocation.go\<close>). \<open>windows\<close> says which of the two pipe carriers was compiled in.
\<close>

section \<open>The registry builder\<close>

record ('c, 's) RegistryBuilder =
  rb_registry :: "('c, 's) Registry option"
  rb_limits :: Limits
  rb_authorizer :: "authorizer option"
  rb_err :: "go_error option"

definition zero_limits :: Limits where
  "zero_limits = \<lparr>MaxMessageBytes = 0, MaxStreamMessageBytes = 0, MaxConcurrentCalls = 0,
     MaxConcurrentStreams = 0, MaxStreamQueueDepth = 0\<rparr>"

definition builder_New :: "('c, 's) RegistryBuilder" where
  "builder_New = \<lparr>rb_registry = Some NewRegistry, rb_limits = zero_limits, rb_authorizer = None, rb_err = None\<rparr>"

definition WithLimits :: "Limits \<Rightarrow> ('c, 's) RegistryBuilder \<Rightarrow> ('c, 's) RegistryBuilder" where
  "WithLimits limits builder = builder\<lparr>rb_limits := WithDefaults limits\<rparr>"

definition WithAuthorizer :: "authorizer option \<Rightarrow> ('c, 's) RegistryBuilder \<Rightarrow> ('c, 's) RegistryBuilder" where
  "WithAuthorizer auth builder = builder\<lparr>rb_authorizer := auth\<rparr>"

definition builder_RegisterCall :: "string \<Rightarrow> 'c option \<Rightarrow> ('c, 's) RegistryBuilder \<Rightarrow> ('c, 's) RegistryBuilder" where
  "builder_RegisterCall method handler builder =
    (if rb_err builder \<noteq> None then builder
     else case RegisterCall (rb_registry builder) method handler of
            (registry, err) \<Rightarrow> builder\<lparr>rb_registry := registry, rb_err := err\<rparr>)"

definition builder_RegisterStream :: "string \<Rightarrow> 's option \<Rightarrow> ('c, 's) RegistryBuilder \<Rightarrow> ('c, 's) RegistryBuilder" where
  "builder_RegisterStream method handler builder =
    (if rb_err builder \<noteq> None then builder
     else case RegisterStream (rb_registry builder) method handler of
            (registry, err) \<Rightarrow> builder\<lparr>rb_registry := registry, rb_err := err\<rparr>)"

definition Build :: "('c, 's) RegistryBuilder \<Rightarrow> go_error + ('c, 's) Router" where
  "Build builder =
    (case rb_err builder of
       Some err \<Rightarrow> Inl err
     | None \<Rightarrow>
         (let limits = (if rb_limits builder = zero_limits then DefaultLimits else rb_limits builder)
          in Inr (NewRouterWithAuthorizer (rb_registry builder) limits (rb_authorizer builder))))"

text \<open>The first registration that fails decides what \<^verbatim>\<open>Build\<close> returns, whatever is registered after it.\<close>

lemma builder_error_sticks:
  "rb_err builder = Some err \<Longrightarrow> rb_err (builder_RegisterCall m c builder) = Some err"
  "rb_err builder = Some err \<Longrightarrow> rb_err (builder_RegisterStream m h builder) = Some err"
  "rb_err builder = Some err \<Longrightarrow> Build builder = Inl err"
  by (simp_all add: builder_RegisterCall_def builder_RegisterStream_def Build_def)

section \<open>Endpoints\<close>

record NetworkConfig =
  Net_Carrier :: string
  Net_Endpoint :: string
  Net_ServerName :: string
  Net_KeepAlive :: int
  Net_HandshakeTimeout :: int

record SecurityConfig =
  Sec_Identity :: string
  Sec_Certificate :: TLSCertificate
  Sec_Roots :: "Certificate list option"
  Sec_PeerIdentity :: string
  Sec_Revocation :: "nat option"
  Sec_PlaintextLoopback :: bool

record 'h EndpointConfig =
  Ep_Network :: NetworkConfig
  Ep_Security :: SecurityConfig
  Ep_Handler :: "'h option"
  Ep_Limits :: Limits

definition resolveProfile :: "host \<Rightarrow> pki \<Rightarrow> managers \<Rightarrow> SecurityConfig \<Rightarrow> go_error + Profile" where
  "resolveProfile host pki heap c =
    (if Sec_PlaintextLoopback c
     then (if Sec_Identity c \<noteq> [] \<or> TLS_Certificate (Sec_Certificate c) \<noteq> [] \<or> Sec_Roots c \<noteq> None \<or> Sec_Revocation c \<noteq> None
           then Inl (Plain ''peer: the plaintext profile cannot be combined with credentials'')
           else if Sec_PeerIdentity c \<noteq> []
           then Inl (Plain ''peer: the plaintext profile cannot pin a peer it does not authenticate'')
           else Inr LoopbackPlaintext)
     else if Sec_Identity c = [] then Inl (Plain ''peer: an encrypted endpoint requires an identity'')
     else MTLS host pki heap \<lparr>Cred_Identity = Sec_Identity c, Cred_Certificate = Sec_Certificate c,
            Cred_PeerRoots = Sec_Roots c, Cred_PeerIdentity = Sec_PeerIdentity c, Cred_Revocation = Sec_Revocation c\<rparr>)"

definition localIdentity :: "Profile option \<Rightarrow> SecurityConfig \<Rightarrow> PeerIdentity" where
  "localIdentity profile c = (if \<not> Authenticated profile then no_identity else \<lparr>URI = Sec_Identity c\<rparr>)"

datatype built_carrier =
    TCPCarrier carrier_config
  | QUICCarrier quic_config
  | UnixCarrier carrier_config
  | PipeCarrier carrier_config

definition buildCarrier :: "host \<Rightarrow> pki \<Rightarrow> bool \<Rightarrow> managers \<Rightarrow> NetworkConfig \<Rightarrow> SecurityConfig \<Rightarrow> Limits
    \<Rightarrow> go_error + built_carrier" where
  "buildCarrier host pki windows heap network c limits =
    (case resolveProfile host pki heap c of
       Inl err \<Rightarrow> Inl err
     | Inr profile \<Rightarrow>
         (case RequireEncryptedEndpointContext host (Some profile) (Net_Endpoint network) of
            Some err \<Rightarrow> Inl err
          | None \<Rightarrow>
              (let cfg = \<lparr>cc_Profile = Some profile, cc_Local = localIdentity (Some profile) c,
                          cc_ServerName = Net_ServerName network, cc_Limits = limits,
                          cc_KeepAlive = Net_KeepAlive network, cc_HandshakeTimeout = Net_HandshakeTimeout network\<rparr>
               in if Net_Carrier network = ''tcp'' then map_sum id TCPCarrier (tcp_New host cfg)
                  else if Net_Carrier network = ''quic''
                  then map_sum id QUICCarrier (quic_New host (carrier_config.extend cfg \<lparr>qc_MaxIdleTimeout = 0\<rparr>))
                  else if Net_Carrier network = ''unix'' then map_sum id UnixCarrier (unix_New host cfg)
                  else if Net_Carrier network = ''pipe''
                  then (if windows then map_sum id PipeCarrier (pipe_New host cfg)
                        else map_sum id (\<lambda>_. PipeCarrier cfg) (other_New cfg))
                  else Inl (Plain (''peer: unknown carrier '' @ Net_Carrier network)))))"

text \<open>The methods of the carrier port (\<^verbatim>\<open>domain/peer/carrier.go\<close>), on the carrier that was built.\<close>

definition Carrier_Name :: "built_carrier \<Rightarrow> string" where
  "Carrier_Name carrier =
    (case carrier of
       TCPCarrier _ \<Rightarrow> tcp_Name | QUICCarrier _ \<Rightarrow> quic_Name | UnixCarrier _ \<Rightarrow> unix_Name | PipeCarrier _ \<Rightarrow> pipe_Name)"

definition Carrier_Profile :: "built_carrier \<Rightarrow> string" where
  "Carrier_Profile carrier =
    (case carrier of
       TCPCarrier cfg \<Rightarrow> tcp_Profile cfg | QUICCarrier cfg \<Rightarrow> quic_Profile cfg
     | UnixCarrier cfg \<Rightarrow> unix_Profile cfg | PipeCarrier cfg \<Rightarrow> pipe_Profile cfg)"

definition Carrier_Encrypted :: "built_carrier \<Rightarrow> bool" where
  "Carrier_Encrypted carrier =
    (case carrier of
       TCPCarrier cfg \<Rightarrow> tcp_Encrypted cfg | QUICCarrier cfg \<Rightarrow> quic_Encrypted cfg
     | UnixCarrier cfg \<Rightarrow> unix_Encrypted cfg | PipeCarrier cfg \<Rightarrow> pipe_Encrypted cfg)"

definition Carrier_Authenticated :: "built_carrier \<Rightarrow> bool" where
  "Carrier_Authenticated carrier =
    (case carrier of
       TCPCarrier cfg \<Rightarrow> tcp_Authenticated cfg | QUICCarrier cfg \<Rightarrow> quic_Authenticated cfg
     | UnixCarrier cfg \<Rightarrow> unix_Authenticated cfg | PipeCarrier cfg \<Rightarrow> pipe_Authenticated cfg)"

definition carrier_Dial :: "host \<Rightarrow> pki \<Rightarrow> built_carrier \<Rightarrow> string \<Rightarrow> 'h option \<Rightarrow> carrier_io \<times> quic_io \<Rightarrow> managers
    \<Rightarrow> managers \<times> (go_error + ('h, 'v, 'w) Session)" where
  "carrier_Dial host pki carrier endpoint handler env heap =
    (case carrier of
       TCPCarrier cfg \<Rightarrow> tcp_Dial host pki cfg endpoint handler (fst env) heap
     | QUICCarrier cfg \<Rightarrow> quic_Dial host pki cfg endpoint handler (snd env) heap
     | UnixCarrier cfg \<Rightarrow> unix_Dial host pki cfg endpoint handler (fst env) heap
     | PipeCarrier cfg \<Rightarrow> pipe_Dial host pki cfg endpoint handler (fst env) heap)"

definition Dial :: "host \<Rightarrow> pki \<Rightarrow> bool \<Rightarrow> 'h EndpointConfig \<Rightarrow> carrier_io \<times> quic_io \<Rightarrow> managers
    \<Rightarrow> managers \<times> (go_error + ('h, 'v, 'w) Session)" where
  "Dial host pki windows config env heap =
    (if Ep_Handler config = None
     then (heap, Inl (Plain ''peer: a client requires a handler for the calls the peer makes''))
     else if Net_Endpoint (Ep_Network config) = [] then (heap, Inl (Plain ''peer: a client requires an endpoint''))
     else case buildCarrier host pki windows heap (Ep_Network config) (Ep_Security config) (Ep_Limits config) of
            Inl err \<Rightarrow> (heap, Inl err)
          | Inr carrier \<Rightarrow>
              carrier_Dial host pki carrier (Net_Endpoint (Ep_Network config)) (Ep_Handler config) env heap)"

text \<open>
  The listener of each carrier, and what it needs from the host: the outcome of the socket calls, of
  \<^verbatim>\<open>quic-go\<close>, the file system, and the process token with \<^verbatim>\<open>go-winio\<close>.
\<close>

datatype 'h built_listener =
    TCPListener "'h tcp_listener"
  | QUICListener "'h quic_listener"
  | UnixListener "'h unix_listener"
  | PipeListener "'h pipe_listener"

record listen_env =
  le_listen :: "string \<Rightarrow> go_error + nat"
  le_quic :: "string \<Rightarrow> TLSConfig \<Rightarrow> quicgo_Config \<Rightarrow> go_error + nat"
  le_fs :: unix_fs
  le_sid :: "string option"
  le_pipe :: "string \<Rightarrow> pipe_config \<Rightarrow> nat option"

definition carrier_Listen :: "host \<Rightarrow> built_carrier \<Rightarrow> string \<Rightarrow> 'h option \<Rightarrow> listen_env \<Rightarrow> go_error + 'h built_listener" where
  "carrier_Listen host carrier endpoint handler env =
    (case carrier of
       TCPCarrier cfg \<Rightarrow> map_sum id TCPListener (tcp_Listen host cfg endpoint handler (le_listen env))
     | QUICCarrier cfg \<Rightarrow> map_sum id QUICListener (quic_Listen host cfg (le_quic env) endpoint handler)
     | UnixCarrier cfg \<Rightarrow> map_sum id UnixListener (snd (unix_Listen host (le_fs env) cfg endpoint handler))
     | PipeCarrier cfg \<Rightarrow> map_sum id PipeListener (pipe_Listen cfg (le_sid env) (le_pipe env) endpoint handler))"

record 'h Server =
  srv_handler :: "'h option"
  srv_limit :: Limits
  srv_carrier :: built_carrier
  srv_listener :: "'h built_listener"

definition Listen :: "host \<Rightarrow> pki \<Rightarrow> bool \<Rightarrow> managers \<Rightarrow> 'h EndpointConfig \<Rightarrow> listen_env \<Rightarrow> go_error + 'h Server" where
  "Listen host pki windows heap config env =
    (if Ep_Handler config = None then Inl (Plain ''peer: a server requires a handler'')
     else if Net_Endpoint (Ep_Network config) = [] then Inl (Plain ''peer: a server requires an endpoint'')
     else case buildCarrier host pki windows heap (Ep_Network config) (Ep_Security config) (Ep_Limits config) of
            Inl err \<Rightarrow> Inl err
          | Inr carrier \<Rightarrow>
              (case carrier_Listen host carrier (Net_Endpoint (Ep_Network config)) (Ep_Handler config) env of
                 Inl err \<Rightarrow> Inl err
               | Inr listener \<Rightarrow> Inr \<lparr>srv_handler = Ep_Handler config, srv_limit = Ep_Limits config,
                                      srv_carrier = carrier, srv_listener = listener\<rparr>))"

text \<open>What the server reports about itself.\<close>

definition Server_Carrier :: "'h Server \<Rightarrow> string" where
  "Server_Carrier server = Carrier_Name (srv_carrier server)"

definition Server_Profile :: "'h Server \<Rightarrow> string" where
  "Server_Profile server = Carrier_Profile (srv_carrier server)"

definition Server_Encrypted :: "'h Server \<Rightarrow> bool" where
  "Server_Encrypted server = Carrier_Encrypted (srv_carrier server)"

definition Server_Authenticated :: "'h Server \<Rightarrow> bool" where
  "Server_Authenticated server = Carrier_Authenticated (srv_carrier server)"

text \<open>
  The methods of the listener port. \<open>bound\<close> gives the address of a socket; \<^verbatim>\<open>Close\<close> is given what
  closing the socket, the QUIC listener or the pipe returned, and \<open>once\<close> as for the pipe.
\<close>

definition Listener_Addr :: "(nat \<Rightarrow> string) \<Rightarrow> 'h built_listener \<Rightarrow> string" where
  "Listener_Addr bound listener =
    (case listener of
       TCPListener l \<Rightarrow> tcp_Addr bound l | QUICListener l \<Rightarrow> quic_Addr bound l
     | UnixListener l \<Rightarrow> unix_Addr l | PipeListener l \<Rightarrow> pipe_Addr l)"

definition Listener_Close :: "bool \<Rightarrow> go_error option \<Rightarrow> quic_close \<Rightarrow> 'h built_listener \<Rightarrow> bool \<times> go_error option" where
  "Listener_Close once closed quicClosed listener =
    (case listener of
       TCPListener _ \<Rightarrow> (True, tcp_Close closed) | QUICListener _ \<Rightarrow> (True, quic_Close quicClosed)
     | UnixListener _ \<Rightarrow> (True, unix_Close closed) | PipeListener _ \<Rightarrow> pipe_Close once closed)"

definition Server_Addr :: "(nat \<Rightarrow> string) \<Rightarrow> 'h Server \<Rightarrow> string" where
  "Server_Addr bound server = Listener_Addr bound (srv_listener server)"

definition Server_Close :: "bool \<Rightarrow> go_error option \<Rightarrow> quic_close \<Rightarrow> 'h Server \<Rightarrow> bool \<times> go_error option" where
  "Server_Close once closed quicClosed server = Listener_Close once closed quicClosed (srv_listener server)"

lemmas server_defs = Server_Carrier_def Carrier_Name_def Server_Profile_def Carrier_Profile_def Server_Encrypted_def Carrier_Encrypted_def
  Server_Authenticated_def Carrier_Authenticated_def Server_Addr_def Listener_Addr_def Server_Close_def Listener_Close_def
  unix_Encrypted_def unix_Authenticated_def pipe_Encrypted_def pipe_Authenticated_def

text \<open>Closing a server again succeeds, whatever its carrier.\<close>

lemma Server_Close_again:
  "closed = Some (Sentinel NetErrClosed) \<Longrightarrow> quicClosed = QAlreadyClosed \<Longrightarrow> snd (Server_Close True closed quicClosed server) = None"
  by (simp add: server_defs tcp_Close_def unix_Close_def quic_Close_def pipe_Close_def split: built_listener.splits)

text \<open>
  The loop of \<^verbatim>\<open>Sessions\<close>, one round per call of \<^verbatim>\<open>Accept\<close>: what \<^verbatim>\<open>ctx.Err\<close> says and what the listener
  returns. The result is the sessions whose \<^verbatim>\<open>serve\<close> goroutine was started and, once the loop has
  returned, its error.
\<close>

fun Sessions :: "(go_error option \<times> (go_error + 's)) list \<Rightarrow> 's list \<times> go_error option option" where
  "Sessions [] = ([], None)"
| "Sessions ((ctx, outcome) # rounds) =
    (case ctx of
       Some err \<Rightarrow> ([], Some (Some err))
     | None \<Rightarrow>
         (case outcome of
            Inl err \<Rightarrow> ([], Some (if errors_Is err ErrConnectionClosed then None else Some err))
          | Inr session \<Rightarrow> (case Sessions rounds of (served, r) \<Rightarrow> (session # served, r))))"

text \<open>
  The goroutine \<^verbatim>\<open>serve\<close> of an accepted session: whether it has returned. Every session of a carrier
  is one of the session engine and has \<^verbatim>\<open>Wait\<close>. Once the session has ended, it returns.
\<close>

definition serve :: "('h, 'v, 'w) Session \<Rightarrow> bool" where
  "serve session = Wait session"

lemma serve_returns:
  assumes "reachable pb ops cfg session" and "se_ended session"
  shows "\<exists>session'. (sess_step pb ops)\<^sup>*\<^sup>* session session' \<and> serve session'"
proof -
  obtain t where "(sess_step pb ops)\<^sup>*\<^sup>* session t" "reachable pb ops cfg t" "se_ended t" "se_reader t = ReaderDone"
    using reader_ends[OF assms] by blast
  then show ?thesis using drains unfolding serve_def Wait_def by (meson rtranclp_trans)
qed

section \<open>Revocation\<close>

definition facade_NewRevocationManager :: "pki \<Rightarrow> instant \<Rightarrow> bytes list \<Rightarrow> CRLCheckpoint option
    \<Rightarrow> go_error + RevocationManager" where
  "facade_NewRevocationManager pki now rootDER checkpoint = NewRevocationManager pki now rootDER checkpoint"

definition facade_CanonicalTrustRootsDigest :: "pki \<Rightarrow> bytes list \<Rightarrow> go_error + string" where
  "facade_CanonicalTrustRootsDigest pki rootDER = CanonicalTrustRootsDigest pki rootDER"

section \<open>No downgrade\<close>

text \<open>The state of a completed handshake, as TLS over a connection or \<^verbatim>\<open>quic-go\<close> reported it for a dialer.\<close>

definition handshake_reported :: "carrier_io \<times> quic_io \<Rightarrow> TLSConfig \<Rightarrow> ConnectionState \<Rightarrow> bool" where
  "handshake_reported env config state \<longleftrightarrow>
     (\<exists>raw. io_handshake (fst env) False config raw = Inr state)
     \<or> (\<exists>endpoint quicgo connection. q_dial (snd env) endpoint config quicgo = Inr (connection, state))"

definition secure_session :: "host \<Rightarrow> pki \<Rightarrow> carrier_io \<times> quic_io \<Rightarrow> Profile \<Rightarrow> managers \<Rightarrow> managers
    \<Rightarrow> ('h, 'v, 'w) Session \<Rightarrow> bool" where
  "secure_session host pki env p heap heap' s \<longleftrightarrow>
     (\<exists>client serverName alpn state now. prof_client p = Some client
        \<and> handshake_reported env (client\<lparr>Config_ServerName := serverName, Config_NextProtos := alpn\<rparr>) state
        \<and> peer_authenticated host pki now (Some p) heap heap' state (Peer s))"

lemma tls_config_client:
  "tls_config (Some p) serverName False = Some config \<longleftrightarrow>
     (\<exists>client. prof_client p = Some client \<and> config = client\<lparr>Config_ServerName := serverName\<rparr>)"
  by (auto simp: tls_config_def Profile_ClientConfig_def)

lemma secure_sessionI:
  assumes "tls_config (Some p) serverName False = Some client"
    "handshake_reported env (client\<lparr>Config_NextProtos := alpn\<rparr>) state"
    "peer_authenticated host pki now (Some p) heap heap' state (Peer s)"
  shows "secure_session host pki env p heap heap' s"
  using assms unfolding secure_session_def tls_config_client by force

lemma handshake_over_tls:
  "io_handshake (fst env) False config raw = Inr state \<Longrightarrow>
   handshake_reported env (config\<lparr>Config_NextProtos := Config_NextProtos config\<rparr>) state"
  by (auto simp: handshake_reported_def)

lemma handshake_over_quic:
  "q_dial (snd env) endpoint config quicgo = Inr (connection, state) \<Longrightarrow> handshake_reported env config state"
  by (auto simp: handshake_reported_def)

text \<open>A carrier that \<^verbatim>\<open>New\<close> returned for this profile.\<close>

definition built_for :: "host \<Rightarrow> Profile \<Rightarrow> built_carrier \<Rightarrow> bool" where
  "built_for host p carrier \<longleftrightarrow>
    (case carrier of
       TCPCarrier c \<Rightarrow> (\<exists>cfg. tcp_New host cfg = Inr c \<and> cc_Profile cfg = Some p)
     | QUICCarrier c \<Rightarrow> (\<exists>cfg. quic_New host cfg = Inr c \<and> cc_Profile cfg = Some p)
     | UnixCarrier c \<Rightarrow> (\<exists>cfg. unix_New host cfg = Inr c \<and> cc_Profile cfg = Some p)
     | PipeCarrier c \<Rightarrow> (\<exists>cfg. pipe_New host cfg = Inr c \<and> cc_Profile cfg = Some p))"

lemma tcp_New_Inr: "tcp_New host cfg = Inr carrier \<Longrightarrow> cc_Profile carrier = cc_Profile cfg"
  by (auto simp: tcp_New_def split: if_splits sum.splits)

lemma map_sum_Inr: "map_sum id f x = Inr y \<longleftrightarrow> (\<exists>z. x = Inr z \<and> y = f z)"
  by (cases x) auto

lemma buildCarrier_Inr:
  assumes "buildCarrier host pki windows heap network c limits = Inr carrier"
  obtains p where "resolveProfile host pki heap c = Inr p" "built_for host p carrier"
    "prof_encrypted p \<or> loopback_endpoint host (Net_Endpoint network)"
    "\<not> prof_encrypted p \<Longrightarrow> Net_Carrier network = ''tcp''"
proof -
  obtain p where p: "resolveProfile host pki heap c = Inr p"
    and r: "RequireEncryptedEndpointContext host (Some p) (Net_Endpoint network) = None"
    using assms by (auto simp: buildCarrier_def split: sum.splits option.splits)
  have "built_for host p carrier"
    using assms p r unfolding built_for_def
    by (auto simp: buildCarrier_def map_sum_Inr other_New_def Let_def carrier_config.defs split: if_splits)
      (metis carrier_config.select_convs(1) quic_config.select_convs)+
  moreover have "Net_Carrier network = ''tcp''" if "\<not> prof_encrypted p"
  proof -
    have "\<not> Encrypted (Some p)" using that by (simp add: Encrypted_def)
    then show ?thesis using assms p r
      by (auto simp: buildCarrier_def map_sum_Inr other_New_def Let_def carrier_config.defs
          dest: quic_New_Inr unix_New_Inr pipe_New_Inr split: if_splits)
  qed
  ultimately show ?thesis using that p r by (simp add: RequireEncryptedEndpoint_None)
qed

text \<open>Each carrier keeps its contract, so the carrier that was built does.\<close>

lemma carrier_Dial_secure:
  assumes "built_for host p carrier" "prof_encrypted p"
    "carrier_Dial host pki carrier endpoint handler env heap = (heap', Inr s)"
  shows "secure_session host pki env p heap heap' s"
proof (cases carrier)
  case (TCPCarrier c)
  then have p: "cc_Profile c = Some p" using assms(1) by (auto simp: built_for_def dest: tcp_New_Inr)
  then show ?thesis
    using tcp_dialer.attempt_secure[of host pki c endpoint handler "fst env" heap heap' s] assms(2,3) TCPCarrier
    by (auto simp: carrier_Dial_def Encrypted_def intro!: secure_sessionI dest: handshake_over_tls)
next
  case (QUICCarrier c)
  then obtain cfg where new: "quic_New host cfg = Inr c" and p: "cc_Profile cfg = Some p"
    using assms(1) by (auto simp: built_for_def)
  have "quic_connect host pki cfg endpoint handler (snd env) heap = (heap', Inr s)"
    using assms(3) QUICCarrier new by (simp add: carrier_Dial_def quic_connect_def)
  from quic_dialer.attempt_secure[OF this] show ?thesis
    using assms(2) p by (auto simp: Encrypted_def intro!: secure_sessionI dest: handshake_over_quic)
next
  case (UnixCarrier c)
  then obtain cfg where new: "unix_New host cfg = Inr c" and p: "cc_Profile cfg = Some p"
    using assms(1) by (auto simp: built_for_def)
  have "unix_connect host pki cfg endpoint handler (fst env) heap = (heap', Inr s)"
    using assms(3) UnixCarrier new by (simp add: carrier_Dial_def unix_connect_def)
  from unix_dialer.attempt_secure[OF this] show ?thesis
    using assms(2) p by (auto simp: Encrypted_def intro!: secure_sessionI dest: handshake_over_tls)
next
  case (PipeCarrier c)
  then obtain cfg where new: "pipe_New host cfg = Inr c" and p: "cc_Profile cfg = Some p"
    using assms(1) by (auto simp: built_for_def)
  have "pipe_connect host pki cfg endpoint handler (fst env) heap = (heap', Inr s)"
    using assms(3) PipeCarrier new by (simp add: carrier_Dial_def pipe_connect_def)
  from pipe_dialer.attempt_secure[OF this] show ?thesis
    using assms(2) p by (auto simp: Encrypted_def intro!: secure_sessionI dest: handshake_over_tls)
qed

lemma carrier_Dial_plain:
  assumes "built_for host p carrier" "\<not> prof_encrypted p"
    "carrier_Dial host pki carrier endpoint handler env heap = (heap', Inr s)"
  shows "heap' = heap \<and> Peer s = no_identity \<and> loopback_endpoint host endpoint"
proof (cases carrier)
  case (TCPCarrier c)
  then have p: "cc_Profile c = Some p" using assms(1) by (auto simp: built_for_def dest: tcp_New_Inr)
  show ?thesis
    using tcp_dialer.attempt_plain[of host pki c endpoint handler "fst env" heap heap' s] assms(2,3) TCPCarrier p
    by (simp add: carrier_Dial_def Encrypted_def)
qed (use assms(1,2) in \<open>auto simp: built_for_def Encrypted_def dest!: quic_New_Inr unix_New_Inr pipe_New_Inr\<close>)

lemma resolveProfile_plain:
  "resolveProfile host pki heap c = Inr p \<Longrightarrow> prof_encrypted p \<longleftrightarrow> \<not> Sec_PlaintextLoopback c"
  by (auto simp: resolveProfile_def LoopbackPlaintext_def dest: MTLS_Inr(1) split: if_splits)

text \<open>
  What a secure client rests on: a completed handshake under a TLS configuration that requires TLS 1.3,
  verifies the chain against the configured trust and consults the configured manager; an identity that
  is the one URI name of the peer's leaf certificate and the pinned one; and the manager's admission of
  the verified chains.
\<close>

definition authenticated_client :: "host \<Rightarrow> pki \<Rightarrow> carrier_io \<times> quic_io \<Rightarrow> managers \<Rightarrow> SecurityConfig
    \<Rightarrow> ('h, 'v, 'w) Session \<Rightarrow> bool" where
  "authenticated_client host pki env heap c s \<longleftrightarrow> (\<exists>tls state leaf rest uri now.
      VersionTLS13 \<le> Config_MinVersion tls \<and> \<not> Config_InsecureSkipVerify tls
      \<and> Config_RootCAs tls = (case Sec_Revocation c of None \<Rightarrow> Sec_Roots c | Some r \<Rightarrow> Some (rm_roots (heap r)))
      \<and> Config_VerifyConnection tls = Sec_Revocation c
      \<and> handshake_reported env tls state
      \<and> PeerCertificates state = leaf # rest \<and> Cert_URIs leaf = [uri] \<and> Identity host uri = Inr (Peer s)
      \<and> (Sec_PeerIdentity c \<noteq> [] \<longrightarrow> URI (Peer s) = Sec_PeerIdentity c)
      \<and> (\<forall>r. Sec_Revocation c = Some r \<longrightarrow> VerifyChain pki now (Some (heap r)) (VerifiedChains state) = None))"

lemma secure_session_authenticated:
  assumes "secure_session host pki env p heap heap' s" "resolveProfile host pki heap c = Inr p" "\<not> Sec_PlaintextLoopback c"
  shows "authenticated_client host pki env heap c s"
proof -
  obtain client serverName alpn state now where cl: "prof_client p = Some client"
    and hs: "handshake_reported env (client\<lparr>Config_ServerName := serverName, Config_NextProtos := alpn\<rparr>) state"
    and auth: "peer_authenticated host pki now (Some p) heap heap' state (Peer s)"
    using assms(1) unfolding secure_session_def by blast
  obtain cred where m: "MTLS host pki heap cred = Inr p" and c: "Cred_PeerIdentity cred = Sec_PeerIdentity c"
    "Cred_Revocation cred = Sec_Revocation c" "Cred_PeerRoots cred = Sec_Roots c"
    using assms(2,3) by (auto simp: resolveProfile_def split: if_splits)
  let ?tls = "client\<lparr>Config_ServerName := serverName, Config_NextProtos := alpn\<rparr>"
  have "VersionTLS13 \<le> Config_MinVersion ?tls \<and> \<not> Config_InsecureSkipVerify ?tls
      \<and> Config_RootCAs ?tls = (case Sec_Revocation c of None \<Rightarrow> Sec_Roots c | Some r \<Rightarrow> Some (rm_roots (heap r)))
      \<and> Config_VerifyConnection ?tls = Sec_Revocation c"
    using MTLS_Inr(7)[OF m] cl c by (auto simp: trust_pool_def split: option.splits)
  moreover have "\<forall>r. Sec_Revocation c = Some r \<longrightarrow> VerifyChain pki now (Some (heap r)) (VerifiedChains state) = None"
    using auth MTLS_Inr(4)[OF m] c by (auto simp: peer_authenticated_def)
  moreover obtain leaf rest uri where "PeerCertificates state = leaf # rest" "Cert_URIs leaf = [uri]"
    "Identity host uri = Inr (Peer s)" "Sec_PeerIdentity c \<noteq> [] \<longrightarrow> URI (Peer s) = Sec_PeerIdentity c"
    using auth MTLS_Inr(3)[OF m] c by (auto simp: peer_authenticated_def VerifyPeer_Inr)
  ultimately show ?thesis unfolding authenticated_client_def using hs by blast
qed

text \<open>
  C5. There is no path from a configuration that asks for security to an insecure session. A client
  that Dial returns was either configured for the plaintext profile: then the carrier is TCP, the
  endpoint is on the loopback, no peer identity is claimed, and no credentials were given; or TLS
  reported a completed handshake under a configuration that requires TLS 1.3, verifies the chain
  against the configured trust and consults the configured revocation manager; the identity of the
  session is then the one URI name of the peer's leaf certificate, it is the pinned one if there is a
  pin, and the manager admitted the verified chains.
\<close>

theorem Dial_no_downgrade:
  assumes "Dial host pki windows config env heap = (heap', Inr s)"
  shows "if Sec_PlaintextLoopback (Ep_Security config)
    then Net_Carrier (Ep_Network config) = ''tcp'' \<and> loopback_endpoint host (Net_Endpoint (Ep_Network config))
      \<and> Peer s = no_identity \<and> heap' = heap \<and> TLS_Certificate (Sec_Certificate (Ep_Security config)) = []
      \<and> Sec_PeerIdentity (Ep_Security config) = []
    else authenticated_client host pki env heap (Ep_Security config) s"
proof -
  obtain carrier where built: "buildCarrier host pki windows heap (Ep_Network config) (Ep_Security config) (Ep_Limits config) = Inr carrier"
    and dial: "carrier_Dial host pki carrier (Net_Endpoint (Ep_Network config)) (Ep_Handler config) env heap = (heap', Inr s)"
    using assms by (auto simp: Dial_def split: if_splits sum.splits)
  obtain p where p: "resolveProfile host pki heap (Ep_Security config) = Inr p" "built_for host p carrier"
    "\<not> prof_encrypted p \<Longrightarrow> Net_Carrier (Ep_Network config) = ''tcp''"
    using buildCarrier_Inr[OF built] by blast
  show ?thesis
  proof (cases "Sec_PlaintextLoopback (Ep_Security config)")
    case True
    then show ?thesis
      using carrier_Dial_plain[OF p(2) _ dial] resolveProfile_plain[OF p(1)] p(1,3)
      by (auto simp: resolveProfile_def split: if_splits)
  next
    case False
    then show ?thesis
      using secure_session_authenticated[OF carrier_Dial_secure[OF p(2) _ dial] p(1) False] resolveProfile_plain[OF p(1)]
      by simp
  qed
qed

definition sample_config :: "nat EndpointConfig" where
  "sample_config = \<lparr>Ep_Network = \<lparr>Net_Carrier = ''tcp'', Net_Endpoint = ''a:1'', Net_ServerName = ''a'', Net_KeepAlive = 0,
       Net_HandshakeTimeout = 0\<rparr>,
     Ep_Security = \<lparr>Sec_Identity = ''spiffe://a/b'', Sec_Certificate = Cred_Certificate sample_credentials,
       Sec_Roots = Some [sample_leaf], Sec_PeerIdentity = ''spiffe://a/b'', Sec_Revocation = None,
       Sec_PlaintextLoopback = False\<rparr>,
     Ep_Handler = Some 1, Ep_Limits = DefaultLimits\<rparr>"

definition sample_io :: carrier_io where
  "sample_io = \<lparr>io_now = 0, io_ctxDeadline = None, io_dial = (\<lambda>_. Inr 3), io_close = (\<lambda>_. None),
     io_setDeadline = (\<lambda>_ _. None),
     io_handshake = (\<lambda>_ _ _. Inr \<lparr>PeerCertificates = [sample_leaf], VerifiedChains = [[sample_leaf]]\<rparr>),
     io_clearDeadline = (\<lambda>_. None), io_fresh = 0, io_link = (\<lambda>_. (\<lparr>tr_accepted = [], tr_script = [], tr_closed = False\<rparr>, \<lparr>src_bytes = [], src_end = Sentinel IoEOF\<rparr>))\<rparr>"

definition sample_quic_io :: quic_io where
  "sample_quic_io = \<lparr>q_dial = (\<lambda>_ _ _. Inl (Plain [])), q_openStream = (\<lambda>_. Inl (Plain [])),
     q_acceptStream = (\<lambda>_. Inl (Plain [])), q_closeConnection = (\<lambda>_. None), q_closeStream = (\<lambda>_. None),
     q_io = sample_io\<rparr>"

lemma sample_Identity: "Identity sample_host ''spiffe://a/b'' = Inr \<lparr>URI = ''spiffe://a/b''\<rparr>"
  by (simp add: Identity_def sample_host_def)

lemma sample_Dial:
  "\<exists>s :: (nat, 'v, 'w) Session. Dial sample_host sample_pki False sample_config (sample_io, sample_quic_io) heap = (heap, Inr s)"
proof -
  have "PeerIdentityOf sample_host \<lparr>PeerCertificates = [sample_leaf], VerifiedChains = [[sample_leaf]]\<rparr> = Inr \<lparr>URI = ''spiffe://a/b''\<rparr>"
    by (simp add: PeerIdentityOf_def IdentityOf_def sample_leaf_def sample_Identity)
  then show ?thesis
  by (simp add: Dial_def sample_config_def buildCarrier_def resolveProfile_def MTLS_def sample_credentials_def
      sample_Identity own_leaf_def IdentityOf_def sample_leaf_def strings_HasPrefix_def Let_def
      RequireEncryptedEndpointContext_def tcp_New_def Encrypted_def Authenticated_def localIdentity_def
      carrier_Dial_def tcp_Dial_def tcp_authenticate_def tls_authenticate_def sample_io_def
      tls_config_def Profile_ClientConfig_def VerifyPeer_def Profile_TrackConnection_def)
qed

theorem Dial_no_downgrade_witness:
  "\<exists>s :: (nat, nat, nat) Session.
     Dial sample_host sample_pki False sample_config (sample_io, sample_quic_io) (\<lambda>_. sample_manager) = ((\<lambda>_. sample_manager), Inr s)
     \<and> authenticated_client sample_host sample_pki (sample_io, sample_quic_io) (\<lambda>_. sample_manager) (Ep_Security sample_config) s"
proof -
  obtain s :: "(nat, nat, nat) Session" where
    d: "Dial sample_host sample_pki False sample_config (sample_io, sample_quic_io) (\<lambda>_. sample_manager) = ((\<lambda>_. sample_manager), Inr s)"
    using sample_Dial by blast
  from Dial_no_downgrade[OF d] show ?thesis using d by (auto simp: sample_config_def)
qed

section \<open>One bad peer cannot stop the endpoint\<close>

text \<open>Why the session of an accepting TCP listener may exist.\<close>

definition accepted_peer :: "host \<Rightarrow> pki \<Rightarrow> carrier_config \<Rightarrow> managers \<Rightarrow> managers \<Rightarrow> carrier_io \<Rightarrow> nat \<Rightarrow> PeerIdentity \<Rightarrow> bool" where
  "accepted_peer host pki cfg heap heap' io raw remote \<longleftrightarrow>
    (if Encrypted (cc_Profile cfg)
     then \<exists>config state. Profile_ServerConfig (cc_Profile cfg) = Some config
        \<and> io_handshake io True config raw = Inr state
        \<and> peer_authenticated host pki (io_now io) (cc_Profile cfg) heap heap' state remote
     else heap' = heap \<and> remote = no_identity)"

lemma tcp_authenticate_accepted:
  "tcp_authenticate host pki cfg endpoint True io heap raw = (heap', Inr (link, remote)) \<Longrightarrow>
   accepted_peer host pki cfg heap heap' io raw remote"
  by (auto simp: tcp_authenticate_def accepted_peer_def tls_config_def dest!: tls_authenticate_Inr split: if_splits)

text \<open>
  C34. A peer that fails to authenticate costs the listener its own connection and nothing else: after
  any number of rejected connections Accept goes on exactly as if they had never arrived, with the
  revocation state unchanged; and a session it returns belongs to one of the connections that arrived,
  whose peer passed the handshake under the server's configuration, the identity check and the
  revocation check, or, without encryption, is not given an identity.
\<close>

theorem Accept_survives_bad_peers:
  assumes "\<forall>r\<in>set bad. rejected_round (tcp_authenticate host pki (tl_carrier l) [] True) heap r"
  shows "tcp_Accept host pki l heap (bad @ rs) = tcp_Accept host pki l heap rs
    \<and> (tcp_Accept host pki l heap rs = (heap', Session s) \<longrightarrow>
        (\<exists>r\<in>set rs. \<exists>raw. ar_accept r = Inr raw
           \<and> accepted_peer host pki (tl_carrier l) heap heap' (ar_io r) raw (Peer s)))"
proof -
  have "\<exists>r\<in>set rs. \<exists>raw. ar_accept r = Inr raw \<and> accepted_peer host pki (tl_carrier l) heap heap' (ar_io r) raw (Peer s)"
    if acc: "tcp_Accept host pki l heap rs = (heap', Session s)"
  proof -
    obtain r raw link remote where "r \<in> set rs" "ar_accept r = Inr raw"
      "tcp_authenticate host pki (tl_carrier l) [] True (ar_io r) heap raw = (heap', Inr (link, remote))"
      "s = carrier_session (tl_carrier l) (ar_io r) link remote RoleServer (tl_handler l)"
      using accept_loop_Session[OF acc[unfolded tcp_Accept_def]] tcp_authenticate_Inl by blast
    then show ?thesis using tcp_authenticate_accepted by fastforce
  qed
  then show ?thesis using accept_loop_rejected[OF assms] by (simp add: tcp_Accept_def)
qed

definition sample_profile :: Profile where
  "sample_profile = (case resolveProfile sample_host sample_pki (\<lambda>_. sample_manager) (Ep_Security sample_config) of
     Inl _ \<Rightarrow> LoopbackPlaintext | Inr p \<Rightarrow> p)"

definition sample_listener :: "nat tcp_listener" where
  "sample_listener = \<lparr>tl_carrier = \<lparr>cc_Profile = Some sample_profile, cc_Local = no_identity,
      cc_ServerName = [], cc_Limits = DefaultLimits, cc_KeepAlive = 0, cc_HandshakeTimeout = 1\<rparr>,
     tl_socket = 0, tl_handler = 1\<rparr>"

lemma sample_profile_server:
  "\<exists>config. tls_config (Some sample_profile) name True = Some config" "Encrypted (Some sample_profile)"
  by (simp_all add: sample_profile_def sample_config_def resolveProfile_def MTLS_def sample_credentials_def
      sample_Identity own_leaf_def IdentityOf_def sample_leaf_def strings_HasPrefix_def tls_config_def
      Profile_ServerConfig_def Encrypted_def Let_def)

theorem Accept_survives_bad_peers_witness:
  "tcp_Accept sample_host sample_pki sample_listener (\<lambda>_. sample_manager)
     [\<lparr>ar_ctx = None, ar_accept = Inr 4, ar_io = sample_io\<lparr>io_handshake := (\<lambda>_ _ _. Inl (Plain ''bad certificate''))\<rparr>\<rparr>]
   = (((\<lambda>_. sample_manager), Waiting) :: managers \<times> (nat, nat, nat) Session accepted)"
proof -
  let ?r = "\<lparr>ar_ctx = None, ar_accept = Inr 4, ar_io = sample_io\<lparr>io_handshake := (\<lambda>_ _ _. Inl (Plain ''bad certificate''))\<rparr>\<rparr>"
  have "rejected_round (tcp_authenticate sample_host sample_pki (tl_carrier sample_listener) [] True) (\<lambda>_. sample_manager) ?r"
    using sample_profile_server
    by (auto simp: rejected_round_def tcp_authenticate_def tls_authenticate_def sample_listener_def sample_io_def
        split: option.splits)
  then show ?thesis
    using Accept_survives_bad_peers[of "[?r]" sample_host sample_pki sample_listener "\<lambda>_. sample_manager" "[]"]
    by (simp add: tcp_Accept_def)
qed

section \<open>What a server says about itself\<close>

text \<open>The settings of a carrier that are ready to use: no zero value is left for the engine to trip over.\<close>

definition settings_resolved :: "('m) carrier_config_scheme \<Rightarrow> bool" where
  "settings_resolved c \<longleftrightarrow> limits_effective (cc_Limits c) \<and> 0 < cc_HandshakeTimeout c \<and> cc_Profile c \<noteq> None"

definition carrier_resolved :: "built_carrier \<Rightarrow> bool" where
  "carrier_resolved carrier \<longleftrightarrow> (case carrier of
     TCPCarrier c \<Rightarrow> settings_resolved c
   | QUICCarrier c \<Rightarrow> settings_resolved c \<and> 0 < qc_MaxIdleTimeout c
   | UnixCarrier c \<Rightarrow> settings_resolved c
   | PipeCarrier c \<Rightarrow> settings_resolved c)"

lemma New_settings:
  "tcp_New host cfg = Inr c \<Longrightarrow> settings_resolved c"
  "quic_New host qcfg = Inr q \<Longrightarrow> settings_resolved q \<and> 0 < qc_MaxIdleTimeout q"
  "unix_New host cfg = Inr c \<Longrightarrow> settings_resolved c"
  "pipe_New host cfg = Inr c \<Longrightarrow> settings_resolved c"
  by (auto simp: settings_resolved_def tcp_New_def quic_New_def unix_New_def pipe_New_def WithDefaults_effective
      split: if_splits sum.splits)

lemma built_for_resolved: "built_for host p carrier \<Longrightarrow> carrier_resolved carrier"
  by (auto simp: built_for_def carrier_resolved_def dest: New_settings split: built_carrier.splits)

lemma built_for_reports:
  assumes "built_for host p (srv_carrier server)"
  shows "Server_Encrypted server = prof_encrypted p"
    "Server_Authenticated server = prof_authenticated p" "Server_Profile server = prof_name p"
  using assms
  by (auto simp: built_for_def server_defs
      tcp_Encrypted_def tcp_Authenticated_def tcp_Profile_def quic_Encrypted_def quic_Authenticated_def quic_Profile_def
      unix_Profile_def pipe_Profile_def Encrypted_def Authenticated_def Profile_Name_def
      dest!: tcp_New_Inr quic_New_Inr unix_New_Inr pipe_New_Inr split: built_carrier.splits)

lemma buildCarrier_name:
  "buildCarrier host pki windows heap network c limits = Inr carrier \<Longrightarrow> srv_carrier server = carrier \<Longrightarrow>
   Server_Carrier server = Net_Carrier network"
  by (auto simp: buildCarrier_def server_defs tcp_Name_def map_sum_Inr other_New_def Let_def
      split: sum.splits option.splits if_splits)

lemma resolveProfile_report:
  "resolveProfile host pki heap c = Inr p \<Longrightarrow> prof_encrypted p = (\<not> Sec_PlaintextLoopback c)
     \<and> prof_authenticated p = (\<not> Sec_PlaintextLoopback c)
     \<and> prof_name p = (if Sec_PlaintextLoopback c then NameLoopbackPlaintext else NameMTLS)"
  by (auto simp: resolveProfile_def LoopbackPlaintext_def dest: MTLS_Inr split: if_splits)

text \<open>
  C35. A server is well formed and reports the truth about itself: it runs the carrier that was
  configured, it says that it encrypts, authenticates and uses mutual TLS exactly when the plaintext
  profile was not asked for, the plaintext profile is only ever served on the loopback, and every
  setting of its carrier was resolved to a usable value: positive limits, a positive handshake
  timeout, a profile, and on QUIC a positive idle timeout.
\<close>

theorem Listen_reports_truthfully:
  assumes "Listen host pki windows heap config env = Inr server"
  shows "Server_Carrier server = Net_Carrier (Ep_Network config)
    \<and> Server_Encrypted server = (\<not> Sec_PlaintextLoopback (Ep_Security config))
    \<and> Server_Authenticated server = (\<not> Sec_PlaintextLoopback (Ep_Security config))
    \<and> Server_Profile server = (if Sec_PlaintextLoopback (Ep_Security config) then NameLoopbackPlaintext else NameMTLS)
    \<and> (Server_Encrypted server \<or> loopback_endpoint host (Net_Endpoint (Ep_Network config)))
    \<and> carrier_resolved (srv_carrier server)"
proof -
  obtain carrier where built: "buildCarrier host pki windows heap (Ep_Network config) (Ep_Security config) (Ep_Limits config) = Inr carrier"
    and srv: "srv_carrier server = carrier"
    using assms by (auto simp: Listen_def split: if_splits sum.splits)
  obtain p where p: "resolveProfile host pki heap (Ep_Security config) = Inr p" "built_for host p (srv_carrier server)"
    "prof_encrypted p \<or> loopback_endpoint host (Net_Endpoint (Ep_Network config))"
    using buildCarrier_Inr[OF built] srv by blast
  show ?thesis
    using buildCarrier_name[OF built srv] built_for_reports[OF p(2)] resolveProfile_report[OF p(1)]
      built_for_resolved[OF p(2)] p(3) by simp
qed

definition sample_listen_env :: listen_env where
  "sample_listen_env = \<lparr>le_listen = (\<lambda>_. Inr 9), le_quic = (\<lambda>_ _ _. Inl (Plain [])), le_fs = sample_fs, le_sid = None,
     le_pipe = (\<lambda>_ _. None)\<rparr>"

lemma sample_Listen: "\<exists>server. Listen sample_host sample_pki False heap sample_config sample_listen_env = Inr server"
  by (simp add: Listen_def sample_config_def buildCarrier_def resolveProfile_def MTLS_def sample_credentials_def
      sample_Identity own_leaf_def IdentityOf_def sample_leaf_def strings_HasPrefix_def Let_def
      RequireEncryptedEndpointContext_def RequireEncryptedEndpoint_def tcp_New_def Encrypted_def Authenticated_def
      localIdentity_def carrier_Listen_def tcp_Listen_def sample_listen_env_def)

theorem Listen_reports_truthfully_witness:
  "\<exists>server. Listen sample_host sample_pki False (\<lambda>_. sample_manager) sample_config sample_listen_env = Inr server
     \<and> Server_Encrypted server \<and> Server_Authenticated server \<and> carrier_resolved (srv_carrier server)"
proof -
  obtain server where l: "Listen sample_host sample_pki False (\<lambda>_. sample_manager) sample_config sample_listen_env = Inr server"
    using sample_Listen by blast
  from Listen_reports_truthfully[OF l] l show ?thesis by (auto simp: sample_config_def)
qed

end
