(* ===== verification/Session_Wire.thy ===== *)
theory Session_Wire
  imports Session_Properties Router
begin

text \<open>
  The engine and the router composed over a connection: a call of one endpoint, as the sequence of the
  operations that the two sessions and the application's handler run for it, against the in-process
  call of the same router.
\<close>

section \<open>One call over a connection\<close>

text \<open>
  The read loop takes the bytes that arrived: it reads one frame and dispatches it. \<open>sent\<close> is what a
  session put on its connection between two states.
\<close>

definition receive :: "proto \<Rightarrow> ('h, 'v, 'w) handler_ops \<Rightarrow> int \<Rightarrow> bytes \<Rightarrow> ('h, 'v, 'w) Session \<Rightarrow> ('h, 'v, 'w) Session" where
  "receive pb ops now arrived s =
    readLoop_dispatch pb ops now True (readLoop_read (s\<lparr>se_source := (se_source s)\<lparr>src_bytes := arrived\<rparr>\<rparr>))"

definition sent :: "('h, 'v, 'w) Session \<Rightarrow> ('a, 'b, 'c) Session \<Rightarrow> bytes" where
  "sent before after = drop (length (tr_accepted (se_transport before))) (tr_accepted (se_transport after))"

text \<open>The goroutine of a call that was admitted since \<open>before\<close>: the consumer's handler, then the reply.\<close>

definition run_call :: "('c \<Rightarrow> go_error option \<Rightarrow> Call \<Rightarrow> Result outcome) \<Rightarrow> 'c call_serve call_task \<Rightarrow> Result outcome" where
  "run_call run t = (case ct_serve t of CallServe registered _ \<Rightarrow>
     run registered None (serve_call_request (ct_serve t) (ct_request t)))"

type_synonym ('c, 's) router_session = "(('c, 's) Router option, 'c call_serve, 's stream_serve) Session"

definition serve_admitted :: "proto \<Rightarrow> ('c \<Rightarrow> go_error option \<Rightarrow> Call \<Rightarrow> Result outcome)
    \<Rightarrow> ('c, 's) router_session \<Rightarrow> ('c, 's) router_session \<Rightarrow> ('c, 's) router_session" where
  "serve_admitted pb run before s =
    (case se_callTasks s of
       [] \<Rightarrow> s
     | t # _ \<Rightarrow>
         if length (se_callTasks before) < length (se_callTasks s)
         then finish_call pb router_ops t (run_call run t) s else s)"

definition wire_call :: "proto \<Rightarrow> ('h, 'v, 'w) handler_ops \<Rightarrow> ('c \<Rightarrow> go_error option \<Rightarrow> Call \<Rightarrow> Result outcome) \<Rightarrow> int
    \<Rightarrow> string \<Rightarrow> bytes \<Rightarrow> ('h, 'v, 'w) Session \<Rightarrow> ('c, 's) router_session
    \<Rightarrow> ('h, 'v, 'w) Session \<times> ('c, 's) router_session \<times> (go_error + Result) option" where
  "wire_call pb ops run now meth payload client server =
    (case Call_check pb meth payload client of
       Inl err \<Rightarrow> (client, server, Some (Inl err))
     | Inr body \<Rightarrow>
         (case Call_send body client of
            (client1, Inl err) \<Rightarrow> (client1, server, Some (Inl err))
          | (client1, Inr caller) \<Rightarrow>
              let server1 = receive pb router_ops now (sent client client1) server;
                  server2 = serve_admitted pb run server server1;
                  client2 = receive pb ops now (sent server server2) client1
              in (case Call_finish pb True None caller client2 of (client3, r) \<Rightarrow> (client3, server2, r))))"

text \<open>
  What the caller is told: the result, or the error that stands for the class of the failure. A result that has no
  encoding is an internal error of the server.
\<close>

definition wire_result :: "proto \<Rightarrow> go_error + Result \<Rightarrow> go_error + Result" where
  "wire_result pb r = (case r of
     Inl err \<Rightarrow> Inl (the (StatusCode_Err (StatusOf (Some err))))
   | Inr result \<Rightarrow>
       (case encodeResult pb (Result_Payload result) of Inl err \<Rightarrow> Inl (Sentinel ErrInternal) | Inr body \<Rightarrow> Inr result))"

section \<open>The pieces\<close>

definition wire_ready :: "('h, 'v, 'w) Session \<Rightarrow> bool" where
  "wire_ready s \<longleftrightarrow> accepting (se_transport s) \<and> se_reader s = Reading \<and> \<not> se_ended s \<and> se_ctx s = None
     \<and> 0 < MaxMessageBytes (se_limits s)"

text \<open>The notice of a failure, with the text of its status code, is always encodable.\<close>

definition proto_total :: "proto \<Rightarrow> bool" where
  "proto_total pb \<longleftrightarrow> (\<forall>c. mc_marshal (pb_Failure pb) (mkFailure (ucast c) (StatusCode_String c)) \<noteq> None)"

definition reply_frame :: "proto \<Rightarrow> u64 \<Rightarrow> go_error + Result \<Rightarrow> Frame" where
  "reply_frame pb i r = (case r of
     Inl err \<Rightarrow> endFrame pb i (StatusOf (Some err))
   | Inr result \<Rightarrow>
       (case encodeResult pb (Result_Payload result) of
          Inl err \<Rightarrow> endFrame pb i StatusInternal
        | Inr payload \<Rightarrow> \<lparr>Frame_Type = FrameCallResult, Frame_StreamID = i, Frame_Payload = payload\<rparr>))"

lemma call_reply_frame: "call_reply pb i r s = sendFrame (reply_frame pb i r) s"
  by (simp add: call_reply_def reply_frame_def split: sum.splits)

lemma sendFrame_accepting:
  "accepting (se_transport s) \<Longrightarrow> frame_fits (MaxMessageBytes (se_limits s)) f \<Longrightarrow> 0 < MaxMessageBytes (se_limits s) \<Longrightarrow>
   sendFrame f s = s\<lparr>se_transport := (se_transport s)\<lparr>tr_accepted := tr_accepted (se_transport s) @ frame_encode f\<rparr>\<rparr>"
  by (simp add: sendFrame_def writeFrame_accepting)

lemma receive_frame:
  assumes "wire_ready s" "frame_fits (MaxMessageBytes (se_limits s)) f"
  shows "receive pb ops now (frame_encode f) s
    = readLoop_continue (dispatch pb ops now True f (s\<lparr>se_source := (se_source s)\<lparr>src_bytes := []\<rparr>, se_reader := Holding f\<rparr>))"
proof -
  have "ReadFrame (NewReader (MaxMessageBytes (se_limits s))) ((se_source s)\<lparr>src_bytes := frame_encode f\<rparr>)
      = (Inr f, (se_source s)\<lparr>src_bytes := []\<rparr>)"
    using assms ReadFrame_encode[of f "NewReader (MaxMessageBytes (se_limits s))" "(se_source s)\<lparr>src_bytes := frame_encode f\<rparr>" "[]"]
    by (simp add: frame_fits_def wire_ready_def NewReader_def)
  then show ?thesis
    using assms(1) by (simp add: receive_def readLoop_read_def readLoop_dispatch_def wire_ready_def accepting_def)
qed

text \<open>A status code survives its trip through the wider field of the message.\<close>

lemma status_code_ucast: "(ucast (ucast (c :: StatusCode) :: u32) :: StatusCode) = c" "(ucast (c :: StatusCode) :: u32) \<le> 255"
proof -
  show "(ucast (ucast c :: u32) :: StatusCode) = c" by (rule bit_word_eqI) (simp add: bit_ucast_iff)
  have "unat (ucast c :: u32) = unat c"
    by (rule bit_eqI) (auto simp: bit_unsigned_iff bit_ucast_iff dest: bit_imp_le_length)
  moreover have "unat c < 2 ^ LENGTH(8)" by (rule unsigned_less)
  ultimately show "(ucast c :: u32) \<le> 255" by (simp add: word_le_nat_alt)
qed

lemma StatusOf_error: "\<exists>e. StatusCode_Err (StatusOf (Some err)) = Some e"
  by (simp add: StatusOf_def StatusCode_Err_def)

text \<open>What the engine relies on of the protobuf runtime, and what follows for the frames that end an invocation.\<close>

locale message_runtime =
  fixes pb :: proto
  assumes roundtrip: "proto_roundtrip pb"
    and total: "proto_total pb"
begin

lemma endFrame_decodes:
  shows "Frame_Type (endFrame pb i c) = FrameStreamEnd" "Frame_StreamID (endFrame pb i c) = i"
    "decodeFailure pb (Frame_Payload (endFrame pb i c)) = Inr (StatusCode_Err c)"
proof -
  obtain b where b: "mc_marshal (pb_Failure pb) (mkFailure (ucast c) (StatusCode_String c)) = Some b"
    using total by (auto simp: proto_total_def)
  have u: "mc_unmarshal (pb_Failure pb) b = Some (mkFailure (ucast c) (StatusCode_String c))"
    using roundtrip b by (auto simp: proto_roundtrip_def intro: codec_roundtripD)
  show "Frame_Type (endFrame pb i c) = FrameStreamEnd" "Frame_StreamID (endFrame pb i c) = i"
    by (simp_all add: endFrame_def Marshal_def b)
  show "decodeFailure pb (Frame_Payload (endFrame pb i c)) = Inr (StatusCode_Err c)"
    using status_code_ucast[of c] by (simp add: endFrame_def Marshal_def b decodeFailure_def Unmarshal_def u)
qed

lemma reply_settles:
  shows "Frame_StreamID (reply_frame pb i r) = i" "Frame_Type (reply_frame pb i r) \<in> {FrameCallResult, FrameStreamEnd}"
    "settleCall pb pending (reply_frame pb i r) s =
      (send_outcome pending (case wire_result pb r of
          Inl err \<Rightarrow> \<lparr>uo_payload = [], uo_err = Some err\<rparr>
        | Inr result \<Rightarrow> \<lparr>uo_payload = Result_Payload result, uo_err = None\<rparr>) s, FlowOk)"
proof (atomize (full), cases r)
  case (Inl err)
  obtain e where "StatusCode_Err (StatusOf (Some err)) = Some e" using StatusOf_error by blast
  then show "Frame_StreamID (reply_frame pb i r) = i \<and> Frame_Type (reply_frame pb i r) \<in> {FrameCallResult, FrameStreamEnd} \<and>
     settleCall pb pending (reply_frame pb i r) s =
      (send_outcome pending (case wire_result pb r of
          Inl err \<Rightarrow> \<lparr>uo_payload = [], uo_err = Some err\<rparr>
        | Inr result \<Rightarrow> \<lparr>uo_payload = Result_Payload result, uo_err = None\<rparr>) s, FlowOk)"
    using endFrame_decodes Inl by (simp add: reply_frame_def settleCall_def wire_result_def)
next
  case (Inr result)
  have "mc_unmarshal (pb_CallResult pb) b = Some (mkCallResult (Result_Payload result))"
    if "mc_marshal (pb_CallResult pb) (mkCallResult (Result_Payload result)) = Some b" for b
    using roundtrip that by (auto simp: proto_roundtrip_def intro: codec_roundtripD)
  then show "Frame_StreamID (reply_frame pb i r) = i \<and> Frame_Type (reply_frame pb i r) \<in> {FrameCallResult, FrameStreamEnd} \<and>
     settleCall pb pending (reply_frame pb i r) s =
      (send_outcome pending (case wire_result pb r of
          Inl err \<Rightarrow> \<lparr>uo_payload = [], uo_err = Some err\<rparr>
        | Inr result \<Rightarrow> \<lparr>uo_payload = Result_Payload result, uo_err = None\<rparr>) s, FlowOk)"
    using Inr endFrame_decodes[of i StatusInternal]
    by (auto simp: reply_frame_def encodeResult_def Marshal_def settleCall_def Unmarshal_def wire_result_def StatusCode_Err_def
        split: option.splits)
qed

end

lemmas decode_endFrame = message_runtime.endFrame_decodes[OF message_runtime.intro]
lemmas settle_reply = message_runtime.reply_settles[OF message_runtime.intro]

text \<open>The serving side: the reply that goes out is that of the in-process call, and nothing stays behind.\<close>

lemma openCall_refused:
  assumes "Unmarshal (pb_CallRequest pb) CallRequest_unknownFields body = Inr (mkCallRequest meth payload)" "meth \<noteq> []"
    "session_acquire (se_callGate s) = (g, True)" "se_ctx s = None"
    "PrepareCall (se_handler s) None (cfg_Remote (se_cfg s)) \<lparr>Call_Method = meth, Call_Payload = payload, Call_From = no_identity\<rparr>
       = (se_handler s, Inl err)"
  shows "openCall pb router_ops i body s = sendFrame (endFrame pb i (StatusOf (Some err)))
     (s\<lparr>se_callCtxs := se_callCtxs s @ [Some (Sentinel ErrCanceled)], se_callGate := session_release g\<rparr>)"
  using assms by (simp add: openCall_def router_ops_def cancel_call_def cancel_ctx_def Let_def)

lemma openCall_admitted:
  assumes "Unmarshal (pb_CallRequest pb) CallRequest_unknownFields body = Inr (mkCallRequest meth payload)" "meth \<noteq> []"
    "session_acquire (se_callGate s) = (g, True)" "se_ctx s = None"
    "PrepareCall (se_handler s) None (cfg_Remote (se_cfg s)) \<lparr>Call_Method = meth, Call_Payload = payload, Call_From = no_identity\<rparr>
       = (h, Inr serve)"
  shows "openCall pb router_ops i body s = s\<lparr>se_callGate := g, se_callCtxs := se_callCtxs s @ [None], se_handler := h,
     se_inflight := map_set i (length (se_callCtxs s)) (se_inflight s),
     se_callTasks := \<lparr>ct_id = i, ct_ctx = length (se_callCtxs s),
        ct_request = \<lparr>Call_Method = meth, Call_Payload = payload, Call_From = no_identity\<rparr>, ct_serve = serve\<rparr> # se_callTasks s\<rparr>"
  using assms by (simp add: openCall_def router_ops_def trackInflight_def Let_def)

definition served :: "('c, 's) router_session \<Rightarrow> ('c, 's) router_session \<Rightarrow> ('c, 's) Router option \<Rightarrow> bytes \<Rightarrow> bool" where
  "served s s' router reply \<longleftrightarrow> tr_accepted (se_transport s') = tr_accepted (se_transport s) @ reply
     \<and> se_handler s' = router \<and> se_callTasks s' = se_callTasks s
     \<and> gate_len (se_callGate s') = gate_len (se_callGate s) \<and> wire_ready s'"

lemma serve_request:
  fixes s :: "('c, 's) router_session"
  assumes ready: "wire_ready s" and room: "snd (session_acquire (se_callGate s))" and meth: "meth \<noteq> []"
    and un: "Unmarshal (pb_CallRequest pb) CallRequest_unknownFields body = Inr (mkCallRequest meth payload)"
    and f: "f = \<lparr>Frame_Type = FrameOpenCall, Frame_StreamID = i, Frame_Payload = body\<rparr>"
    and fits: "frame_fits (MaxMessageBytes (se_limits s)) f" and id: "i \<noteq> 0" "\<not> ownsStreamID s i"
    and direct: "direct = Invoke run (se_handler s) None (cfg_Remote (se_cfg s))
        \<lparr>Call_Method = meth, Call_Payload = payload, Call_From = no_identity\<rparr>"
    and reply: "frame_fits (MaxMessageBytes (se_limits s)) (reply_frame pb i (snd direct))"
  shows "served s (serve_admitted pb run s (receive pb router_ops now (frame_encode f) s)) (fst direct)
      (frame_encode (reply_frame pb i (snd direct)))"
proof -
  obtain g where g: "session_acquire (se_callGate s) = (g, True)" using room by (cases "session_acquire (se_callGate s)") simp
  let ?s0 = "s\<lparr>se_source := (se_source s)\<lparr>src_bytes := []\<rparr>, se_reader := Holding f\<rparr>"
  have own: "\<not> ownsStreamID ?s0 i" using id(2) by (simp add: ownsStreamID_def)
  have rec: "receive pb router_ops now (frame_encode f) s = (openCall pb router_ops i body ?s0)\<lparr>se_reader := Reading\<rparr>"
    using own id(1) by (simp add: receive_frame[OF ready fits]) (simp add: f dispatch_def dispatchScoped_def Let_def readLoop_continue_def)
  let ?call = "\<lparr>Call_Method = meth, Call_Payload = payload, Call_From = no_identity\<rparr>"
  obtain h res where p: "PrepareCall (se_handler s) None (cfg_Remote (se_cfg s)) ?call = (h, res)"
    by (cases "PrepareCall (se_handler s) None (cfg_Remote (se_cfg s)) ?call")
  from p show ?thesis
  proof (cases rule: PrepareCall_cases)
    case (Refused e)
    have i: "direct = (se_handler s, Inl e)" using p Refused by (simp add: direct Invoke_def split: option.splits)
    have "openCall pb router_ops i body ?s0 = sendFrame (endFrame pb i (StatusOf (Some e)))
       (?s0\<lparr>se_callCtxs := se_callCtxs s @ [Some (Sentinel ErrCanceled)], se_callGate := session_release g\<rparr>)"
      using openCall_refused[of pb body meth payload ?s0 g e i] un meth g p Refused ready by (simp add: wire_ready_def)
    then show ?thesis
      using rec ready reply g
      by (auto simp: served_def serve_admitted_def sendFrame_accepting wire_ready_def i reply_frame_def accepting_def
          session_gate.acquire_release split: list.splits)
  next
    case (Resolved r registered slots)
    let ?t = "\<lparr>ct_id = i, ct_ctx = length (se_callCtxs s), ct_request = ?call,
        ct_serve = CallServe registered (cfg_Remote (se_cfg s))\<rparr>"
    have o: "openCall pb router_ops i body ?s0 = ?s0\<lparr>se_callGate := g, se_callCtxs := se_callCtxs s @ [None], se_handler := h,
       se_inflight := map_set i (length (se_callCtxs s)) (se_inflight s), se_callTasks := ?t # se_callTasks s\<rparr>"
      using openCall_admitted[of pb body meth payload ?s0 g h _ i] un meth g p Resolved ready by (simp add: wire_ready_def)
    have i: "direct = map_prod Some id (serve_call_finish (r\<lparr>rt_callSlots := slots\<rparr>) (run_call run ?t))"
      using p Resolved by (simp add: direct Invoke_def serve_call_def run_call_def)
    have fin: "op_ServeCall router_ops h (CallServe registered (cfg_Remote (se_cfg s))) (run_call run ?t) = direct"
      using Resolved i by (simp add: router_ops_def)
    show ?thesis
      using rec ready reply g fin
      by (auto simp: served_def serve_admitted_def o finish_call_def call_reply_frame Let_def sendFrame_accepting wire_ready_def
          accepting_def cancel_call_def releaseInflight_def session_gate.acquire_release split: prod.splits)
  qed
qed

text \<open>The calling side: the request that goes out, and the reply that settles it.\<close>

lemma Call_send_ready:
  assumes "wire_ready s" "f = \<lparr>Frame_Type = FrameOpenCall, Frame_StreamID = se_nextStreamID s, Frame_Payload = body\<rparr>"
    "frame_fits (MaxMessageBytes (se_limits s)) f"
  obtains s' where "Call_send body s = (s', Inr (se_nextStreamID s, length (se_callChans s)))"
    "sent s s' = frame_encode f" "wire_ready s'" "se_limits s' = se_limits s"
    "map_get (se_calls s') (se_nextStreamID s) = Some (length (se_callChans s))" "se_callChans s' = se_callChans s @ [[]]"
  using assms
  by (auto simp: Call_send_def Let_def allocateStreamID_def registerCall_def wire_ready_def sent_def accepting_def
      writeFrame_accepting)

lemma settled_call:
  assumes "proto_roundtrip pb" "proto_total pb" "wire_ready s" "i \<noteq> 0"
    "frame_fits (MaxMessageBytes (se_limits s)) (reply_frame pb i r)"
    "map_get (se_calls s) i = Some c" "c < length (se_callChans s)" "se_callChans s ! c = []"
  obtains s' where "Call_finish pb True None (i, c) (receive pb ops now (frame_encode (reply_frame pb i r)) s)
      = (s', Some (wire_result pb r))" "wire_ready s'"
proof -
  let ?f = "reply_frame pb i r"
  let ?s0 = "s\<lparr>se_source := (se_source s)\<lparr>src_bytes := []\<rparr>, se_reader := Holding ?f\<rparr>"
  let ?v = "case wire_result pb r of Inl err \<Rightarrow> \<lparr>uo_payload = [], uo_err = Some err\<rparr>
        | Inr result \<Rightarrow> \<lparr>uo_payload = Result_Payload result, uo_err = None\<rparr>"
  note settle = settle_reply[OF assms(1,2), where i = i and r = r]
  have "dispatch pb ops now True ?f ?s0 = settleCall pb c ?f (?s0\<lparr>se_calls := map_delete i (se_calls s)\<rparr>)"
    using settle(1,2) assms(4,6) by (auto simp: dispatch_def dispatchScoped_def Let_def takeCall_def)
  then have rec: "receive pb ops now (frame_encode ?f) s
      = (send_outcome c ?v (?s0\<lparr>se_calls := map_delete i (se_calls s)\<rparr>))\<lparr>se_reader := Reading\<rparr>"
    by (simp add: receive_frame[OF assms(3,5)] settle(3) readLoop_continue_def)
  have "(case uo_err ?v of Some err \<Rightarrow> Inl err | None \<Rightarrow> Inr \<lparr>Result_Payload = uo_payload ?v\<rparr>) = wire_result pb r"
    by (simp split: sum.splits)
  then have "\<exists>s'. Call_finish pb True None (i, c) (receive pb ops now (frame_encode ?f) s) = (s', Some (wire_result pb r)) \<and> wire_ready s'"
    using assms(3,7,8) unfolding rec
    by (simp add: Call_finish_def await_def send_outcome_def Let_def discardCall_def wire_ready_def)
  then show ?thesis using that by blast
qed

section \<open>Refinement\<close>

text \<open>Both ends accept a frame of this size.\<close>

definition link_fits :: "('h, 'v, 'w) Session \<Rightarrow> ('a, 'b, 'c) Session \<Rightarrow> Frame \<Rightarrow> bool" where
  "link_fits client server f \<longleftrightarrow>
     frame_fits (MaxMessageBytes (se_limits client)) f \<and> frame_fits (MaxMessageBytes (se_limits server)) f"

text \<open>The round of a call, from the request to the outcome.\<close>

lemma wire_call_linked:
  fixes server :: "('c, 's) router_session"
  assumes pb: "proto_roundtrip pb" "proto_total pb" and ready: "wire_ready client" "wire_ready server"
    and room: "snd (session_acquire (se_callGate server))"
    and roles: "cfg_Role (se_cfg client) \<noteq> cfg_Role (se_cfg server)" "ownsStreamID client (se_nextStreamID client)"
    and id: "se_nextStreamID client \<noteq> 0"
    and request: "meth \<noteq> []" "int (length payload) \<le> MaxMessageBytes (se_limits client)"
      "mc_marshal (pb_CallRequest pb) (mkCallRequest meth payload) = Some body"
      "link_fits client server \<lparr>Frame_Type = FrameOpenCall, Frame_StreamID = se_nextStreamID client, Frame_Payload = body\<rparr>"
    and direct: "direct = Invoke run (se_handler server) None (cfg_Remote (se_cfg server))
        \<lparr>Call_Method = meth, Call_Payload = payload, Call_From = no_identity\<rparr>"
    and reply: "link_fits client server (reply_frame pb (se_nextStreamID client) (snd direct))"
  obtains client' server' where "wire_call pb ops run now meth payload client server = (client', server', Some (wire_result pb (snd direct)))"
    "se_handler server' = fst direct" "se_callTasks server' = se_callTasks server"
    "gate_len (se_callGate server') = gate_len (se_callGate server)" "wire_ready client'" "wire_ready server'"
proof -
  let ?i = "se_nextStreamID client" and ?reply = "reply_frame pb (se_nextStreamID client) (snd direct)"
  let ?f = "\<lparr>Frame_Type = FrameOpenCall, Frame_StreamID = ?i, Frame_Payload = body\<rparr>"
  have un: "Unmarshal (pb_CallRequest pb) CallRequest_unknownFields body = Inr (mkCallRequest meth payload)"
    using pb(1) codec_roundtripD[OF _ _ request(3), of CallRequest_unknownFields] by (simp add: proto_roundtrip_def Unmarshal_def)
  have check: "Call_check pb meth payload client = Inr body"
    using ready(1) request(2,3) by (simp add: Call_check_def usable_def wire_ready_def Marshal_def)
  obtain client1 where c1: "Call_send body client = (client1, Inr (?i, length (se_callChans client)))"
    "sent client client1 = frame_encode ?f" "wire_ready client1" "se_limits client1 = se_limits client"
    "map_get (se_calls client1) ?i = Some (length (se_callChans client))" "se_callChans client1 = se_callChans client @ [[]]"
    using Call_send_ready[OF ready(1) refl, of body] request(4) by (auto simp: link_fits_def)
  define server2 where "server2 = serve_admitted pb run server (receive pb router_ops now (frame_encode ?f) server)"
  have "\<not> ownsStreamID server ?i"
    using roles by (cases "cfg_Role (se_cfg client)"; cases "cfg_Role (se_cfg server)") (simp_all add: ownsStreamID_def)
  then have srv: "served server server2 (fst direct) (frame_encode ?reply)"
    unfolding server2_def using serve_request[OF ready(2) room request(1) un refl _ id _ direct] request(4) reply
    by (simp add: link_fits_def)
  then have "sent server server2 = frame_encode ?reply" by (simp add: served_def sent_def)
  moreover have chan: "length (se_callChans client) < length (se_callChans client1)"
    "se_callChans client1 ! length (se_callChans client) = []" using c1(6) by simp_all
  moreover have fits: "frame_fits (MaxMessageBytes (se_limits client1)) ?reply"
    using reply c1(4) by (simp add: link_fits_def)
  moreover obtain client3 where "Call_finish pb True None (?i, length (se_callChans client))
      (receive pb ops now (frame_encode ?reply) client1) = (client3, Some (wire_result pb (snd direct)))" "wire_ready client3"
    using settled_call[OF pb c1(3) id fits c1(5) chan] by blast
  ultimately show ?thesis
    using srv that[of client3 server2] by (simp add: wire_call_def check c1(1,2) Let_def server2_def[symmetric] served_def)
qed


text \<open>A server whose router has one method, which returns the payload it is given.\<close>

definition echo_router :: "(nat, nat) Router" where
  "echo_router = NewRouter (fst (RegisterCall (Some NewRegistry) ''echo'' (Some 7))) DefaultLimits"

definition echo_run :: "nat \<Rightarrow> go_error option \<Rightarrow> Call \<Rightarrow> Result outcome" where
  "echo_run handler ctx call = Returned \<lparr>Result_Payload = Call_Payload call\<rparr>"

definition echo_server :: "(nat, nat) router_session" where
  "echo_server = New (sample_cfg\<lparr>cfg_Role := RoleServer\<rparr>) wire_transport \<lparr>src_bytes = [], src_end = Sentinel IoEOF\<rparr> (Some echo_router) 0"

lemma sample_total: "proto_total sample_proto"
  by (simp add: proto_total_def sample_proto_def sample_bytes_codec_def sample_Failure_codec_def)

lemma echo_eval:
  "snd (Invoke echo_run (Some echo_router) None who \<lparr>Call_Method = ''echo'', Call_Payload = [5], Call_From = no_identity\<rparr>)
     = Inr \<lparr>Result_Payload = [5]\<rparr>"
  by code_simp


section \<open>Corner cases\<close>

text \<open>A peer that ends a call with the success code instead of a result completes it with an empty payload.\<close>

lemma call_ended_without_result:
  assumes "proto_roundtrip pb" "proto_total pb"
  shows "settleCall pb pending (endFrame pb i StatusOK) s = (send_outcome pending \<lparr>uo_payload = [], uo_err = None\<rparr> s, FlowOk)"
  using decode_endFrame[OF assms, of i StatusOK] by (simp add: settleCall_def StatusCode_Err_def)

text \<open>A stream that the peer refused to open stays in the session's table.\<close>

lemma refused_stream_stays_registered:
  "OpenStream_finish pb True None (i, c, r) s = (s', Some (Inl err)) \<Longrightarrow> se_streams s' = se_streams s"
  by (auto simp: OpenStream_finish_def await_def Let_def discardOpen_def followStreamContext_def finish_ref_eq
      split: list.splits option.splits)

text \<open>
  A message beyond the bound of a stream ends the stream, which stays registered; the next message on
  it is a violation of the protocol, which ends the session.
\<close>

lemma oversized_message_then_fatal:
  assumes "findStream i s = Some live" "live < length (se_heap s)" "\<not> st_finishOnce (se_heap s ! live)"
    "accepting (se_transport s)" "0 < MaxMessageBytes (se_limits s)"
    "frame_fits (MaxMessageBytes (se_limits s)) (endFrame pb (st_id (se_heap s ! live)) StatusMessageTooLarge)"
    and f: "Frame_Type f = FrameData" "Unmarshal (pb_Data pb) Data_unknownFields (Frame_Payload f) = Inr m"
      "int (length (Data_Payload m)) \<le> MaxStreamMessageBytes (se_limits s)"
    and s': "delivery_failed pb live (Sentinel ErrMessageTooLarge) s = (s', FlowOk)"
  shows "findStream i s' = Some live \<and> serveFrame pb pick live f s' = (s', FlowError (Sentinel ErrProtocolViolation))"
proof -
  have "se_transport (finish_ref live e s) = se_transport s" "se_limits (finish_ref live e s) = se_limits s" for e by simp_all
  then have s'_eq: "se_streams s' = se_streams s" "se_limits s' = se_limits s"
    "se_heap s' = (se_heap s)[live := finishStream (Some (Sentinel ErrMessageTooLarge)) (se_heap s ! live)]"
    using s' assms(4-6) by (auto simp: delivery_failed_def sendFrame_accepting assms(2))
  have "st_inboundClosed (finishStream e (se_heap s ! live))" for e
    using assms(3) by (simp add: finishStream_def closeInboundFinal_def Let_def)
  then have "deliver (se_limits s') pick (Data_Payload m) (se_heap s' ! live) = (se_heap s' ! live, DeliverError (Sentinel ErrProtocolViolation))"
    using f(3) assms(2) by (simp add: deliver_def s'_eq)
  then show ?thesis using assms(1) f by (simp add: findStream_def s'_eq serveFrame_def delivery_failed_def)
qed

end
