(* ===== verification/Proto_Format.thy ===== *)
theory Proto_Format
  imports Session_Wire
begin

text \<open>
  The proto3 encoding of the messages, as an instance of the protobuf runtime the engine is parametrised by. The field
  numbers and kinds are those of the struct tags of \<^verbatim>\<open>src/infrastructure/peer/wire/peer.pb.go\<close>; varints, tags, field
  order, omitted zero values, unknown fields and the UTF-8 check of string fields are the documented encoding. It shows that
  what the engine assumes of the runtime holds of that encoding, and how long the bodies of the frames are.
\<close>

section \<open>Varints\<close>

fun put_varint :: "nat \<Rightarrow> bytes" where
  "put_varint n = (if n < 128 then [of_nat n] else of_nat (n mod 128 + 128) # put_varint (n div 128))"

declare put_varint.simps [simp del]

text \<open>A varint has at most ten bytes and a value below \<open>2 ^ 64\<close>.\<close>

fun get_varint :: "nat \<Rightarrow> bytes \<Rightarrow> (nat \<times> bytes) option" where
  "get_varint (Suc k) (b # bs) =
    (if unat b < 128 then Some (unat b, bs)
     else case get_varint k bs of None \<Rightarrow> None | Some (n, rest) \<Rightarrow> Some (unat b - 128 + 128 * n, rest))"
| "get_varint _ _ = None"

definition varint :: "bytes \<Rightarrow> (nat \<times> bytes) option" where
  "varint bs = (case get_varint 10 bs of Some (n, rest) \<Rightarrow> if int n < 2 ^ 64 then Some (n, rest) else None | None \<Rightarrow> None)"

lemma get_put_varint: "n < 128 ^ Suc k \<Longrightarrow> get_varint (Suc k) (put_varint n @ rest) = Some (n, rest)"
proof (induction k arbitrary: n)
  case 0
  then show ?case by (simp add: put_varint.simps unat_of_nat)
next
  case (Suc k)
  show ?case
  proof (cases "n < 128")
    case True
    then show ?thesis by (simp add: put_varint.simps unat_of_nat)
  next
    case False
    have b: "unat (of_nat (n mod 128 + 128) :: byte) = n mod 128 + 128" by (subst unat_of_nat) simp
    have "n div 128 < 128 ^ Suc k" using Suc.prems by (simp add: div_less_iff_less_mult mult.commute)
    from Suc.IH[OF this] False show ?thesis by (subst put_varint.simps) (simp add: b del: of_nat_add)
  qed
qed

lemma varint_put [simp]: "n < 2 ^ 64 \<Longrightarrow> varint (put_varint n @ rest) = Some (n, rest)"
  using get_put_varint[of n 9 rest] by (simp add: varint_def)

lemma put_varint_ne [simp]: "put_varint n \<noteq> []"
  by (subst put_varint.simps) simp

lemma put_varint_length: "n < 128 ^ Suc k \<Longrightarrow> length (put_varint n) \<le> Suc k"
proof (induction k arbitrary: n)
  case 0
  then show ?case by (simp add: put_varint.simps)
next
  case (Suc k)
  have "n div 128 < 128 ^ Suc k" using Suc.prems by (simp add: div_less_iff_less_mult mult.commute)
  from Suc.IH[OF this] show ?case by (subst put_varint.simps) simp
qed

section \<open>Fields\<close>

text \<open>
  A field is a number and a value. The values of the wire types 1 and 5, which no message here has, are kept as raw bytes;
  groups are refused.
\<close>

datatype field_value = Varint nat | Bytes bytes | Fixed bytes

definition split_at :: "nat \<Rightarrow> bytes \<Rightarrow> (bytes \<times> bytes) option" where
  "split_at n bs = (if length bs < n then None else Some (take n bs, drop n bs))"

definition get_value :: "nat \<Rightarrow> bytes \<Rightarrow> (field_value \<times> bytes) option" where
  "get_value t bs =
    (if t = 0 then map_option (\<lambda>(n, rest). (Varint n, rest)) (varint bs)
     else if t = 1 then map_option (\<lambda>(x, rest). (Fixed x, rest)) (split_at 8 bs)
     else if t = 2 then
       (case varint bs of
          None \<Rightarrow> None
        | Some (n, rest) \<Rightarrow> map_option (\<lambda>(x, rest'). (Bytes x, rest')) (split_at n rest))
     else if t = 5 then map_option (\<lambda>(x, rest). (Fixed x, rest)) (split_at 4 bs)
     else None)"

text \<open>The fields of a body in order, each with the bytes it was read from. A field takes at least one byte, so the length of the body is fuel enough.\<close>

fun get_fields :: "nat \<Rightarrow> bytes \<Rightarrow> (nat \<times> field_value \<times> bytes) list option" where
  "get_fields k [] = Some []"
| "get_fields 0 (b # bs) = None"
| "get_fields (Suc k) (b # bs) =
    (case varint (b # bs) of
       None \<Rightarrow> None
     | Some (tag, r1) \<Rightarrow>
         if tag div 8 = 0 \<or> 2 ^ 29 \<le> int (tag div 8) then None
         else (case get_value (tag mod 8) r1 of
             None \<Rightarrow> None
           | Some (v, r2) \<Rightarrow>
               map_option (Cons (tag div 8, v, take (length (b # bs) - length r2) (b # bs))) (get_fields k r2)))"

fun put_field :: "nat \<times> field_value \<Rightarrow> bytes" where
  "put_field (num, Varint n) = put_varint (8 * num) @ put_varint n"
| "put_field (num, Bytes x) = put_varint (8 * num + 2) @ put_varint (length x) @ x"
| "put_field (num, Fixed x) = put_varint (8 * num + 1) @ x"

text \<open>Lengths are those of Go slices, which are below \<open>2 ^ 63\<close>.\<close>

fun field_ok :: "nat \<times> field_value \<Rightarrow> bool" where
  "field_ok (num, Varint n) \<longleftrightarrow> 0 < num \<and> int num < 2 ^ 29 \<and> int n < 2 ^ 64"
| "field_ok (num, Bytes x) \<longleftrightarrow> 0 < num \<and> int num < 2 ^ 29 \<and> int (length x) < 2 ^ 63"
| "field_ok (num, Fixed x) \<longleftrightarrow> 0 < num \<and> int num < 2 ^ 29 \<and> length x = 8"

definition put_fields :: "(nat \<times> field_value) list \<Rightarrow> bytes" where
  "put_fields fs = concat (map put_field fs)"

lemma put_fields_simps [simp]: "put_fields [] = []" "put_fields (f # fs) = put_field f @ put_fields fs"
  "put_fields (fs @ gs) = put_fields fs @ put_fields gs"
  by (simp_all add: put_fields_def)

lemma put_field_ne [simp]: "put_field f \<noteq> []"
  by (cases f rule: put_field.cases) simp_all

lemma get_put_field:
  assumes "field_ok f"
  obtains tag r1 where "varint (put_field f @ rest) = Some (tag, r1)" "tag div 8 = fst f" "0 < fst f" "fst f < 2 ^ 29"
    "get_value (tag mod 8) r1 = Some (snd f, rest)"
proof (cases f rule: put_field.cases)
  case (1 num n)
  with assms show ?thesis by (intro that[of "8 * num" "put_varint n @ rest"]) (simp_all add: get_value_def)
next
  case (2 num x)
  have "(8 * num + 2) mod 8 = 2" by presburger
  with 2 assms show ?thesis
    by (intro that[of "8 * num + 2" "put_varint (length x) @ x @ rest"])
      (simp_all add: get_value_def split_at_def del: add_2_eq_Suc add_2_eq_Suc')
next
  case (3 num x)
  have "(8 * num + 1) mod 8 = 1" by presburger
  with 3 assms show ?thesis
    by (intro that[of "8 * num + 1" "x @ rest"]) (simp_all add: get_value_def split_at_def del: One_nat_def)
qed

lemma get_put_fields:
  "list_all field_ok fs \<Longrightarrow> length fs \<le> k \<Longrightarrow> get_fields k (put_fields fs) = Some (map (\<lambda>f. (fst f, snd f, put_field f)) fs)"
proof (induction fs arbitrary: k)
  case (Cons f fs)
  obtain k' where k: "k = Suc k'" using Cons.prems(2) by (cases k) simp_all
  obtain tag r1 where g: "varint (put_field f @ put_fields fs) = Some (tag, r1)" "tag div 8 = fst f" "0 < fst f" "fst f < 2 ^ 29"
    "get_value (tag mod 8) r1 = Some (snd f, put_fields fs)"
    using get_put_field[of f "put_fields fs"] Cons.prems(1) by auto
  obtain b bs where b: "put_field f @ put_fields fs = b # bs" by (cases "put_field f @ put_fields fs") simp_all
  have "Suc (length bs) = length (put_field f) + length (put_fields fs)" using arg_cong[OF b, of length] by simp
  then have "take (Suc (length bs) - length (put_fields fs)) (b # bs) = put_field f" by (simp add: b[symmetric])
  then show ?case using g Cons.IH[of k'] Cons.prems k by (simp add: b)
qed simp

lemma put_fields_length: "length fs \<le> length (put_fields fs)"
proof (induction fs)
  case (Cons f fs)
  then show ?case using put_field_ne[of f] by (cases "put_field f") simp_all
qed simp

section \<open>UTF-8\<close>

definition cont :: "byte \<Rightarrow> bool" where
  "cont b \<longleftrightarrow> 0x80 \<le> b \<and> b \<le> 0xBF"

fun utf8_valid :: "bytes \<Rightarrow> bool" where
  "utf8_valid [] = True"
| "utf8_valid (a # bs) =
    (if a < 0x80 then utf8_valid bs
     else if a < 0xC2 then False
     else if a < 0xE0 then (case bs of b # r \<Rightarrow> cont b \<and> utf8_valid r | _ \<Rightarrow> False)
     else if a < 0xF0 then
       (case bs of
          b # c # r \<Rightarrow> cont b \<and> cont c \<and> (a = 0xE0 \<longrightarrow> 0xA0 \<le> b) \<and> (a = 0xED \<longrightarrow> b \<le> 0x9F) \<and> utf8_valid r
        | _ \<Rightarrow> False)
     else if a < 0xF5 then
       (case bs of
          b # c # d # r \<Rightarrow> cont b \<and> cont c \<and> cont d \<and> (a = 0xF0 \<longrightarrow> 0x90 \<le> b) \<and> (a = 0xF4 \<longrightarrow> b \<le> 0x8F) \<and> utf8_valid r
        | _ \<Rightarrow> False)
     else False)"

lemma ascii_valid: "list_all (\<lambda>b. b < 0x80) bs \<Longrightarrow> utf8_valid bs"
  by (induction bs) simp_all

section \<open>Messages\<close>

text \<open>
  What a field does to a message: it sets a part of it, it is unknown and kept as raw bytes, or it makes the body malformed.
  A field of a known number with a value of another wire type is unknown.
\<close>

datatype 'm merged = Merged 'm | Unknown | Malformed

fun merge_fields :: "(nat \<Rightarrow> field_value \<Rightarrow> 'm \<Rightarrow> 'm merged) \<Rightarrow> (bytes \<Rightarrow> 'm \<Rightarrow> 'm) \<Rightarrow> (nat \<times> field_value \<times> bytes) list \<Rightarrow> 'm \<Rightarrow> 'm option" where
  "merge_fields merge keep [] m = Some m"
| "merge_fields merge keep ((num, v, raw) # fs) m =
    (case merge num v m of
       Merged m' \<Rightarrow> merge_fields merge keep fs m'
     | Unknown \<Rightarrow> merge_fields merge keep fs (keep raw m)
     | Malformed \<Rightarrow> None)"

definition merge_body :: "(nat \<Rightarrow> field_value \<Rightarrow> 'm \<Rightarrow> 'm merged) \<Rightarrow> (bytes \<Rightarrow> 'm \<Rightarrow> 'm) \<Rightarrow> 'm \<Rightarrow> bytes \<Rightarrow> 'm option" where
  "merge_body merge keep m bs = (case get_fields (length bs) bs of None \<Rightarrow> None | Some fs \<Rightarrow> merge_fields merge keep fs m)"

definition proto_message :: "('m \<Rightarrow> (nat \<times> field_value) list) \<Rightarrow> ('m \<Rightarrow> string) \<Rightarrow> ('m \<Rightarrow> bytes) \<Rightarrow>
    (nat \<Rightarrow> field_value \<Rightarrow> 'm \<Rightarrow> 'm merged) \<Rightarrow> (bytes \<Rightarrow> 'm \<Rightarrow> 'm) \<Rightarrow> 'm \<Rightarrow> 'm message_codec" where
  "proto_message content text unknown merge keep blank = \<lparr>
     mc_marshal = (\<lambda>m. if list_all field_ok (content m) \<and> utf8_valid (str_bytes (text m)) then Some (put_fields (content m) @ unknown m) else None),
     mc_unmarshal = merge_body merge keep blank\<rparr>"

definition num_field :: "nat \<Rightarrow> 'w::len word \<Rightarrow> (nat \<times> field_value) list" where
  "num_field num w = (if w = 0 then [] else [(num, Varint (unat w))])"

definition bytes_field :: "nat \<Rightarrow> bytes \<Rightarrow> (nat \<times> field_value) list" where
  "bytes_field num x = (if x = [] then [] else [(num, Bytes x)])"

fun merge_string :: "(string \<Rightarrow> 'm \<Rightarrow> 'm) \<Rightarrow> bytes \<Rightarrow> 'm \<Rightarrow> 'm merged" where
  "merge_string upd x m = (if utf8_valid x then Merged (upd (bytes_str x) m) else Malformed)"

fun merge_CallRequest :: "nat \<Rightarrow> field_value \<Rightarrow> CallRequest \<Rightarrow> CallRequest merged" where
  "merge_CallRequest num (Bytes x) m =
    (if num = 1 then merge_string (\<lambda>s. CallRequest_Method_update (\<lambda>_. s)) x m
     else if num = 2 then Merged (m\<lparr>CallRequest_Payload := x\<rparr>) else Unknown)"
| "merge_CallRequest num v m = Unknown"

definition CallRequest_fields :: "CallRequest \<Rightarrow> (nat \<times> field_value) list" where
  "CallRequest_fields m = bytes_field 1 (str_bytes (CallRequest_Method m)) @ bytes_field 2 (CallRequest_Payload m)"

fun merge_CallResult :: "nat \<Rightarrow> field_value \<Rightarrow> CallResult \<Rightarrow> CallResult merged" where
  "merge_CallResult num (Bytes x) m = (if num = 1 then Merged (m\<lparr>CallResult_Payload := x\<rparr>) else Unknown)"
| "merge_CallResult num v m = Unknown"

definition CallResult_fields :: "CallResult \<Rightarrow> (nat \<times> field_value) list" where
  "CallResult_fields m = bytes_field 1 (CallResult_Payload m)"

fun merge_Status :: "nat \<Rightarrow> field_value \<Rightarrow> Status \<Rightarrow> Status merged" where
  "merge_Status num (Varint n) m = (if num = 1 then Merged (m\<lparr>Status_Code := of_nat n\<rparr>) else Unknown)"
| "merge_Status num (Bytes x) m = (if num = 2 then merge_string (\<lambda>s. Status_Message_update (\<lambda>_. s)) x m else Unknown)"
| "merge_Status num v m = Unknown"

definition Status_fields :: "Status \<Rightarrow> (nat \<times> field_value) list" where
  "Status_fields m = num_field 1 (Status_Code m) @ bytes_field 2 (str_bytes (Status_Message m))"

text \<open>The status of a failure is a message of its own; a repeated one is merged into the first.\<close>

fun merge_Failure :: "nat \<Rightarrow> field_value \<Rightarrow> Failure \<Rightarrow> Failure merged" where
  "merge_Failure num (Bytes x) m =
    (if num = 1 then
       (case merge_body merge_Status (\<lambda>raw. Status_unknownFields_update (\<lambda>u. u @ raw))
            (case Failure_Status m of None \<Rightarrow> \<lparr>Status_Code = 0, Status_Message = [], Status_unknownFields = []\<rparr> | Some st \<Rightarrow> st) x of
          None \<Rightarrow> Malformed
        | Some st \<Rightarrow> Merged (m\<lparr>Failure_Status := Some st\<rparr>))
     else Unknown)"
| "merge_Failure num v m = Unknown"

definition Failure_fields :: "Failure \<Rightarrow> (nat \<times> field_value) list" where
  "Failure_fields m = (case Failure_Status m of None \<Rightarrow> []
     | Some st \<Rightarrow> [(1, Bytes (put_fields (Status_fields st) @ Status_unknownFields st))])"

fun merge_OpenStream :: "nat \<Rightarrow> field_value \<Rightarrow> OpenStream \<Rightarrow> OpenStream merged" where
  "merge_OpenStream num (Bytes x) m = (if num = 1 then merge_string (\<lambda>s. OpenStream_Method_update (\<lambda>_. s)) x m else Unknown)"
| "merge_OpenStream num v m = Unknown"

definition OpenStream_fields :: "OpenStream \<Rightarrow> (nat \<times> field_value) list" where
  "OpenStream_fields m = bytes_field 1 (str_bytes (OpenStream_Method m))"

fun merge_Data :: "nat \<Rightarrow> field_value \<Rightarrow> Data \<Rightarrow> Data merged" where
  "merge_Data num (Bytes x) m = (if num = 1 then Merged (m\<lparr>Data_Payload := x\<rparr>) else Unknown)"
| "merge_Data num v m = Unknown"

definition Data_fields :: "Data \<Rightarrow> (nat \<times> field_value) list" where
  "Data_fields m = bytes_field 1 (Data_Payload m)"

fun merge_Ping :: "nat \<Rightarrow> field_value \<Rightarrow> Ping \<Rightarrow> Ping merged" where
  "merge_Ping num (Varint n) m = (if num = 1 then Merged (m\<lparr>Ping_Nonce := of_nat n\<rparr>) else Unknown)"
| "merge_Ping num v m = Unknown"

definition Ping_fields :: "Ping \<Rightarrow> (nat \<times> field_value) list" where
  "Ping_fields m = num_field 1 (Ping_Nonce m)"

fun merge_Pong :: "nat \<Rightarrow> field_value \<Rightarrow> Pong \<Rightarrow> Pong merged" where
  "merge_Pong num (Varint n) m = (if num = 1 then Merged (m\<lparr>Pong_Nonce := of_nat n\<rparr>) else Unknown)"
| "merge_Pong num v m = Unknown"

definition Pong_fields :: "Pong \<Rightarrow> (nat \<times> field_value) list" where
  "Pong_fields m = num_field 1 (Pong_Nonce m)"

definition proto3 :: proto where
  "proto3 = \<lparr>
     pb_CallRequest = proto_message CallRequest_fields CallRequest_Method CallRequest_unknownFields merge_CallRequest
       (\<lambda>raw. CallRequest_unknownFields_update (\<lambda>u. u @ raw)) (mkCallRequest [] []),
     pb_CallResult = proto_message CallResult_fields (\<lambda>_. []) CallResult_unknownFields merge_CallResult
       (\<lambda>raw. CallResult_unknownFields_update (\<lambda>u. u @ raw)) (mkCallResult []),
     pb_Failure = proto_message Failure_fields (\<lambda>m. case Failure_Status m of None \<Rightarrow> [] | Some st \<Rightarrow> Status_Message st) Failure_unknownFields
       merge_Failure (\<lambda>raw. Failure_unknownFields_update (\<lambda>u. u @ raw)) \<lparr>Failure_Status = None, Failure_unknownFields = []\<rparr>,
     pb_OpenStream = proto_message OpenStream_fields OpenStream_Method OpenStream_unknownFields merge_OpenStream
       (\<lambda>raw. OpenStream_unknownFields_update (\<lambda>u. u @ raw)) (mkOpenStream []),
     pb_StreamAccepted = proto_message (\<lambda>_. []) (\<lambda>_. []) StreamAccepted_unknownFields (\<lambda>_ _ _. Unknown)
       (\<lambda>raw. StreamAccepted_unknownFields_update (\<lambda>u. u @ raw)) mkStreamAccepted,
     pb_Data = proto_message Data_fields (\<lambda>_. []) Data_unknownFields merge_Data
       (\<lambda>raw. Data_unknownFields_update (\<lambda>u. u @ raw)) (mkData []),
     pb_Ping = proto_message Ping_fields (\<lambda>_. []) Ping_unknownFields merge_Ping
       (\<lambda>raw. Ping_unknownFields_update (\<lambda>u. u @ raw)) (mkPing 0),
     pb_Pong = proto_message Pong_fields (\<lambda>_. []) Pong_unknownFields merge_Pong
       (\<lambda>raw. Pong_unknownFields_update (\<lambda>u. u @ raw)) (mkPong 0)\<rparr>"

section \<open>The hypotheses on the runtime hold\<close>

definition read_back :: "(nat \<times> field_value) list \<Rightarrow> (nat \<times> field_value \<times> bytes) list" where
  "read_back fs = map (\<lambda>f. (fst f, snd f, put_field f)) fs"

lemma read_back_simps [simp]: "read_back [] = []" "read_back ((num, v) # fs) = (num, v, put_field (num, v)) # read_back fs"
  "read_back (fs @ gs) = read_back fs @ read_back gs"
  by (simp_all add: read_back_def)

lemma merge_body_fields:
  "list_all field_ok fs \<Longrightarrow> merge_body merge keep m (put_fields fs) = merge_fields merge keep (read_back fs) m"
  using get_put_fields[OF _ put_fields_length, of fs] by (simp add: merge_body_def read_back_def)

lemma message_roundtrip:
  assumes "\<And>m. foreign m = [] \<Longrightarrow> list_all field_ok (content m) \<Longrightarrow> utf8_valid (str_bytes (text m)) \<Longrightarrow>
      merge_fields merge keep (read_back (content m)) blank = Some m"
    and "\<And>m. foreign m = [] \<Longrightarrow> unknown m = []"
  shows "codec_roundtrip (proto_message content text unknown merge keep blank) foreign"
  using assms by (auto simp: codec_roundtrip_def proto_message_def merge_body_fields split: if_splits)

named_theorems proto3_eval

declare num_field_def [proto3_eval] bytes_field_def [proto3_eval] CallRequest_fields_def [proto3_eval] CallResult_fields_def [proto3_eval]
  Status_fields_def [proto3_eval] Failure_fields_def [proto3_eval] OpenStream_fields_def [proto3_eval] Data_fields_def [proto3_eval]
  Ping_fields_def [proto3_eval] Pong_fields_def [proto3_eval]

lemma str_bytes_empty [simp]: "str_bytes s = [] \<longleftrightarrow> s = []" "str_bytes [] = []"
  by (simp_all add: str_bytes_def)

lemma Status_body:
  assumes "Status_unknownFields st = []" "length (put_fields (Status_fields st)) < 2 ^ 63" "utf8_valid (str_bytes (Status_Message st))"
  shows "merge_body merge_Status keep \<lparr>Status_Code = 0, Status_Message = [], Status_unknownFields = []\<rparr> (put_fields (Status_fields st)) = Some st"
proof -
  have "uint (Status_Code st) < 2 ^ LENGTH(32)" by (rule unsigned_less)
  then have "list_all field_ok (Status_fields st)" using assms(2) by (simp add: proto3_eval split: if_splits)
  moreover have "merge_fields merge_Status keep (read_back (Status_fields st)) \<lparr>Status_Code = 0, Status_Message = [], Status_unknownFields = []\<rparr> = Some st"
    using assms(1,3) by (cases st) (auto simp: proto3_eval)
  ultimately show ?thesis by (simp add: merge_body_fields)
qed

lemma proto3_roundtrip: "proto_roundtrip proto3"
  unfolding proto_roundtrip_def proto3_def proto.simps
proof (intro conjI)
  show "codec_roundtrip (proto_message CallRequest_fields CallRequest_Method CallRequest_unknownFields merge_CallRequest
       (\<lambda>raw. CallRequest_unknownFields_update (\<lambda>u. u @ raw)) (mkCallRequest [] [])) CallRequest_unknownFields"
    by (rule message_roundtrip) (auto simp: proto3_eval)
  show "codec_roundtrip (proto_message Failure_fields (\<lambda>m. case Failure_Status m of None \<Rightarrow> [] | Some st \<Rightarrow> Status_Message st) Failure_unknownFields
       merge_Failure (\<lambda>raw. Failure_unknownFields_update (\<lambda>u. u @ raw)) \<lparr>Failure_Status = None, Failure_unknownFields = []\<rparr>) Failure_foreign"
    by (rule message_roundtrip) (auto simp: Failure_fields_def Failure_foreign_def Status_body split: option.splits)
qed (rule message_roundtrip; auto simp: proto3_eval)+

text \<open>The length of a body: a tag of one byte and a varint of at most ten in front of each field.\<close>

lemma bytes_field_length:
  "0 < num \<Longrightarrow> num < 16 \<Longrightarrow> length x < 2 ^ 63 \<Longrightarrow> length (put_fields (bytes_field num x)) \<le> length x + 11"
  "0 < num \<Longrightarrow> num < 16 \<Longrightarrow> x \<noteq> [] \<Longrightarrow> length x + 2 \<le> length (put_fields (bytes_field num x))"
proof -
  assume "0 < num" "num < 16" "length x < 2 ^ 63"
  then show "length (put_fields (bytes_field num x)) \<le> length x + 11"
    using put_varint_length[of "8 * num + 2" 0] put_varint_length[of "length x" 9] by (simp add: bytes_field_def)
next
  assume "0 < num" "num < 16" "x \<noteq> []"
  moreover have "0 < length (put_varint n)" for n by simp
  from this[of "8 * num + 2"] this[of "length x"] have "2 \<le> length (put_varint (8 * num + 2)) + length (put_varint (length x))" by linarith
  ultimately show "length x + 2 \<le> length (put_fields (bytes_field num x))" by (simp add: bytes_field_def)
qed

lemma proto3_framed: "proto_framed proto3"
  using bytes_field_length(2)[of 1] bytes_field_length(2)[of 2]
  by (auto simp: proto_framed_def proto3_def proto_message_def CallRequest_fields_def CallResult_fields_def Data_fields_def
      trans_le_add2 split: if_splits)

lemma StatusCode_text: "list_all (\<lambda>b. b < 0x80) (str_bytes (StatusCode_String c))" "length (StatusCode_String c) \<le> 18"
  by (simp_all add: StatusCode_String_def str_bytes_def)

lemma Failure_marshal:
  obtains b where "mc_marshal (pb_Failure proto3) (mkFailure (ucast c) (StatusCode_String c)) = Some b" "length b \<le> 51"
proof -
  let ?st = "\<lparr>Status_Code = ucast c, Status_Message = StatusCode_String c, Status_unknownFields = []\<rparr>"
  let ?body = "put_fields (Status_fields ?st)"
  have "unat (ucast c :: u32) < 2 ^ LENGTH(32)" by (rule unsigned_less)
  then have "length (put_fields (num_field 1 (ucast c :: u32))) \<le> 11"
    using put_varint_length[of 8 0] put_varint_length[of "unat (ucast c :: u32)" 9] by (simp add: num_field_def)
  then have "length ?body \<le> 40"
    using bytes_field_length(1)[of 2 "str_bytes (StatusCode_String c)"] StatusCode_text(2)[of c] by (simp add: Status_fields_def)
  moreover from this have "length (put_field (1, Bytes ?body)) \<le> length ?body + 11"
    using put_varint_length[of 10 0] put_varint_length[of "length ?body" 9] by simp
  ultimately have "length ?body \<le> 40" "length (put_field (1, Bytes ?body)) \<le> 51" by linarith+
  then show ?thesis
    by (intro that) (simp_all add: proto3_def proto_message_def Failure_fields_def ascii_valid StatusCode_text del: put_field.simps)
qed

lemma proto3_total: "proto_total proto3"
  unfolding proto_total_def by (metis Failure_marshal option.distinct(1))

interpretation proto3: message_runtime proto3
  by unfold_locales (rule proto3_roundtrip proto3_total)+

section \<open>Frames\<close>

lemma proto3_endFrame: "length (Frame_Payload (endFrame proto3 i c)) \<le> 51" "Frame_Type (endFrame proto3 i c) = FrameStreamEnd"
  "Frame_StreamID (endFrame proto3 i c) = i"
proof -
  obtain b where "mc_marshal (pb_Failure proto3) (mkFailure (ucast c) (StatusCode_String c)) = Some b" "length b \<le> 51" by (rule Failure_marshal)
  then show "length (Frame_Payload (endFrame proto3 i c)) \<le> 51" by (simp add: endFrame_def Marshal_def)
qed (rule proto3.endFrame_decodes)+

lemma proto3_result:
  assumes "length p < 2 ^ 63"
  obtains b where "encodeResult proto3 p = Inr b" "length b \<le> length p + 11"
proof
  show "encodeResult proto3 p = Inr (put_fields (bytes_field 1 p))"
    using assms by (simp add: encodeResult_def Marshal_def proto3_def proto_message_def CallResult_fields_def bytes_field_def)
  show "length (put_fields (bytes_field 1 p)) \<le> length p + 11" using assms by (simp add: bytes_field_length)
qed

lemma proto3_request:
  assumes "utf8_valid (str_bytes meth)" "length meth < 2 ^ 63" "length p < 2 ^ 63"
  obtains b where "mc_marshal (pb_CallRequest proto3) (mkCallRequest meth p) = Some b" "length b \<le> length meth + length p + 22"
proof
  let ?b = "put_fields (CallRequest_fields (mkCallRequest meth p))"
  show "mc_marshal (pb_CallRequest proto3) (mkCallRequest meth p) = Some ?b"
    using assms by (simp add: proto3_def proto_message_def CallRequest_fields_def bytes_field_def)
  show "length ?b \<le> length meth + length p + 22"
    using assms bytes_field_length(1)[of 1 "str_bytes meth"] bytes_field_length(1)[of 2 p] by (simp add: CallRequest_fields_def)
qed

text \<open>The bodies that fit both sides of a connection.\<close>

definition roomy :: "('h, 'v, 'w) Session \<Rightarrow> ('a, 'b, 'c) Session \<Rightarrow> nat \<Rightarrow> bool" where
  "roomy client server n \<longleftrightarrow> int n \<le> MaxMessageBytes (se_limits client) \<and> int n \<le> MaxMessageBytes (se_limits server) \<and> n < 2 ^ 32"

lemma roomy_fits:
  assumes "roomy client server n" "length (Frame_Payload f) \<le> n" "Frame_Type f \<in> {FrameOpenCall, FrameCallResult, FrameStreamEnd}"
    "Frame_StreamID f \<le> MaxStreamID"
  shows "link_fits client server f"
  using assms by (auto simp: roomy_def link_fits_def frame_fits_def frame_validate_def scoped_def)



text \<open>
  The bytes of some bodies, and two that \<^verbatim>\<open>Unmarshal\<close> has to judge: an unknown field of the failure itself is a violation of the
  protocol, one of the status in it goes unnoticed.
\<close>

lemma proto3_bytes:
  "mc_marshal (pb_CallRequest proto3) (mkCallRequest ''echo'' [5]) = Some [10, 4, 101, 99, 104, 111, 18, 1, 5]"
  "mc_marshal (pb_Failure proto3) (mkFailure 3 ''overloaded'') = Some [10, 14, 8, 3, 18, 10, 111, 118, 101, 114, 108, 111, 97, 100, 101, 100]"
  "mc_marshal (pb_Ping proto3) (mkPing 300) = Some [8, 172, 2]"
  by code_simp+

lemma nested_unknown_field_accepted:
  "decodeFailure proto3 [10, 4, 8, 3, 24, 1] = Inr (Some (Sentinel ErrOverloaded))"
  "decodeFailure proto3 [10, 2, 8, 3, 24, 1] = Inl (Wrap ''codec: frame body carries unknown fields'' (Sentinel ErrProtocolViolation))"
  by code_simp+

end
