(* ===== verification/Session_Channels.thy ===== *)
theory Session_Channels
  imports Session_Wire
begin

text \<open>
  Two sessions joined by a connection, and the streams open between them: the messages that cross it,
  under every interleaving of the two endpoints, against one queue for each stream and direction.
\<close>

section \<open>The queues\<close>

text \<open>What a stream promises in one direction: a queue of messages, and whether its sender has closed it.\<close>

record channel =
  ch_queue :: "bytes list"
  ch_closed :: bool

datatype chan_event = Sent u64 bytes | Got u64 bytes | HalfClosed u64 | SawEOF u64 | Broke u64 go_error | Internal

type_synonym channels = "u64 \<Rightarrow> channel"

inductive send_spec :: "channels \<Rightarrow> chan_event \<Rightarrow> channels \<Rightarrow> bool" where
  spec_send: "\<not> ch_closed (q i) \<Longrightarrow> send_spec q (Sent i p) (q(i := (q i)\<lparr>ch_queue := ch_queue (q i) @ [p]\<rparr>))"
| spec_close: "send_spec q (HalfClosed i) (q(i := (q i)\<lparr>ch_closed := True\<rparr>))"
| spec_silent_sender: "send_spec q Internal q"

inductive recv_spec :: "channels \<Rightarrow> chan_event \<Rightarrow> channels \<Rightarrow> bool" where
  spec_recv: "ch_queue (q i) = p # rest \<Longrightarrow> recv_spec q (Got i p) (q(i := (q i)\<lparr>ch_queue := rest\<rparr>))"
| spec_eof: "ch_queue (q i) = [] \<Longrightarrow> ch_closed (q i) \<Longrightarrow> recv_spec q (SawEOF i) q"
| spec_silent_receiver: "recv_spec q Internal q"

section \<open>What an endpoint does with its streams\<close>

text \<open>
  The sending half: the operations of the application and of the pumps. \<open>R\<close> lists the open streams of
  the endpoint. A refused message leaves no trace.
\<close>

inductive send_step :: "proto \<Rightarrow> (u64 \<times> ref) list \<Rightarrow> ('h, 'v, 'w) Session \<Rightarrow> chan_event \<Rightarrow> ('h, 'v, 'w) Session \<Rightarrow> bool"
  for pb R where
  sends: "(i, r) \<in> set R \<Longrightarrow> session_Send pb r m s = (s', None) \<Longrightarrow> send_step pb R s (Sent i (Message_Payload m)) s'"
| refuses: "(i, r) \<in> set R \<Longrightarrow> session_Send pb r m s = (s', Some e) \<Longrightarrow> send_step pb R s Internal s'"
| closes: "(i, r) \<in> set R \<Longrightarrow> send_step pb R s (HalfClosed i) (upd_stream r CloseSend_begin s)"
| closing: "(i, r) \<in> set R \<Longrightarrow> f \<in> {CloseSend_enqueue pick, CloseSend_await pick} \<Longrightarrow>
    send_step pb R s Internal (upd_stream r f s)"
| pumps: "(i, r) \<in> set R \<Longrightarrow> send_step pb R s Internal (pump pick r s)"

text \<open>The receiving half. The read loop goes on once a whole frame has arrived.\<close>

definition recv_event :: "u64 \<Rightarrow> recv_result \<Rightarrow> chan_event" where
  "recv_event i x = (case x of
     RecvMessage m \<Rightarrow> Got i (Message_Payload m)
   | RecvError e \<Rightarrow> if e = Sentinel IoEOF then SawEOF i else Broke i e
   | RecvParked \<Rightarrow> Internal)"

inductive recv_step :: "proto \<Rightarrow> ('h, 'v, 'w) handler_ops \<Rightarrow> (u64 \<times> ref) list
    \<Rightarrow> ('h, 'v, 'w) Session \<Rightarrow> chan_event \<Rightarrow> ('h, 'v, 'w) Session \<Rightarrow> bool"
  for pb ops R where
  reads: "se_reader s = Reading \<Longrightarrow>
    ReadFrame (NewReader (MaxMessageBytes (se_limits s))) (se_source s) = (Inr f, src) \<Longrightarrow>
    recv_step pb ops R s Internal (readLoop_read s)"
| dispatches: "recv_step pb ops R s Internal (readLoop_dispatch pb ops now pick s)"
| resumes: "recv_step pb ops R s Internal (readLoop_resume pb s)"
| receives: "(i, r) \<in> set R \<Longrightarrow> session_Recv r s = (s', x) \<Longrightarrow> recv_step pb ops R s (recv_event i x) s'"

text \<open>Each of them is a step of the session's state machine.\<close>

lemma send_step_sess: "send_step pb R s e s' \<Longrightarrow> \<forall>(i, r) \<in> set R. r < length (se_heap s) \<Longrightarrow> sess_step pb ops s s'"
  by (induction rule: send_step.induct)
    (fastforce intro: step_send step_pump step_progress)+

lemma recv_step_sess: "recv_step pb ops R s e s' \<Longrightarrow> \<forall>(i, r) \<in> set R. r < length (se_heap s) \<Longrightarrow> sess_step pb ops s s'"
  by (induction rule: recv_step.induct)
    (fastforce intro: step_recv step_read step_dispatch step_resume)+

section \<open>What is on its way\<close>

datatype item = Msg bytes | Fin

definition data_body :: "proto \<Rightarrow> bytes \<Rightarrow> bytes" where
  "data_body pb p = the (mc_marshal (pb_Data pb) (mkData p))"

fun item_out :: "proto \<Rightarrow> item \<Rightarrow> outboundItem" where
  "item_out pb (Msg p) = dataItem (data_body pb p)"
| "item_out pb Fin = closeItem"

fun item_frame :: "proto \<Rightarrow> u64 \<Rightarrow> item \<Rightarrow> Frame" where
  "item_frame pb i (Msg p) = frameData i (data_body pb p)"
| "item_frame pb i Fin = \<lparr>Frame_Type = FrameCloseSend, Frame_StreamID = i, Frame_Payload = []\<rparr>"

fun item_valid :: "proto \<Rightarrow> Limits \<Rightarrow> item \<Rightarrow> bool" where
  "item_valid pb limits (Msg p) \<longleftrightarrow> int (length p) \<le> MaxStreamMessageBytes limits \<and> mc_marshal (pb_Data pb) (mkData p) \<noteq> None"
| "item_valid pb limits Fin \<longleftrightarrow> True"

fun msgs :: "item list \<Rightarrow> bytes list" where
  "msgs [] = []"
| "msgs (Msg p # xs) = p # msgs xs"
| "msgs (Fin # xs) = msgs xs"

fun fin_last :: "item list \<Rightarrow> bool" where
  "fin_last [] = True"
| "fin_last (Msg p # xs) = fin_last xs"
| "fin_last (Fin # xs) = (xs = [])"

lemma msgs_append [simp]: "msgs (xs @ ys) = msgs xs @ msgs ys"
  by (induction xs rule: msgs.induct) simp_all

lemma fin_last_snoc: "Fin \<notin> set xs \<Longrightarrow> fin_last (xs @ [it])"
  by (induction xs rule: fin_last.induct) (cases it; simp)+

definition of_stream :: "u64 \<Rightarrow> (u64 \<times> item) list \<Rightarrow> item list" where
  "of_stream i xs = map snd (filter (\<lambda>x. fst x = i) xs)"

lemma of_stream_simps [simp]:
  "of_stream i [] = []" "of_stream i ((j, it) # xs) = (if j = i then it # of_stream i xs else of_stream i xs)"
  "of_stream i (xs @ ys) = of_stream i xs @ of_stream i ys"
  by (simp_all add: of_stream_def)

definition wire_bytes :: "proto \<Rightarrow> (u64 \<times> item) list \<Rightarrow> bytes" where
  "wire_bytes pb w = concat (map (\<lambda>(i, it). frame_encode (item_frame pb i it)) w)"

section \<open>The simulation relation\<close>

text \<open>An endpoint that is up, with the streams \<open>R\<close> open.\<close>

definition endpoint_ok :: "(u64 \<times> ref) list \<Rightarrow> ('h, 'v, 'w) Session \<Rightarrow> bool" where
  "endpoint_ok R s \<longleftrightarrow> accepting (se_transport s) \<and> \<not> se_ended s \<and> 0 < MaxMessageBytes (se_limits s)
     \<and> distinct (map fst R)
     \<and> (\<forall>(i, r) \<in> set R. i \<noteq> 0 \<and> r < length (se_heap s) \<and> findStream i s = Some r
          \<and> map_get (se_calls s) i = None \<and> map_get (se_opens s) i = None
          \<and> st_id (se_heap s ! r) = i \<and> st_ctx (se_heap s ! r) = None \<and> stream_inv (se_heap s ! r)
          \<and> 0 < st_inboundCap (se_heap s ! r))"

text \<open>
  What the read loop holds: a frame it has read, or a message whose delivery waits for room.
\<close>

definition reader_holds :: "proto \<Rightarrow> (u64 \<times> ref) list \<Rightarrow> reader_state \<Rightarrow> (u64 \<times> item) list \<Rightarrow> bool" where
  "reader_holds pb R reader h = (case reader of
     Reading \<Rightarrow> h = []
   | Holding f \<Rightarrow> (\<exists>i it. h = [(i, it)] \<and> f = item_frame pb i it)
   | Parked r p \<Rightarrow> (\<exists>i. (i, r) \<in> set R \<and> h = [(i, Msg p)])
   | Woken r e \<Rightarrow> h = [] \<and> e = None
   | ReaderDone \<Rightarrow> False)"

text \<open>One stream, from the sender's queue to the receiver's: \<open>held\<close> is on its way, \<open>queued\<close> with the sender.\<close>

definition stream_flow :: "proto \<Rightarrow> stream \<Rightarrow> item list \<Rightarrow> item list \<Rightarrow> stream \<Rightarrow> channel \<Rightarrow> bool" where
  "stream_flow pb sx queued held sy c \<longleftrightarrow>
     filter (\<lambda>x. \<not> oi_barrier x) (st_outbound sx) = map (item_out pb) queued
   \<and> ch_queue c = map Message_Payload (st_inbound sy) @ msgs (held @ queued)
   \<and> ch_closed c = st_sendClosed sx
   \<and> fin_last (held @ queued)
   \<and> st_inboundEOF sy = st_inboundClosed sy
   \<and> (st_inboundClosed sy \<longrightarrow> held @ queued = [])
   \<and> (st_sendEnd sx \<in> {NotCalled, Enqueueing} \<longrightarrow> Fin \<notin> set (held @ queued) \<and> \<not> st_inboundClosed sy)
   \<and> (st_sendEnd sx \<notin> {NotCalled, Enqueueing} \<longrightarrow> Fin \<in> set (held @ queued) \<or> st_inboundClosed sy)
   \<and> (queued \<noteq> [] \<or> st_sendEnd sx \<in> {NotCalled, Enqueueing} \<longrightarrow> st_pumping sx)"

text \<open>
  One direction of the connection, from \<open>X\<close> to \<open>Y\<close>: \<open>n\<close> bytes of what \<open>X\<close> wrote have been carried
  over. \<open>L\<close> lists the streams with their objects at both ends.
\<close>

type_synonym links = "(u64 \<times> ref \<times> ref) list"

definition near :: "links \<Rightarrow> (u64 \<times> ref) list" where
  "near L = map (\<lambda>(i, rx, ry). (i, rx)) L"

definition far :: "links \<Rightarrow> (u64 \<times> ref) list" where
  "far L = map (\<lambda>(i, rx, ry). (i, ry)) L"

definition in_flight :: "('h, 'v, 'w) Session \<Rightarrow> ('a, 'b, 'c) Session \<Rightarrow> nat \<Rightarrow> bytes" where
  "in_flight X Y n = src_bytes (se_source Y) @ drop n (tr_accepted (se_transport X))"

definition flow :: "proto \<Rightarrow> links \<Rightarrow> ('h, 'v, 'w) Session \<Rightarrow> ('a, 'b, 'c) Session \<Rightarrow> nat
    \<Rightarrow> (u64 \<times> item) list \<Rightarrow> (u64 \<times> item) list \<Rightarrow> (u64 \<Rightarrow> item list) \<Rightarrow> channels \<Rightarrow> bool" where
  "flow pb L X Y n h w out q \<longleftrightarrow>
     n \<le> length (tr_accepted (se_transport X))
   \<and> in_flight X Y n = wire_bytes pb w
   \<and> reader_holds pb (far L) (se_reader Y) h
   \<and> (\<forall>(i, it) \<in> set (h @ w). i \<in> set (map fst L) \<and> item_valid pb (se_limits X) it)
   \<and> (\<forall>(i, rx, ry) \<in> set L. list_all (item_valid pb (se_limits X)) (out i)
        \<and> stream_flow pb (se_heap X ! rx) (out i) (of_stream i (h @ w)) (se_heap Y ! ry) (q i))"

text \<open>Whatever one end may send, the other one takes.\<close>

definition compatible :: "proto \<Rightarrow> links \<Rightarrow> ('h, 'v, 'w) Session \<Rightarrow> ('a, 'b, 'c) Session \<Rightarrow> bool" where
  "compatible pb L X Y \<longleftrightarrow> (\<forall>i \<in> set (map fst L). \<forall>it. item_valid pb (se_limits X) it \<longrightarrow>
     link_fits X Y (item_frame pb i it) \<and> item_valid pb (se_limits Y) it)"


subsection \<open>One stream\<close>

text \<open>What each operation of the sender does to one stream.\<close>

lemma stream_flow_Send:
  assumes "stream_flow pb sx queued held sy c" "Send pb limits m sx = (sx', None)" "stream_inv sx"
  shows "\<not> ch_closed c" "item_valid pb limits (Msg (Message_Payload m))"
    "stream_flow pb sx' (queued @ [Msg (Message_Payload m)]) held sy (c\<lparr>ch_queue := ch_queue c @ [Message_Payload m]\<rparr>)"
proof -
  obtain b where b: "mc_marshal (pb_Data pb) (mkData (Message_Payload m)) = Some b" "\<not> st_sendClosed sx"
    "int (length (Message_Payload m)) \<le> MaxStreamMessageBytes limits" "sx' = sx\<lparr>st_outbound := st_outbound sx @ [dataItem b]\<rparr>"
    using assms(2) by (auto simp: Send_def encodeData_def Marshal_def split: option.splits if_splits sum.splits)
  then have n: "st_sendEnd sx = NotCalled" using assms(3) by (simp add: stream_inv_def)
  show "\<not> ch_closed c" "item_valid pb limits (Msg (Message_Payload m))" using assms(1) b by (simp_all add: stream_flow_def)
  have "fin_last ((held @ queued) @ [Msg (Message_Payload m)])"
    by (rule fin_last_snoc) (use assms(1) n in \<open>simp add: stream_flow_def\<close>)
  then show "stream_flow pb sx' (queued @ [Msg (Message_Payload m)]) held sy (c\<lparr>ch_queue := ch_queue c @ [Message_Payload m]\<rparr>)"
    using assms(1) b n by (simp add: stream_flow_def data_body_def)
qed

lemma stream_flow_CloseSend_begin:
  assumes "stream_flow pb sx queued held sy c" "stream_inv sx"
  shows "stream_flow pb (CloseSend_begin sx) queued held sy (c\<lparr>ch_closed := True\<rparr>)"
  using assms by (auto simp: stream_flow_def CloseSend_begin_def stream_inv_def)

lemma stream_flow_CloseSend_enqueue:
  assumes "stream_flow pb sx queued held sy c" "stream_inv sx" "st_ctx sx = None"
  shows "\<exists>more. set more \<subseteq> {Fin} \<and> stream_flow pb (CloseSend_enqueue pick sx) (queued @ more) held sy c"
proof (cases "st_sendEnd sx = Enqueueing \<and> length (st_outbound sx) < st_outboundCap sx")
  case True
  have "fin_last ((held @ queued) @ [Fin])"
    by (rule fin_last_snoc) (use assms(1) True in \<open>simp add: stream_flow_def\<close>)
  then have "stream_flow pb (CloseSend_enqueue pick sx) (queued @ [Fin]) held sy c"
    using assms True by (simp add: stream_flow_def CloseSend_enqueue_def)
  then show ?thesis by (intro exI[of _ "[Fin]"]) simp
next
  case False
  then have "CloseSend_enqueue pick sx = sx" using assms(3) by (auto simp: CloseSend_enqueue_def)
  then show ?thesis using assms(1) by (intro exI[of _ "[]"]) simp
qed

lemma stream_flow_CloseSend_await:
  "stream_flow pb sx queued held sy c \<Longrightarrow> stream_flow pb (CloseSend_await pick sx) queued held sy c"
  by (auto simp: stream_flow_def CloseSend_await_def split: option.splits)

lemma stream_flow_pump_other:
  assumes "stream_flow pb sx queued held sy c" "st_ctx sx = None" "pump_next pick sx = (sx', a)" "\<forall>it. a \<noteq> PumpWrite it"
  shows "stream_flow pb sx' queued held sy c"
  using assms by (auto simp: stream_flow_def pump_next_def Let_def split: if_splits list.splits)

lemma stream_flow_pump_write:
  assumes "stream_flow pb sx queued held sy c" "stream_inv sx" "pump_next pick sx = (sx', PumpWrite x)"
  obtains it rest where "queued = it # rest" "x = item_out pb it"
    "stream_flow pb (pump_wrote x None sx') rest (held @ [it]) sy c"
proof -
  obtain more where more: "st_outbound sx = x # more" "sx' = sx\<lparr>st_outbound := more\<rparr>" "\<not> oi_barrier x" "st_pumping sx"
    "oi_closeSend x \<longrightarrow> st_sendEnd sx \<notin> {NotCalled, Enqueueing}"
    using pump_next_write[OF assms(3,2)] by blast
  then obtain it rest where q: "queued = it # rest" "x = item_out pb it"
    "filter (\<lambda>x. \<not> oi_barrier x) more = map (item_out pb) rest"
    using assms(1) by (auto simp: stream_flow_def)
  have fin: "rest = []" if "it = Fin"
  proof -
    have "list_all oi_barrier more" using assms(2) more(1) q(2) that by (simp add: stream_inv_def)
    then have "filter (\<lambda>x. \<not> oi_barrier x) more = []" by (auto simp: list_all_iff filter_empty_conv)
    then show ?thesis using q(3) by simp
  qed
  have "stream_flow pb (pump_wrote x None sx') rest (held @ [it]) sy c"
    using assms(1) more q fin by (cases it) (auto simp: stream_flow_def pump_wrote_def)
  then show ?thesis using that q by blast
qed

text \<open>And the receiver.\<close>

lemma stream_flow_deliver:
  assumes "stream_flow pb sx queued (Msg p # held) sy c" "st_ctx sy = None" "int (length p) \<le> MaxStreamMessageBytes limits"
  shows "deliver limits pick p sy = (sy, DeliverParked) \<or>
    (\<exists>sy'. deliver limits pick p sy = (sy', Delivered) \<and> stream_flow pb sx queued held sy' c)"
  using assms by (auto simp: stream_flow_def deliver_def)

lemma stream_flow_half:
  assumes "stream_flow pb sx queued (Fin # held) sy c"
  shows "stream_flow pb sx queued held (closeInboundHalf sy) c"
  using assms by (auto simp: stream_flow_def closeInboundHalf_def)


lemma stream_flow_Recv:
  assumes "stream_flow pb sx queued held sy c" "st_ctx sy = None" "stream_inv sx"
  shows "case st_inbound sy of
      m # rest \<Rightarrow> Recv u sy = (sy\<lparr>st_inbound := rest\<rparr>, RecvMessage m)
        \<and> ch_queue c = Message_Payload m # map Message_Payload rest @ msgs (held @ queued)
        \<and> stream_flow pb sx queued held (sy\<lparr>st_inbound := rest\<rparr>) (c\<lparr>ch_queue := map Message_Payload rest @ msgs (held @ queued)\<rparr>)
    | [] \<Rightarrow> (if st_inboundClosed sy then Recv u sy = (sy, RecvError (Sentinel IoEOF)) \<and> ch_queue c = [] \<and> ch_closed c
        else Recv u sy = (sy, RecvParked))"
  using assms by (auto simp: stream_flow_def Recv_def received_def stream_inv_def split: list.split)

subsection \<open>All the streams\<close>

lemma near_far [simp]: "(i, rx, ry) \<in> set L \<Longrightarrow> (i, rx) \<in> set (near L)" "(i, rx, ry) \<in> set L \<Longrightarrow> (i, ry) \<in> set (far L)"
  "map fst (near L) = map fst L" "map fst (far L) = map fst L"
  by (force simp: near_def far_def)+

lemma near_farE:
  "(i, rx) \<in> set (near L) \<Longrightarrow> \<exists>ry. (i, rx, ry) \<in> set L" "(i, ry) \<in> set (far L) \<Longrightarrow> \<exists>rx. (i, rx, ry) \<in> set L"
  by (auto simp: near_def far_def)

lemma endpoint_okD:
  assumes "endpoint_ok R s" "(i, r) \<in> set R"
  shows "i \<noteq> 0" "r < length (se_heap s)" "findStream i s = Some r" "map_get (se_calls s) i = None" "map_get (se_opens s) i = None"
    "st_id (se_heap s ! r) = i" "st_ctx (se_heap s ! r) = None" "stream_inv (se_heap s ! r)" "0 < st_inboundCap (se_heap s ! r)"
  using assms by (auto simp: endpoint_ok_def)

lemma endpoint_ok_stream:
  assumes "endpoint_ok R s" "(i, r) \<in> set R" "st_id st = i" "st_ctx st = None" "stream_inv st" "0 < st_inboundCap st"
    "se_heap s' = (se_heap s)[r := st]" "accepting (se_transport s')" "se_ended s' = se_ended s" "se_limits s' = se_limits s"
    "se_streams s' = se_streams s" "se_calls s' = se_calls s" "se_opens s' = se_opens s"
  shows "endpoint_ok R s'"
proof -
  have "st_id (se_heap s' ! k) = j \<and> st_ctx (se_heap s' ! k) = None \<and> stream_inv (se_heap s' ! k)
      \<and> 0 < st_inboundCap (se_heap s' ! k)" if "(j, k) \<in> set R" for j k
    using endpoint_okD[OF assms(1,2)] endpoint_okD[OF assms(1) that] assms(3-7) by (cases "k = r") auto
  then show ?thesis using assms(1,7-) unfolding endpoint_ok_def by (auto simp: findStream_def)
qed

text \<open>Two streams of an endpoint have different objects.\<close>

lemma other_stream:
  "endpoint_ok R s \<Longrightarrow> (i, r) \<in> set R \<Longrightarrow> (j, k) \<in> set R \<Longrightarrow> j \<noteq> i \<Longrightarrow> k \<noteq> r"
  using endpoint_okD(6) by metis

lemma links_distinct:
  assumes "endpoint_ok (near L) X" "(i, rx, ry) \<in> set L" "(i, rx', ry') \<in> set L"
  shows "rx' = rx \<and> ry' = ry"
proof -
  have "distinct (map fst L)" using assms(1) by (simp add: endpoint_ok_def)
  then show ?thesis using assms(2,3) eq_key_imp_eq_value by fastforce
qed

lemma flowI:
  assumes "n \<le> length (tr_accepted (se_transport X))" "in_flight X Y n = wire_bytes pb w" "reader_holds pb (far L) (se_reader Y) h"
    "\<And>i it. (i, it) \<in> set (h @ w) \<Longrightarrow> i \<in> set (map fst L) \<and> item_valid pb (se_limits X) it"
    "\<And>i rx ry. (i, rx, ry) \<in> set L \<Longrightarrow> list_all (item_valid pb (se_limits X)) (out i)
        \<and> stream_flow pb (se_heap X ! rx) (out i) (of_stream i (h @ w)) (se_heap Y ! ry) (q i)"
  shows "flow pb L X Y n h w out q"
  using assms unfolding flow_def by blast

lemma flowD:
  assumes "flow pb L X Y n h w out q"
  shows "n \<le> length (tr_accepted (se_transport X))" "in_flight X Y n = wire_bytes pb w" "reader_holds pb (far L) (se_reader Y) h"
    "\<And>i it. (i, it) \<in> set (h @ w) \<Longrightarrow> i \<in> set (map fst L) \<and> item_valid pb (se_limits X) it"
    "\<And>i rx ry. (i, rx, ry) \<in> set L \<Longrightarrow> list_all (item_valid pb (se_limits X)) (out i)
        \<and> stream_flow pb (se_heap X ! rx) (out i) (of_stream i (h @ w)) (se_heap Y ! ry) (q i)"
  using assms unfolding flow_def by blast+

lemma flow_sender:
  assumes "flow pb L X Y n h w out q" "endpoint_ok (near L) X" "(i, rx, ry) \<in> set L"
    "se_heap X' = (se_heap X)[rx := sx]" "se_limits X' = se_limits X"
    "tr_accepted (se_transport X') = tr_accepted (se_transport X) @ wire_bytes pb (map (Pair i) its)"
    "list_all (item_valid pb (se_limits X)) (its @ queued)"
    "stream_flow pb sx queued (of_stream i (h @ w) @ its) (se_heap Y ! ry) c"
  shows "flow pb L X' Y n h (w @ map (Pair i) its) (out(i := queued)) (q(i := c))"
proof -
  have new: "of_stream j (map (Pair i) its) = (if j = i then its else [])" for j by (simp add: of_stream_def comp_def)
  have "stream_flow pb (se_heap X' ! k) ((out(i := queued)) j) (of_stream j (h @ w @ map (Pair i) its)) (se_heap Y ! l) ((q(i := c)) j)
      \<and> list_all (item_valid pb (se_limits X')) ((out(i := queued)) j)"
    if "(j, k, l) \<in> set L" for j k l
  proof (cases "j = i")
    case True
    then have "k = rx" "l = ry" using links_distinct[OF assms(2,3)] that by auto
    then show ?thesis using assms(4-8) endpoint_okD(2)[OF assms(2) near_far(1)[OF assms(3)]] True new by simp
  next
    case False
    then have "k \<noteq> rx" using other_stream[OF assms(2)] near_far(1)[OF assms(3)] near_far(1)[OF that] by blast
    then show ?thesis using flowD(5)[OF assms(1) that] assms(4,5) new False by simp
  qed
  moreover have "j \<in> set (map fst L) \<and> item_valid pb (se_limits X') it" if "(j, it) \<in> set (h @ w @ map (Pair i) its)" for j it
  proof -
    have "i \<in> fst ` set L" using assms(3) by force
    then show ?thesis using flowD(4)[OF assms(1), of j it] that assms(5,7) by (auto simp: list_all_iff)
  qed
  moreover have "in_flight X' Y n = wire_bytes pb (w @ map (Pair i) its)"
    using flowD(1,2)[OF assms(1)] assms(6) by (simp add: in_flight_def wire_bytes_def)
  ultimately show ?thesis
    using flowD(1,3)[OF assms(1)] assms(6) by (intro flowI) simp_all
qed

lemma flow_receiver:
  assumes "flow pb L X Y n h w out q" "endpoint_ok (far L) Y" "endpoint_ok (near L) X" "(i, rx, ry) \<in> set L"
    "se_heap Y' = (se_heap Y)[ry := sy]" "se_source Y' = se_source Y"
    "reader_holds pb (far L) (se_reader Y') h'" "set h' \<subseteq> set h" "\<forall>j. j \<noteq> i \<longrightarrow> of_stream j h' = of_stream j h"
    "stream_flow pb (se_heap X ! rx) (out i) (of_stream i (h' @ w)) sy c"
  shows "flow pb L X Y' n h' w out (q(i := c))"
proof -
  have "stream_flow pb (se_heap X ! k) (out j) (of_stream j (h' @ w)) (se_heap Y' ! l) ((q(i := c)) j)"
    if "(j, k, l) \<in> set L" for j k l
  proof (cases "j = i")
    case True
    then have "k = rx" "l = ry" using links_distinct[OF assms(3,4)] that by auto
    then show ?thesis using assms(5,10) endpoint_okD(2)[OF assms(2) near_far(2)[OF assms(4)]] True by simp
  next
    case False
    then have "l \<noteq> ry" using other_stream[OF assms(2)] near_far(2)[OF assms(4)] near_far(2)[OF that] by blast
    then show ?thesis using flowD(5)[OF assms(1) that] assms(5,9) False by simp
  qed
  moreover have "j \<in> set (map fst L) \<and> item_valid pb (se_limits X) it" if "(j, it) \<in> set (h' @ w)" for j it
    using flowD(4)[OF assms(1), of j it] that assms(8) by auto
  moreover have "in_flight X Y' n = wire_bytes pb w" using flowD(2)[OF assms(1)] assms(6) by (simp add: in_flight_def)
  ultimately show ?thesis using flowD(1,5)[OF assms(1)] assms(7) by (intro flowI) simp_all
qed


text \<open>The two halves of an endpoint do not touch each other's fields, and neither changes the capacity.\<close>

definition send_view :: "stream \<Rightarrow> outboundItem list \<times> bool \<times> progress \<times> bool \<times> nat" where
  "send_view st = (st_outbound st, st_sendClosed st, st_sendEnd st, st_pumping st, st_inboundCap st)"

definition recv_view :: "stream \<Rightarrow> Message list \<times> bool \<times> bool \<times> nat" where
  "recv_view st = (st_inbound st, st_inboundClosed st, st_inboundEOF st, st_inboundCap st)"

definition same_sender :: "('h, 'v, 'w) Session \<Rightarrow> ('h, 'v, 'w) Session \<Rightarrow> bool" where
  "same_sender s s' \<longleftrightarrow> se_limits s' = se_limits s \<and> se_transport s' = se_transport s
     \<and> map send_view (se_heap s') = map send_view (se_heap s)"

definition same_receiver :: "('h, 'v, 'w) Session \<Rightarrow> ('h, 'v, 'w) Session \<Rightarrow> bool" where
  "same_receiver s s' \<longleftrightarrow> se_limits s' = se_limits s \<and> se_source s' = se_source s \<and> se_reader s' = se_reader s
     \<and> map recv_view (se_heap s') = map recv_view (se_heap s)"

lemma stream_flow_views:
  "send_view sx' = send_view sx \<Longrightarrow> recv_view sy' = recv_view sy \<Longrightarrow>
   stream_flow pb sx' queued held sy' c = stream_flow pb sx queued held sy c"
  by (simp add: stream_flow_def send_view_def recv_view_def)

lemma view_nth: "map v xs = map v ys \<Longrightarrow> r < length ys \<Longrightarrow> v (xs ! r) = v (ys ! r)"
  by (metis length_map nth_map)

lemma view_update: "v x = v (xs ! r) \<Longrightarrow> map v (xs[r := x]) = map v xs"
  by (rule nth_equalityI) (simp_all, metis nth_list_update_eq nth_list_update_neq)

lemma flow_same_receiver:
  assumes "flow pb L X Y n h w out q" "same_receiver Y Y'" "endpoint_ok (far L) Y"
  shows "flow pb L X Y' n h w out q"
proof (rule flowI)
  fix i rx ry assume l: "(i, rx, ry) \<in> set L"
  have "recv_view (se_heap Y' ! ry) = recv_view (se_heap Y ! ry)"
    using assms(2) endpoint_okD(2)[OF assms(3) near_far(2)[OF l]] by (auto simp: same_receiver_def intro: view_nth)
  then show "list_all (item_valid pb (se_limits X)) (out i)
      \<and> stream_flow pb (se_heap X ! rx) (out i) (of_stream i (h @ w)) (se_heap Y' ! ry) (q i)"
    using flowD(5)[OF assms(1) l] stream_flow_views[OF refl] by blast
qed (use flowD(1-4)[OF assms(1)] assms(2) in \<open>simp_all add: in_flight_def same_receiver_def\<close>)

lemma flow_same_sender:
  assumes "flow pb L X Y n h w out q" "same_sender X X'" "endpoint_ok (near L) X"
  shows "flow pb L X' Y n h w out q"
proof (rule flowI)
  fix i rx ry assume l: "(i, rx, ry) \<in> set L"
  have "send_view (se_heap X' ! rx) = send_view (se_heap X ! rx)"
    using assms(2) endpoint_okD(2)[OF assms(3) near_far(1)[OF l]] by (auto simp: same_sender_def intro: view_nth)
  then show "list_all (item_valid pb (se_limits X')) (out i)
      \<and> stream_flow pb (se_heap X' ! rx) (out i) (of_stream i (h @ w)) (se_heap Y ! ry) (q i)"
    using flowD(5)[OF assms(1) l] stream_flow_views[OF _ refl] assms(2) unfolding same_sender_def by metis
qed (use flowD(1-4)[OF assms(1)] assms(2) in \<open>simp_all add: in_flight_def same_sender_def\<close>)


subsection \<open>The sending half\<close>

text \<open>What one step of the sender establishes.\<close>

definition sender_simulated :: "proto \<Rightarrow> links \<Rightarrow> ('h, 'v, 'w) Session \<Rightarrow> ('h, 'v, 'w) Session \<Rightarrow> ('a, 'b, 'c) Session \<Rightarrow> nat
    \<Rightarrow> (u64 \<times> item) list \<Rightarrow> channels \<Rightarrow> chan_event \<Rightarrow> bool" where
  "sender_simulated pb L X X' Y n h q e \<longleftrightarrow> endpoint_ok (near L) X' \<and> same_receiver X X'
     \<and> (\<exists>w out q'. flow pb L X' Y n h w out q' \<and> send_spec q e q')"

lemma sender_update:
  assumes f: "flow pb L X Y n h w out q" and ok: "endpoint_ok (near L) X" and l: "(i, rx, ry) \<in> set L"
    and X': "X' = X\<lparr>se_heap := (se_heap X)[rx := sx], se_transport := (se_transport X)\<lparr>tr_accepted := tr_accepted (se_transport X) @ wire_bytes pb (map (Pair i) its)\<rparr>\<rparr>"
    and sx: "evolves (se_heap X ! rx) sx" "st_ctx sx = None" "recv_view sx = recv_view (se_heap X ! rx)"
    and new: "list_all (item_valid pb (se_limits X)) (its @ queued)"
      "stream_flow pb sx queued (of_stream i (h @ w) @ its) (se_heap Y ! ry) c"
    and spec: "send_spec q e (q(i := c))"
  shows "sender_simulated pb L X X' Y n h q e"
proof -
  note here = endpoint_okD[OF ok near_far(1)[OF l]]
  have fields: "se_heap X' = (se_heap X)[rx := sx]" "se_limits X' = se_limits X"
    "tr_accepted (se_transport X') = tr_accepted (se_transport X) @ wire_bytes pb (map (Pair i) its)"
    "se_ended X' = se_ended X" "se_streams X' = se_streams X" "se_calls X' = se_calls X" "se_opens X' = se_opens X"
    "accepting (se_transport X')"
    using ok by (simp_all add: X' endpoint_ok_def accepting_def)
  have "st_id sx = i" "stream_inv sx" "0 < st_inboundCap sx" using sx(1,3) here by (simp_all add: evolves_def recv_view_def)
  then have "endpoint_ok (near L) X'"
    using endpoint_ok_stream[OF ok near_far(1)[OF l] _ sx(2) _ _ fields(1,8,4,2,5,6,7)] by blast
  moreover have "flow pb L X' Y n h (w @ map (Pair i) its) (out(i := queued)) (q(i := c))"
    by (rule flow_sender[OF f ok l fields(1-3) new])
  moreover have "same_receiver X X'"
    using view_update[OF sx(3)] by (simp add: same_receiver_def X')
  ultimately show ?thesis using spec unfolding sender_simulated_def by blast
qed

lemma wire_bytes_simps [simp]: "wire_bytes pb [] = []" "wire_bytes pb [(i, it)] = frame_encode (item_frame pb i it)"
  by (simp_all add: wire_bytes_def)

lemma sender_local:
  assumes "flow pb L X Y n h w out q" "endpoint_ok (near L) X" "(i, rx, ry) \<in> set L"
    "evolves (se_heap X ! rx) sx" "st_ctx sx = None" "recv_view sx = recv_view (se_heap X ! rx)"
    "list_all (item_valid pb (se_limits X)) queued"
    "stream_flow pb sx queued (of_stream i (h @ w)) (se_heap Y ! ry) c" "send_spec q e (q(i := c))"
  shows "sender_simulated pb L X (X\<lparr>se_heap := (se_heap X)[rx := sx]\<rparr>) Y n h q e"
  by (rule sender_update[OF assms(1-3), where its = "[]" and sx = sx]) (use assms in simp_all)


lemma recv_view_send [simp]:
  "recv_view (fst (Send pb lim m st)) = recv_view st" "recv_view (CloseSend_begin st) = recv_view st"
  "recv_view (CloseSend_enqueue pick st) = recv_view st" "recv_view (CloseSend_await pick st) = recv_view st"
  "recv_view (fst (pump_next pick st)) = recv_view st" "recv_view (pump_wrote x err st) = recv_view st"
  by (simp_all add: recv_view_def Send_def CloseSend_begin_def CloseSend_enqueue_def CloseSend_await_def pump_next_def
      pump_wrote_def Let_def split: option.split sum.split list.split)

lemma ctx_send [simp]:
  "st_ctx (fst (Send pb lim m st)) = st_ctx st" "st_ctx (CloseSend_begin st) = st_ctx st"
  "st_ctx (CloseSend_enqueue pick st) = st_ctx st" "st_ctx (CloseSend_await pick st) = st_ctx st"
  "st_ctx (fst (pump_next pick st)) = st_ctx st" "st_ctx (pump_wrote x err st) = st_ctx st"
  by (simp_all add: Send_def CloseSend_begin_def CloseSend_enqueue_def CloseSend_await_def pump_next_def
      pump_wrote_def Let_def split: option.split sum.split list.split)

lemma list_all_Fin: "set xs \<subseteq> {Fin} \<Longrightarrow> list_all (item_valid pb limits) xs"
  by (induction xs) auto

lemma simulate_Send:
  assumes f: "flow pb L X Y n h w out q" and ok: "endpoint_ok (near L) X" and l: "(i, rx, ry) \<in> set L"
    and send: "session_Send pb rx m X = (X', err)"
  shows "sender_simulated pb L X X' Y n h q (if err = None then Sent i (Message_Payload m) else Internal)"
proof -
  note here = endpoint_okD[OF ok near_far(1)[OF l]]
  obtain sx where s: "Send pb (se_limits X) m (se_heap X ! rx) = (sx, err)" "X' = X\<lparr>se_heap := (se_heap X)[rx := sx]\<rparr>"
    using send by (auto simp: session_Send_def upd_stream_def split: prod.splits)
  have sf: "list_all (item_valid pb (se_limits X)) (out i)"
    "stream_flow pb (se_heap X ! rx) (out i) (of_stream i (h @ w)) (se_heap Y ! ry) (q i)"
    using flowD(5)[OF f l] by auto
  have sx: "evolves (se_heap X ! rx) sx" "st_ctx sx = None" "recv_view sx = recv_view (se_heap X ! rx)"
    using evolves_ops(2)[of "se_heap X ! rx" pb "se_limits X" m] ctx_send(1) recv_view_send(1) here(7) s(1) by (metis fst_conv)+
  show ?thesis
  proof (cases err)
    case None
    note new = stream_flow_Send[OF sf(2) s(1)[unfolded None] here(8)]
    show ?thesis unfolding s(2)
      by (rule sender_local[OF f ok l sx _ new(3)]) (use None new sf(1) in \<open>auto intro: spec_send\<close>)
  next
    case (Some e)
    then have "sx = se_heap X ! rx" using s(1) by (auto simp: Send_def split: option.splits sum.splits if_splits)
    then show ?thesis unfolding s(2)
      by (intro sender_local[OF f ok l sx sf(1)]) (use Some sf(2) in \<open>auto intro: spec_silent_sender\<close>)
  qed
qed

lemma simulate_CloseSend:
  assumes f: "flow pb L X Y n h w out q" and ok: "endpoint_ok (near L) X" and l: "(i, rx, ry) \<in> set L"
  shows "sender_simulated pb L X (upd_stream rx CloseSend_begin X) Y n h q (HalfClosed i)"
    "sender_simulated pb L X (upd_stream rx (CloseSend_enqueue pick) X) Y n h q Internal"
    "sender_simulated pb L X (upd_stream rx (CloseSend_await pick) X) Y n h q Internal"
proof -
  note here = endpoint_okD[OF ok near_far(1)[OF l]]
  have sf: "list_all (item_valid pb (se_limits X)) (out i)"
    "stream_flow pb (se_heap X ! rx) (out i) (of_stream i (h @ w)) (se_heap Y ! ry) (q i)"
    using flowD(5)[OF f l] by auto
  show "sender_simulated pb L X (upd_stream rx CloseSend_begin X) Y n h q (HalfClosed i)"
    unfolding upd_stream_def
    by (rule sender_local[OF f ok l _ _ _ sf(1) stream_flow_CloseSend_begin[OF sf(2) here(8)]]) (simp_all add: here(7) spec_close)
  obtain more where more: "set more \<subseteq> {Fin}"
    "stream_flow pb (CloseSend_enqueue pick (se_heap X ! rx)) (out i @ more) (of_stream i (h @ w)) (se_heap Y ! ry) (q i)"
    using stream_flow_CloseSend_enqueue[OF sf(2) here(8,7)] by blast
  have same: "send_spec q Internal (q(i := q i))" by (simp add: spec_silent_sender)
  show "sender_simulated pb L X (upd_stream rx (CloseSend_enqueue pick) X) Y n h q Internal"
    unfolding upd_stream_def
    by (rule sender_local[OF f ok l _ _ _ _ more(2) same]) (simp_all add: here(7) sf(1) list_all_Fin[OF more(1)])
  show "sender_simulated pb L X (upd_stream rx (CloseSend_await pick) X) Y n h q Internal"
    unfolding upd_stream_def
    by (rule sender_local[OF f ok l _ _ _ sf(1) stream_flow_CloseSend_await[OF sf(2)] same]) (simp_all add: here(7))
qed


lemma compatibleD:
  assumes "compatible pb L X Y" "(i, rx, ry) \<in> set L" "item_valid pb (se_limits X) it"
  shows "frame_fits (MaxMessageBytes (se_limits X)) (item_frame pb i it)" "frame_fits (MaxMessageBytes (se_limits Y)) (item_frame pb i it)"
    "item_valid pb (se_limits Y) it"
  using assms by (force simp: compatible_def link_fits_def)+

lemma simulate_pump:
  assumes f: "flow pb L X Y n h w out q" and ok: "endpoint_ok (near L) X" and l: "(i, rx, ry) \<in> set L"
    and fit: "compatible pb L X Y"
  shows "sender_simulated pb L X (pump pick rx X) Y n h q Internal"
proof -
  note here = endpoint_okD[OF ok near_far(1)[OF l]]
  have same: "send_spec q Internal (q(i := q i))" by (simp add: spec_silent_sender)
  have sf: "list_all (item_valid pb (se_limits X)) (out i)"
    "stream_flow pb (se_heap X ! rx) (out i) (of_stream i (h @ w)) (se_heap Y ! ry) (q i)"
    using flowD(5)[OF f l] by auto
  obtain st a where a: "pump_next pick (se_heap X ! rx) = (st, a)" by fastforce
  then have st: "evolves (se_heap X ! rx) st" "st_ctx st = None" "recv_view st = recv_view (se_heap X ! rx)"
    using evolves_ops(4)[of "se_heap X ! rx" pick] ctx_send(5)[of pick "se_heap X ! rx"] recv_view_send(5)[of pick "se_heap X ! rx"] here(7)
    by simp_all
  show ?thesis
  proof (cases "\<exists>x. a = PumpWrite x")
    case False
    then have "pump pick rx X = X\<lparr>se_heap := (se_heap X)[rx := st]\<rparr>"
      by (cases a) (simp_all add: pump_def a upd_stream_def)
    then show ?thesis
      using sender_local[OF f ok l st sf(1) stream_flow_pump_other[OF sf(2) here(7) a] same] False by simp
  next
    case True
    then obtain x where x: "pump_next pick (se_heap X ! rx) = (st, PumpWrite x)" using a by blast
    obtain it rest where it: "out i = it # rest" "x = item_out pb it"
      "stream_flow pb (pump_wrote x None st) rest (of_stream i (h @ w) @ [it]) (se_heap Y ! ry) (q i)"
      by (rule stream_flow_pump_write[OF sf(2) here(8) x])
    obtain more where more: "oi_closeSend x \<longrightarrow> st_sendEnd (se_heap X ! rx) \<notin> {NotCalled, Enqueueing}" "st = (se_heap X ! rx)\<lparr>st_outbound := more\<rparr>"
      using pump_next_write[OF x here(8)] by blast
    have "stream_inv (pump_wrote x None st)"
      by (rule pump_wrote_inv) (use st(1) here(8) more in \<open>simp_all add: evolves_def\<close>)
    then have ev: "evolves (se_heap X ! rx) (pump_wrote x None st)"
      using st(1,2) here(7) by (simp add: evolves_def pump_wrote_def)
    have frame: "(if oi_closeSend x then \<lparr>Frame_Type = FrameCloseSend, Frame_StreamID = st_id st, Frame_Payload = []\<rparr>
        else frameData (st_id st) (oi_body x)) = item_frame pb i it"
      using it(2) here(6) more(2) by (cases it) simp_all
    have valid: "item_valid pb (se_limits X) it" "list_all (item_valid pb (se_limits X)) rest" using sf(1) it(1) by simp_all
    have "pump pick rx X = X\<lparr>se_heap := (se_heap X)[rx := pump_wrote x None st],
        se_transport := (se_transport X)\<lparr>tr_accepted := tr_accepted (se_transport X) @ wire_bytes pb (map (Pair i) [it])\<rparr>\<rparr>"
      using ok compatibleD(1)[OF fit l valid(1)] here(2)
      by (simp add: pump_def x frame upd_stream_def endpoint_ok_def writeFrame_accepting Let_def)
    then show ?thesis
      by (rule sender_update[OF f ok l _ ev _ _ _ it(3) same]) (use st valid in simp_all)
  qed
qed

lemma send_step_simulated:
  assumes "send_step pb (near L) X e X'" "flow pb L X Y n h w out q" "endpoint_ok (near L) X" "compatible pb L X Y"
  shows "sender_simulated pb L X X' Y n h q e"
  using assms(1)
proof cases
  case (sends i r m)
  then show ?thesis using simulate_Send[OF assms(2,3) _ sends(3)] near_farE(1) by fastforce
next
  case (refuses i r m err)
  then show ?thesis using simulate_Send[OF assms(2,3) _ refuses(3)] near_farE(1) by fastforce
next
  case (closes i r)
  then show ?thesis using simulate_CloseSend(1)[OF assms(2,3)] near_farE(1) by blast
next
  case (closing i r f pick)
  then show ?thesis using simulate_CloseSend(2,3)[OF assms(2,3)] near_farE(1) by blast
next
  case (pumps i r pick)
  then show ?thesis using simulate_pump[OF assms(2,3) _ assms(4)] near_farE(1) by blast
qed


subsection \<open>The receiving half\<close>

definition receiver_simulated :: "proto \<Rightarrow> links \<Rightarrow> ('h, 'v, 'w) Session \<Rightarrow> ('a, 'b, 'c) Session \<Rightarrow> ('a, 'b, 'c) Session \<Rightarrow> nat
    \<Rightarrow> channels \<Rightarrow> chan_event \<Rightarrow> bool" where
  "receiver_simulated pb L X Y Y' n q e \<longleftrightarrow> endpoint_ok (far L) Y' \<and> same_sender Y Y'
     \<and> (\<exists>h w out q'. flow pb L X Y' n h w out q' \<and> recv_spec q e q')"

lemma receiver_idle:
  "flow pb L X Y n h w out q \<Longrightarrow> endpoint_ok (far L) Y \<Longrightarrow> receiver_simulated pb L X Y Y n q Internal"
  unfolding receiver_simulated_def same_sender_def by (blast intro: spec_silent_receiver)

lemma receiver_update:
  assumes f: "flow pb L X Y n h w out q" and ok: "endpoint_ok (far L) Y" "endpoint_ok (near L) X" and l: "(i, rx, ry) \<in> set L"
    and sy: "evolves (se_heap Y ! ry) sy" "st_ctx sy = None" "send_view sy = send_view (se_heap Y ! ry)"
    and r: "reader_holds pb (far L) reader h'" "set h' \<subseteq> set h" "\<forall>j. j \<noteq> i \<longrightarrow> of_stream j h' = of_stream j h"
    and new: "stream_flow pb (se_heap X ! rx) (out i) (of_stream i (h' @ w)) sy c" and spec: "recv_spec q e (q(i := c))"
  shows "receiver_simulated pb L X Y (Y\<lparr>se_heap := (se_heap Y)[ry := sy], se_reader := reader\<rparr>) n q e"
proof -
  let ?Y = "Y\<lparr>se_heap := (se_heap Y)[ry := sy], se_reader := reader\<rparr>"
  note here = endpoint_okD[OF ok(1) near_far(2)[OF l]]
  have "st_id sy = i" "stream_inv sy" "0 < st_inboundCap sy" using sy(1,3) here by (simp_all add: evolves_def send_view_def)
  then have "endpoint_ok (far L) ?Y"
    by (intro endpoint_ok_stream[OF ok(1) near_far(2)[OF l] _ sy(2)]) (use ok(1) in \<open>simp_all add: endpoint_ok_def\<close>)
  moreover have "flow pb L X ?Y n h' w out (q(i := c))"
    by (rule flow_receiver[OF f ok l]) (use r new in simp_all)
  moreover have "same_sender Y ?Y" using view_update[OF sy(3)] by (simp add: same_sender_def)
  ultimately show ?thesis using spec unfolding receiver_simulated_def by blast
qed

lemma frame_encode_inj:
  assumes "frame_encode f @ x = frame_encode g @ y" "frame_fits n f" "frame_fits n g"
  shows "f = g \<and> x = y"
proof -
  let ?src = "\<lambda>b. \<lparr>src_bytes = b, src_end = Sentinel IoEOF\<rparr>"
  have read: "ReadFrame \<lparr>rd_maxBodySize = n\<rparr> (?src (frame_encode k @ z)) = (Inr k, ?src z)" if "frame_fits n k" for k z
    using that ReadFrame_encode[of k "\<lparr>rd_maxBodySize = n\<rparr>" "?src (frame_encode k @ z)" z] by (simp add: frame_fits_def)
  have "(Inr f, ?src x) = ReadFrame \<lparr>rd_maxBodySize = n\<rparr> (?src (frame_encode g @ y))"
    unfolding assms(1)[symmetric] by (rule read[OF assms(2), symmetric])
  also have "\<dots> = (Inr g, ?src y)" by (rule read[OF assms(3)])
  finally show ?thesis by simp
qed

lemma simulate_read:
  assumes f: "flow pb L X Y n h w out q" and ok: "endpoint_ok (far L) Y" and fit: "compatible pb L X Y"
    and r: "se_reader Y = Reading" "ReadFrame (NewReader (MaxMessageBytes (se_limits Y))) (se_source Y) = (Inr g, src)"
  shows "receiver_simulated pb L X Y (readLoop_read Y) n q Internal"
proof -
  note read = ReadFrame_Inr[OF r(2)]
  have h: "h = []" using flowD(3)[OF f] r(1) by (simp add: reader_holds_def)
  have wire: "frame_encode g @ src_bytes src @ drop n (tr_accepted (se_transport X)) = wire_bytes pb w"
    using flowD(2)[OF f] read(1) by (simp add: in_flight_def)
  then have "w \<noteq> []" by (auto simp: frame_encode_def wire_bytes_def frame_header_def)
  then obtain i it w' where w: "w = (i, it) # w'" by (cases w) auto
  have iv: "i \<in> set (map fst L)" "item_valid pb (se_limits X) it" using flowD(4)[OF f, of i it] w by simp_all
  then obtain rx ry where l: "(i, rx, ry) \<in> set L" by auto
  have "frame_fits (MaxMessageBytes (se_limits Y)) g" using read ok by (simp add: frame_fits_def NewReader_def endpoint_ok_def)
  then have g: "g = item_frame pb i it" "src_bytes src @ drop n (tr_accepted (se_transport X)) = wire_bytes pb w'"
    using frame_encode_inj[of g _ "item_frame pb i it" "wire_bytes pb w'"] wire w compatibleD(2)[OF fit l iv(2)]
    by (auto simp: wire_bytes_def)
  have Y': "readLoop_read Y = Y\<lparr>se_source := src, se_reader := Holding g\<rparr>"
    using ok r(2) by (simp add: readLoop_read_def endpoint_ok_def accepting_def)
  have "flow pb L X (Y\<lparr>se_source := src, se_reader := Holding g\<rparr>) n [(i, it)] w' out q"
    using flowD[OF f] g h w by (intro flowI) (auto simp: in_flight_def reader_holds_def)
  moreover have "endpoint_ok (far L) (Y\<lparr>se_source := src, se_reader := Holding g\<rparr>)" using ok by (simp add: endpoint_ok_def findStream_def)
  ultimately show ?thesis unfolding Y' receiver_simulated_def same_sender_def using spec_silent_receiver by fastforce
qed


lemma send_view_recv [simp]:
  "send_view (fst (deliver lim pick p st)) = send_view st" "send_view (closeInboundHalf st) = send_view st"
  "send_view (st\<lparr>st_inbound := x\<rparr>) = send_view st"
  by (simp_all add: send_view_def deliver_def closeInboundHalf_def split: option.split)

lemma dispatch_item:
  assumes "endpoint_ok R s" "(i, r) \<in> set R" "se_reader s = Holding (item_frame pb i it)"
  shows "readLoop_dispatch pb ops now pick s = readLoop_continue (serveFrame pb pick r (item_frame pb i it) s)"
proof -
  have "Frame_StreamID (item_frame pb i it) = i" "Frame_Type (item_frame pb i it) \<in> {FrameData, FrameCloseSend}"
    by (cases it; simp add: frameData_def)+
  then show ?thesis
    using endpoint_okD[OF assms(1,2)] assms(3)
    by (auto simp: readLoop_dispatch_def dispatch_def dispatchScoped_def Let_def takeCall_def takeOpen_def)
qed

lemma dispatch_message:
  assumes pb: "proto_roundtrip pb" and ok: "endpoint_ok (far L) Y" and fit: "compatible pb L X Y" and l: "(i, rx, ry) \<in> set L"
    and h: "se_reader Y = Holding (item_frame pb i (Msg p))" and v: "item_valid pb (se_limits X) (Msg p)"
  shows "readLoop_dispatch pb ops now pick Y = readLoop_continue (case deliver (se_limits Y) pick p (se_heap Y ! ry) of
           (sy, Delivered) \<Rightarrow> (upd_stream ry (\<lambda>_. sy) Y, FlowOk)
         | (sy, DeliverError err) \<Rightarrow> delivery_failed pb ry err Y
         | (sy, DeliverParked) \<Rightarrow> (Y, FlowParked ry p))"
    and "int (length p) \<le> MaxStreamMessageBytes (se_limits Y)"
proof -
  have "Unmarshal (pb_Data pb) Data_unknownFields (data_body pb p) = Inr (mkData p)"
    using pb v codec_roundtripD[of "pb_Data pb" Data_unknownFields "mkData p"]
    by (auto simp: proto_roundtrip_def Unmarshal_def data_body_def)
  then show "readLoop_dispatch pb ops now pick Y = readLoop_continue (case deliver (se_limits Y) pick p (se_heap Y ! ry) of
           (sy, Delivered) \<Rightarrow> (upd_stream ry (\<lambda>_. sy) Y, FlowOk)
         | (sy, DeliverError err) \<Rightarrow> delivery_failed pb ry err Y
         | (sy, DeliverParked) \<Rightarrow> (Y, FlowParked ry p))"
    unfolding dispatch_item[OF ok near_far(2)[OF l] h] by (simp add: serveFrame_def frameData_def)
  show "int (length p) \<le> MaxStreamMessageBytes (se_limits Y)" using compatibleD(3)[OF fit l v] by simp
qed

lemma simulate_dispatch_message:
  assumes pb: "proto_roundtrip pb" and f: "flow pb L X Y n [(i, Msg p)] w out q" and ok: "endpoint_ok (far L) Y" "endpoint_ok (near L) X"
    and fit: "compatible pb L X Y" and l: "(i, rx, ry) \<in> set L" and h: "se_reader Y = Holding (item_frame pb i (Msg p))"
    and step: "\<And>sy. evolves (se_heap Y ! ry) sy \<Longrightarrow> st_ctx sy = None \<Longrightarrow> send_view sy = send_view (se_heap Y ! ry) \<Longrightarrow>
      stream_flow pb (se_heap X ! rx) (out i) (of_stream i w) sy (q i) \<Longrightarrow>
      receiver_simulated pb L X Y (Y\<lparr>se_heap := (se_heap Y)[ry := sy], se_reader := Reading\<rparr>) n q Internal"
  shows "receiver_simulated pb L X Y (readLoop_dispatch pb ops now pick Y) n q Internal"
proof -
  have v: "item_valid pb (se_limits X) (Msg p)" using flowD(4)[OF f, of i "Msg p"] by simp
  note here = endpoint_okD[OF ok(1) near_far(2)[OF l]] and serve = dispatch_message[OF pb ok(1) fit l h v]
  have sf: "stream_flow pb (se_heap X ! rx) (out i) (Msg p # of_stream i w) (se_heap Y ! ry) (q i)" using flowD(5)[OF f l] by simp
  from stream_flow_deliver[OF sf here(7) serve(2), of pick] show ?thesis
  proof
    assume "deliver (se_limits Y) pick p (se_heap Y ! ry) = (se_heap Y ! ry, DeliverParked)"
    then have "readLoop_dispatch pb ops now pick Y = Y\<lparr>se_heap := (se_heap Y)[ry := se_heap Y ! ry], se_reader := Parked ry p\<rparr>"
      by (simp add: serve(1) readLoop_continue_def)
    moreover have "receiver_simulated pb L X Y (Y\<lparr>se_heap := (se_heap Y)[ry := se_heap Y ! ry], se_reader := Parked ry p\<rparr>) n q Internal"
      by (rule receiver_update[OF f ok l _ here(7), where h' = "[(i, Msg p)]" and c = "q i"])
        (use sf l spec_silent_receiver in \<open>auto simp: reader_holds_def\<close>)
    ultimately show ?thesis by simp
  next
    assume "\<exists>sy. deliver (se_limits Y) pick p (se_heap Y ! ry) = (sy, Delivered) \<and>
      stream_flow pb (se_heap X ! rx) (out i) (of_stream i w) sy (q i)"
    then obtain sy where go: "deliver (se_limits Y) pick p (se_heap Y ! ry) = (sy, Delivered)"
        "stream_flow pb (se_heap X ! rx) (out i) (of_stream i w) sy (q i)" by blast
    then have "readLoop_dispatch pb ops now pick Y = Y\<lparr>se_heap := (se_heap Y)[ry := sy], se_reader := Reading\<rparr>"
      by (simp add: serve(1) upd_stream_def readLoop_continue_def)
    moreover have "evolves (se_heap Y ! ry) sy" "send_view sy = send_view (se_heap Y ! ry)"
      using evolves_ops(3)[of "se_heap Y ! ry" "se_limits Y" pick p] send_view_recv(1)[of "se_limits Y" pick p "se_heap Y ! ry"] go(1) by simp_all
    moreover have "st_ctx sy = None" using go(1) here(7) by (auto simp: deliver_def split: if_splits)
    ultimately show ?thesis using step go(2) by simp
  qed
qed

lemma simulate_dispatch:
  assumes pb: "proto_roundtrip pb" and f: "flow pb L X Y n h w out q" and ok: "endpoint_ok (far L) Y" "endpoint_ok (near L) X"
    and fit: "compatible pb L X Y"
  shows "receiver_simulated pb L X Y (readLoop_dispatch pb ops now pick Y) n q Internal"
proof (cases "\<exists>g. se_reader Y = Holding g")
  case False
  then have "readLoop_dispatch pb ops now pick Y = Y" by (cases "se_reader Y") (simp_all add: readLoop_dispatch_def)
  then show ?thesis using receiver_idle[OF f ok(1)] by simp
next
  case True
  then obtain i it where h: "h = [(i, it)]" "se_reader Y = Holding (item_frame pb i it)"
    using flowD(3)[OF f] by (auto simp: reader_holds_def)
  then obtain rx ry where l: "(i, rx, ry) \<in> set L" using flowD(4)[OF f, of i it] by auto
  have sf: "stream_flow pb (se_heap X ! rx) (out i) (it # of_stream i w) (se_heap Y ! ry) (q i)"
    using flowD(5)[OF f l] h(1) by simp
  have step: "receiver_simulated pb L X Y (Y\<lparr>se_heap := (se_heap Y)[ry := sy], se_reader := Reading\<rparr>) n q Internal"
    if "evolves (se_heap Y ! ry) sy" "st_ctx sy = None" "send_view sy = send_view (se_heap Y ! ry)"
      "stream_flow pb (se_heap X ! rx) (out i) (of_stream i w) sy (q i)" for sy
    by (rule receiver_update[OF f ok l that(1-3), where h' = "[]" and c = "q i"])
      (use that(4) h(1) in \<open>simp_all add: reader_holds_def spec_silent_receiver\<close>)
  show ?thesis
  proof (cases it)
    case Fin
    have "readLoop_dispatch pb ops now pick Y
        = Y\<lparr>se_heap := (se_heap Y)[ry := closeInboundHalf (se_heap Y ! ry)], se_reader := Reading\<rparr>"
      by (simp add: dispatch_item[OF ok(1) near_far(2)[OF l] h(2)] Fin serveFrame_def upd_stream_def readLoop_continue_def)
    moreover have "st_ctx (closeInboundHalf (se_heap Y ! ry)) = None"
      using endpoint_okD(7)[OF ok(1) near_far(2)[OF l]] by (simp add: closeInboundHalf_def)
    ultimately show ?thesis using step stream_flow_half sf Fin by simp
  next
    case (Msg p)
    show ?thesis by (rule simulate_dispatch_message[OF pb f[unfolded h(1) Msg] ok fit l h(2)[unfolded Msg] step])
  qed
qed


lemma stream_flow_recv_event:
  assumes "stream_flow pb sx queued held sy (q i)" "st_ctx sy = None" "stream_inv sx" "Recv u sy = (sy', x)"
  shows "\<exists>c. stream_flow pb sx queued held sy' c \<and> recv_spec q (recv_event i x) (q(i := c))"
    and "send_view sy' = send_view sy" "st_ctx sy' = None"
proof -
  note r = stream_flow_Recv[OF assms(1-3), of u]
  show "\<exists>c. stream_flow pb sx queued held sy' c \<and> recv_spec q (recv_event i x) (q(i := c))"
  proof (cases "st_inbound sy")
    case (Cons m rest)
    then have m: "sy' = sy\<lparr>st_inbound := rest\<rparr>" "x = RecvMessage m"
      "ch_queue (q i) = Message_Payload m # map Message_Payload rest @ msgs (held @ queued)"
      "stream_flow pb sx queued held sy' ((q i)\<lparr>ch_queue := map Message_Payload rest @ msgs (held @ queued)\<rparr>)"
      using r assms(4) by simp_all
    show ?thesis using m(2,4) spec_recv[of q i, OF m(3)] by (auto simp: recv_event_def)
  next
    case Nil
    then have "sy' = sy" "x = RecvParked \<or> x = RecvError (Sentinel IoEOF) \<and> ch_queue (q i) = [] \<and> ch_closed (q i)"
      using r assms(4) by (simp_all split: if_splits)
    then show ?thesis
      using assms(1) spec_silent_receiver[of q] spec_eof[of q i] by (intro exI[of _ "q i"]) (auto simp: recv_event_def)
  qed
  show "send_view sy' = send_view sy" "st_ctx sy' = None"
    using r assms(2,4) by (auto split: list.splits if_splits)
qed

lemma wake_alive: "st_ctx (heap ! r) = None \<Longrightarrow> woken heap (Parked r p) = Parked r p"
  by (simp add: woken_def)

lemma session_Recv_result: "snd (session_Recv r s) = snd (Recv (usable s) (se_heap s ! r))"
  by (simp add: session_Recv_def Let_def split: prod.split reader_state.split deliver_result.split)

lemma session_Recv_free:
  "\<nexists>p. se_reader s = Parked r p \<Longrightarrow> Recv (usable s) (se_heap s ! r) = (st, x) \<Longrightarrow>
   session_Recv r s = (s\<lparr>se_heap := (se_heap s)[r := st]\<rparr>, x)"
  by (cases "se_reader s") (simp_all add: session_Recv_def upd_stream_def Let_def)

lemma session_Recv_parked:
  assumes "se_reader s = Parked r p" "Recv (usable s) (se_heap s ! r) = (st, x)" "r < length (se_heap s)" "st_ctx st = None"
  shows "deliver (se_limits s) True p st = (st, DeliverParked) \<Longrightarrow> session_Recv r s = (s\<lparr>se_heap := (se_heap s)[r := st]\<rparr>, x)"
    "deliver (se_limits s) True p st = (st', Delivered) \<Longrightarrow>
       session_Recv r s = (s\<lparr>se_heap := (se_heap s)[r := st'], se_reader := Woken r None\<rparr>, x)"
  using assms by (simp_all add: session_Recv_def upd_stream_def wake_reader_def wake_alive)

lemma simulate_recv:
  assumes f: "flow pb L X Y n h w out q" and ok: "endpoint_ok (far L) Y" "endpoint_ok (near L) X"
    and fit: "compatible pb L X Y" and l: "(i, rx, ry) \<in> set L" and r: "session_Recv ry Y = (Y', x)"
  shows "receiver_simulated pb L X Y Y' n q (recv_event i x)"
proof -
  note here = endpoint_okD[OF ok(1) near_far(2)[OF l]]
  obtain sy where sy: "Recv (usable Y) (se_heap Y ! ry) = (sy, x)"
    using r session_Recv_result[of ry Y] by (cases "Recv (usable Y) (se_heap Y ! ry)") simp
  have sf: "stream_flow pb (se_heap X ! rx) (out i) (of_stream i (h @ w)) (se_heap Y ! ry) (q i)" using flowD(5)[OF f l] by simp
  note recv = stream_flow_recv_event[where q = q, OF sf here(7) endpoint_okD(8)[OF ok(2) near_far(1)[OF l]] sy]
  obtain c where c: "stream_flow pb (se_heap X ! rx) (out i) (of_stream i (h @ w)) sy c" "recv_spec q (recv_event i x) (q(i := c))"
    using recv(1) by blast
  have ev: "evolves (se_heap Y ! ry) sy" using evolves_ops(1)[of "se_heap Y ! ry" "usable Y"] sy by simp
  have "receiver_simulated pb L X Y (Y\<lparr>se_heap := (se_heap Y)[ry := sy], se_reader := se_reader Y\<rparr>) n q (recv_event i x)"
    by (rule receiver_update[OF f ok l ev recv(3,2) flowD(3)[OF f] _ _ c]) simp_all
  then have keep: "receiver_simulated pb L X Y (Y\<lparr>se_heap := (se_heap Y)[ry := sy]\<rparr>) n q (recv_event i x)" by simp
  show ?thesis
  proof (cases "\<exists>p. se_reader Y = Parked ry p")
    case False
    then show ?thesis using keep session_Recv_free[OF False sy] r by simp
  next
    case True
    then obtain p j where p: "se_reader Y = Parked ry p" "(j, ry) \<in> set (far L)" "h = [(j, Msg p)]"
      using flowD(3)[OF f] by (auto simp: reader_holds_def)
    have h: "h = [(i, Msg p)]" using p(2,3) endpoint_okD(6)[OF ok(1) p(2)] here(6) by simp
    have valid: "item_valid pb (se_limits X) (Msg p)" using flowD(4)[OF f, of i "Msg p"] h by simp
    have len: "int (length p) \<le> MaxStreamMessageBytes (se_limits Y)" using compatibleD(3)[OF fit l valid] by simp
    have held: "stream_flow pb (se_heap X ! rx) (out i) (Msg p # of_stream i w) sy c" using c(1) h by simp
    from stream_flow_deliver[OF held recv(3) len, of True] show ?thesis
    proof
      assume "deliver (se_limits Y) True p sy = (sy, DeliverParked)"
      then show ?thesis using keep session_Recv_parked(1)[OF p(1) sy here(2) recv(3)] r by simp
    next
      assume "\<exists>sy'. deliver (se_limits Y) True p sy = (sy', Delivered) \<and>
        stream_flow pb (se_heap X ! rx) (out i) (of_stream i w) sy' c"
      then obtain sy' where d: "deliver (se_limits Y) True p sy = (sy', Delivered)"
        "stream_flow pb (se_heap X ! rx) (out i) (of_stream i w) sy' c" by blast
      have Y': "Y' = Y\<lparr>se_heap := (se_heap Y)[ry := sy'], se_reader := Woken ry None\<rparr>"
        using session_Recv_parked(2)[OF p(1) sy here(2) recv(3) d(1)] r by simp
      have "evolves sy sy'" "send_view sy' = send_view sy"
        using evolves_ops(3)[of sy "se_limits Y" True p] send_view_recv(1)[of "se_limits Y" True p sy] d(1) by simp_all
      then have "evolves (se_heap Y ! ry) sy'" "send_view sy' = send_view (se_heap Y ! ry)"
        using ev recv(2) by (auto simp: evolves_def)
      moreover have "st_ctx sy' = None" using d(1) recv(3) by (auto simp: deliver_def split: if_splits)
      ultimately show ?thesis
        unfolding Y' by (intro receiver_update[OF f ok l _ _ _ _ _ _ _ c(2), where h' = "[]"])
          (use d(2) h in \<open>simp_all add: reader_holds_def\<close>)
    qed
  qed
qed

lemma simulate_resume:
  assumes f: "flow pb L X Y n h w out q" and ok: "endpoint_ok (far L) Y"
  shows "receiver_simulated pb L X Y (readLoop_resume pb Y) n q Internal"
proof (cases "\<exists>r e. se_reader Y = Woken r e")
  case False
  then have "readLoop_resume pb Y = Y" by (cases "se_reader Y") (auto simp: readLoop_resume_def)
  then show ?thesis using receiver_idle[OF f ok] by simp
next
  case True
  then obtain r where r: "se_reader Y = Woken r None" "h = []" using flowD(3)[OF f] by (auto simp: reader_holds_def)
  have "flow pb L X (Y\<lparr>se_reader := Reading\<rparr>) n h w out q"
    by (rule flowI) (use flowD[OF f] r in \<open>simp_all add: in_flight_def reader_holds_def\<close>)
  moreover have "endpoint_ok (far L) (Y\<lparr>se_reader := Reading\<rparr>)" using ok by (simp add: endpoint_ok_def findStream_def)
  ultimately show ?thesis
    using spec_silent_receiver r(1) unfolding receiver_simulated_def same_sender_def by (fastforce simp: readLoop_resume_def)
qed

lemma recv_step_simulated:
  assumes "recv_step pb ops (far L) Y e Y'" "proto_roundtrip pb" "flow pb L X Y n h w out q"
    "endpoint_ok (far L) Y" "endpoint_ok (near L) X" "compatible pb L X Y"
  shows "receiver_simulated pb L X Y Y' n q e"
  using assms(1)
proof cases
  case (reads f src)
  then show ?thesis using simulate_read[OF assms(3,4,6)] by simp
next
  case (dispatches now pick)
  then show ?thesis using simulate_dispatch[OF assms(2-6)] by simp
next
  case resumes
  then show ?thesis using simulate_resume[OF assms(3,4)] by simp
next
  case (receives i r x)
  then show ?thesis using simulate_recv[OF assms(3-6)] near_farE(2) by blast
qed

end
