(* ===== verification/Session_Link.thy ===== *)
theory Session_Link
  imports Session_Channels
begin

text \<open>
  The composition of two endpoints over a connection: what the streams between them deliver, for
  every interleaving of both endpoints and of the connection.
\<close>

section \<open>Two endpoints and a connection\<close>

datatype side = Client | Server

fun other :: "side \<Rightarrow> side" where
  "other Client = Server"
| "other Server = Client"

record ('h, 'v, 'w, 'a, 'b, 'c) link =
  lk_client :: "('h, 'v, 'w) Session"
  lk_server :: "('a, 'b, 'c) Session"
  lk_up :: nat
  lk_down :: nat

definition flip :: "links \<Rightarrow> links" where
  "flip L = map (\<lambda>(i, rx, ry). (i, ry, rx)) L"

lemma flip_simps [simp]: "near (flip L) = far L" "far (flip L) = near L" "map fst (flip L) = map fst L" "flip (flip L) = L"
  by (induction L) (auto simp: near_def far_def flip_def)

text \<open>Bytes that one end wrote arrive at the other one, any number at a time, in order.\<close>

definition carry :: "('h, 'v, 'w) Session \<Rightarrow> nat \<Rightarrow> nat \<Rightarrow> ('a, 'b, 'c) Session \<Rightarrow> ('a, 'b, 'c) Session" where
  "carry X n k Y = Y\<lparr>se_source := (se_source Y)\<lparr>src_bytes := src_bytes (se_source Y) @ take k (drop n (tr_accepted (se_transport X)))\<rparr>\<rparr>"

inductive link_step :: "proto \<Rightarrow> ('h, 'v, 'w) handler_ops \<Rightarrow> ('a, 'b, 'c) handler_ops \<Rightarrow> links
    \<Rightarrow> ('h, 'v, 'w, 'a, 'b, 'c) link \<Rightarrow> side \<times> chan_event \<Rightarrow> ('h, 'v, 'w, 'a, 'b, 'c) link \<Rightarrow> bool"
  for pb opsC opsS L where
  client_sends: "send_step pb (near L) (lk_client l) e s' \<Longrightarrow> link_step pb opsC opsS L l (Client, e) (l\<lparr>lk_client := s'\<rparr>)"
| server_sends: "send_step pb (far L) (lk_server l) e s'' \<Longrightarrow> link_step pb opsC opsS L l (Server, e) (l\<lparr>lk_server := s''\<rparr>)"
| client_receives: "recv_step pb opsC (near L) (lk_client l) e s' \<Longrightarrow> link_step pb opsC opsS L l (Client, e) (l\<lparr>lk_client := s'\<rparr>)"
| server_receives: "recv_step pb opsS (far L) (lk_server l) e s'' \<Longrightarrow> link_step pb opsC opsS L l (Server, e) (l\<lparr>lk_server := s''\<rparr>)"
| carries_up: "lk_up l + k \<le> length (tr_accepted (se_transport (lk_client l))) \<Longrightarrow>
    link_step pb opsC opsS L l (Client, Internal) (l\<lparr>lk_server := carry (lk_client l) (lk_up l) k (lk_server l), lk_up := lk_up l + k\<rparr>)"
| carries_down: "lk_down l + k \<le> length (tr_accepted (se_transport (lk_server l))) \<Longrightarrow>
    link_step pb opsC opsS L l (Server, Internal) (l\<lparr>lk_client := carry (lk_server l) (lk_down l) k (lk_client l), lk_down := lk_down l + k\<rparr>)"

inductive link_run :: "proto \<Rightarrow> ('h, 'v, 'w) handler_ops \<Rightarrow> ('a, 'b, 'c) handler_ops \<Rightarrow> links
    \<Rightarrow> ('h, 'v, 'w, 'a, 'b, 'c) link \<Rightarrow> (side \<times> chan_event) list \<Rightarrow> ('h, 'v, 'w, 'a, 'b, 'c) link \<Rightarrow> bool"
  for pb opsC opsS L where
  run_stop: "link_run pb opsC opsS L l [] l"
| run_go: "link_step pb opsC opsS L l e l' \<Longrightarrow> link_run pb opsC opsS L l' tr l'' \<Longrightarrow> link_run pb opsC opsS L l (e # tr) l''"

text \<open>The queues of both directions, by the side that sends.\<close>

inductive link_spec :: "(side \<Rightarrow> channels) \<Rightarrow> side \<times> chan_event \<Rightarrow> (side \<Rightarrow> channels) \<Rightarrow> bool" where
  spec_sender: "send_spec (Q d) e q \<Longrightarrow> link_spec Q (d, e) (Q(d := q))"
| spec_receiver: "recv_spec (Q (other d)) e q \<Longrightarrow> link_spec Q (d, e) (Q(other d := q))"

inductive spec_run :: "(side \<Rightarrow> channels) \<Rightarrow> (side \<times> chan_event) list \<Rightarrow> (side \<Rightarrow> channels) \<Rightarrow> bool" where
  spec_stop: "spec_run Q [] Q"
| spec_go: "link_spec Q e Q' \<Longrightarrow> spec_run Q' tr Q'' \<Longrightarrow> spec_run Q (e # tr) Q''"

definition linked :: "proto \<Rightarrow> links \<Rightarrow> ('h, 'v, 'w, 'a, 'b, 'c) link \<Rightarrow> (side \<Rightarrow> channels) \<Rightarrow> bool" where
  "linked pb L l Q \<longleftrightarrow> endpoint_ok (near L) (lk_client l) \<and> endpoint_ok (far L) (lk_server l)
     \<and> compatible pb L (lk_client l) (lk_server l) \<and> compatible pb (flip L) (lk_server l) (lk_client l)
     \<and> (\<exists>h w out. flow pb L (lk_client l) (lk_server l) (lk_up l) h w out (Q Client))
     \<and> (\<exists>h w out. flow pb (flip L) (lk_server l) (lk_client l) (lk_down l) h w out (Q Server))"

subsection \<open>Each step\<close>

lemma compatible_limits:
  "compatible pb L X Y \<Longrightarrow> se_limits X' = se_limits X \<Longrightarrow> compatible pb L X' Y"
  "compatible pb L X Y \<Longrightarrow> se_limits Y' = se_limits Y \<Longrightarrow> compatible pb L X Y'"
  by (simp_all add: compatible_def link_fits_def)

lemma flow_carry:
  assumes "flow pb L X Y n h w out q" "n + k \<le> length (tr_accepted (se_transport X))"
  shows "flow pb L X (carry X n k Y) (n + k) h w out q"
proof (rule flowI)
  have "take k (drop n xs) @ drop (n + k) xs = drop n xs" for xs :: bytes
    by (metis append_take_drop_id drop_drop add.commute)
  then show "in_flight X (carry X n k Y) (n + k) = wire_bytes pb w"
    using flowD(2)[OF assms(1)] by (simp add: in_flight_def carry_def)
qed (use flowD[OF assms(1)] assms(2) in \<open>simp_all add: carry_def\<close>)

lemma same_sender_carry: "same_sender Y (carry X n k Y)"
  by (simp add: same_sender_def carry_def)

lemma carry_limits: "se_limits (carry X n k Y) = se_limits Y"
  by (simp add: carry_def)

lemma endpoint_ok_carry: "endpoint_ok R (carry X n k Y) = endpoint_ok R Y"
  by (simp add: endpoint_ok_def carry_def findStream_def)

text \<open>The link seen from the other side.\<close>

definition mirror :: "('h, 'v, 'w, 'a, 'b, 'c) link \<Rightarrow> ('a, 'b, 'c, 'h, 'v, 'w) link" where
  "mirror l = \<lparr>lk_client = lk_server l, lk_server = lk_client l, lk_up = lk_down l, lk_down = lk_up l\<rparr>"

lemma mirror_simps [simp]:
  "lk_client (mirror l) = lk_server l" "lk_server (mirror l) = lk_client l" "lk_up (mirror l) = lk_down l" "lk_down (mirror l) = lk_up l"
  "mirror (l\<lparr>lk_client := s\<rparr>) = (mirror l)\<lparr>lk_server := s\<rparr>" "mirror (l\<lparr>lk_server := t\<rparr>) = (mirror l)\<lparr>lk_client := t\<rparr>"
  "mirror (l\<lparr>lk_up := n\<rparr>) = (mirror l)\<lparr>lk_down := n\<rparr>" "mirror (l\<lparr>lk_down := n\<rparr>) = (mirror l)\<lparr>lk_up := n\<rparr>"
  "mirror (mirror l) = l"
  by (simp_all add: mirror_def)

lemma other_simps [simp]: "other (other d) = d" "other d \<noteq> d" "d \<noteq> other d" "(other d = other d') = (d = d')"
  by (cases d; cases d'; simp)+

lemma linked_mirror: "linked pb (flip L) (mirror l) (\<lambda>d. Q (other d)) = linked pb L l Q"
  by (auto simp: linked_def)

lemma link_step_mirror:
  assumes "link_step pb opsC opsS L l (d, e) l'"
  shows "link_step pb opsS opsC (flip L) (mirror l) (other d, e) (mirror l')"
  using assms
proof cases
  case (client_sends s')
  then show ?thesis using link_step.server_sends[of pb "flip L" "mirror l" e s' opsS opsC] by simp
next
  case (server_sends s')
  then show ?thesis using link_step.client_sends[of pb "flip L" "mirror l" e s' opsS opsC] by simp
next
  case (client_receives s')
  then show ?thesis using link_step.server_receives[of pb opsC "flip L" "mirror l" e s' opsS] by simp
next
  case (server_receives s')
  then show ?thesis using link_step.client_receives[of pb opsS "flip L" "mirror l" e s' opsC] by simp
next
  case (carries_up k)
  then show ?thesis using link_step.carries_down[of "mirror l" k pb opsS opsC "flip L"] by simp
next
  case (carries_down k)
  then show ?thesis using link_step.carries_up[of "mirror l" k pb opsS opsC "flip L"] by simp
qed

lemma link_spec_mirror:
  assumes "link_spec (\<lambda>d. Q (other d)) (d, e) Q'"
  shows "link_spec Q (other d, e) (\<lambda>d. Q' (other d))"
proof -
  have *: "(\<lambda>x. ((\<lambda>d. Q (other d))(y := q)) (other x)) = Q(other y := q)" for y q
    by (rule ext) (metis fun_upd_apply other_simps(1))
  from assms show ?thesis
  proof cases
    case (spec_sender q)
    then show ?thesis unfolding spec_sender(1) * by (intro link_spec.spec_sender) simp
  next
    case (spec_receiver q)
    then show ?thesis unfolding spec_receiver(1) * using link_spec.spec_receiver[of Q "other d" e q] by simp
  qed
qed

lemma client_step_simulated:
  assumes "link_step pb opsC opsS L l (Client, e) l'" "linked pb L l Q" "proto_roundtrip pb"
  shows "\<exists>Q'. linked pb L l' Q' \<and> link_spec Q (Client, e) Q'"
proof -
  note link = assms(2)[unfolded linked_def]
  let ?c = "lk_client l" and ?s = "lk_server l"
  obtain h1 w1 out1 h2 w2 out2 where up: "flow pb L ?c ?s (lk_up l) h1 w1 out1 (Q Client)"
    and down: "flow pb (flip L) ?s ?c (lk_down l) h2 w2 out2 (Q Server)" using link by blast
  have ok: "endpoint_ok (near L) ?c" "endpoint_ok (far L) ?s"
    and ok': "endpoint_ok (near (flip L)) ?s" "endpoint_ok (far (flip L)) ?c"
    and fit: "compatible pb L ?c ?s" "compatible pb (flip L) ?s ?c" using link by simp_all
  from assms(1) show ?thesis
  proof cases
    case (client_sends s')
    obtain w out q' where "endpoint_ok (near L) s'" "same_receiver ?c s'" "flow pb L s' ?s (lk_up l) h1 w out q'" "send_spec (Q Client) e q'"
      using send_step_simulated[OF client_sends(2) up ok(1) fit(1)] unfolding sender_simulated_def by blast
    moreover from this have "flow pb (flip L) ?s s' (lk_down l) h2 w2 out2 (Q Server)" "se_limits s' = se_limits ?c"
      using flow_same_receiver[OF down _ ok'(2)] by (auto simp: same_receiver_def)
    ultimately show ?thesis using ok compatible_limits(1)[OF fit(1), of s'] compatible_limits(2)[OF fit(2), of s'] spec_sender[of Q Client e q'] client_sends(1)
      by (intro exI[of _ "Q(Client := q')"]) (auto simp: linked_def)
  next
    case (client_receives s')
    obtain h w out q' where "endpoint_ok (near L) s'" "same_sender ?c s'" "flow pb (flip L) ?s s' (lk_down l) h w out q'" "recv_spec (Q Server) e q'"
      using recv_step_simulated[of pb opsC "flip L", OF _ assms(3) down ok'(2,1) fit(2)] client_receives(2)
      unfolding receiver_simulated_def by fastforce
    moreover from this have "flow pb L s' ?s (lk_up l) h1 w1 out1 (Q Client)" "se_limits s' = se_limits ?c"
      using flow_same_sender[OF up _ ok(1)] by (auto simp: same_sender_def)
    ultimately show ?thesis using ok compatible_limits(1)[OF fit(1), of s'] compatible_limits(2)[OF fit(2), of s'] spec_receiver[of Q Client e q'] client_receives(1)
      by (intro exI[of _ "Q(Server := q')"]) (auto simp: linked_def)
  next
    case (carries_up k)
    have "flow pb (flip L) (carry ?c (lk_up l) k ?s) ?c (lk_down l) h2 w2 out2 (Q Server)"
      by (rule flow_same_sender[OF down same_sender_carry ok'(1)])
    then have "linked pb L l' Q"
      using flow_carry[OF up carries_up(3)] ok compatible_limits(2)[OF fit(1) carry_limits] compatible_limits(1)[OF fit(2) carry_limits]
      by (auto simp: linked_def carries_up endpoint_ok_carry)
    then show ?thesis using spec_sender[of Q Client Internal, OF spec_silent_sender] carries_up by auto
  qed
qed

lemma link_step_simulated:
  assumes "link_step pb opsC opsS L l e l'" "linked pb L l Q" "proto_roundtrip pb"
  shows "\<exists>Q'. linked pb L l' Q' \<and> link_spec Q e Q'"
proof (cases e)
  case (Pair d ev)
  show ?thesis
  proof (cases d)
    case Client
    then show ?thesis using client_step_simulated assms Pair by blast
  next
    case Server
    then have "link_step pb opsS opsC (flip L) (mirror l) (Client, ev) (mirror l')" using link_step_mirror assms(1) Pair by fastforce
    moreover have "linked pb (flip L) (mirror l) (\<lambda>d. Q (other d))" using assms(2) by (simp add: linked_mirror)
    ultimately obtain Q' where Q': "linked pb (flip L) (mirror l') Q'" "link_spec (\<lambda>d. Q (other d)) (Client, ev) Q'"
      using client_step_simulated assms(3) by blast
    have "linked pb L l' (\<lambda>d. Q' (other d))" using linked_mirror[of pb L l' "\<lambda>d. Q' (other d)"] Q'(1) by simp
    moreover have "link_spec Q e (\<lambda>d. Q' (other d))" using link_spec_mirror[OF Q'(2)] Pair Server by simp
    ultimately show ?thesis by blast
  qed
qed

section \<open>What the queues guarantee\<close>

definition sent_by :: "side \<Rightarrow> u64 \<Rightarrow> (side \<times> chan_event) list \<Rightarrow> bytes list" where
  "sent_by d i tr = concat (map (\<lambda>(d', e). case e of Sent j p \<Rightarrow> if d' = d \<and> j = i then [p] else [] | _ \<Rightarrow> []) tr)"

definition got_by :: "side \<Rightarrow> u64 \<Rightarrow> (side \<times> chan_event) list \<Rightarrow> bytes list" where
  "got_by d i tr = concat (map (\<lambda>(d', e). case e of Got j p \<Rightarrow> if d' = d \<and> j = i then [p] else [] | _ \<Rightarrow> []) tr)"

lemma by_append [simp]:
  "sent_by d i [] = []" "got_by d i [] = []"
  "sent_by d i (xs @ ys) = sent_by d i xs @ sent_by d i ys" "got_by d i (xs @ ys) = got_by d i xs @ got_by d i ys"
  by (simp_all add: sent_by_def got_by_def)

lemma by_Cons: "sent_by d i (e # tr) = sent_by d i [e] @ sent_by d i tr" "got_by d i (e # tr) = got_by d i [e] @ got_by d i tr"
  by (simp_all add: sent_by_def got_by_def)

lemma not_side: "d' \<noteq> d \<Longrightarrow> d' = other d"
  by (cases d; cases d'; simp)

lemma link_spec_queue:
  assumes "link_spec Q e Q'"
  shows "got_by (other d) i [e] @ ch_queue (Q' d i) = ch_queue (Q d i) @ sent_by d i [e]"
    and "ch_closed (Q d i) \<Longrightarrow> ch_closed (Q' d i) \<and> sent_by d i [e] = []"
    and "e \<noteq> (d', Broke i err)"
  using assms
  by (auto simp: sent_by_def got_by_def elim!: link_spec.cases send_spec.cases recv_spec.cases dest: not_side)

lemma link_spec_eof:
  "link_spec Q (other d, SawEOF i) Q' \<Longrightarrow> ch_queue (Q d i) = [] \<and> ch_closed (Q d i) \<and> Q' = Q"
  by (auto elim!: link_spec.cases send_spec.cases recv_spec.cases)

lemma spec_run_queue:
  assumes "spec_run Q tr Q'"
  shows "got_by (other d) i tr @ ch_queue (Q' d i) = ch_queue (Q d i) @ sent_by d i tr"
    and "ch_closed (Q d i) \<Longrightarrow> ch_closed (Q' d i) \<and> sent_by d i tr = []"
    and "(d', Broke i err) \<notin> set tr"
  using assms
proof (induction rule: spec_run.induct)
  case (spec_go Q e Q' tr Q'')
  {
    case 1
    have "got_by (other d) i (e # tr) @ ch_queue (Q'' d i) = got_by (other d) i [e] @ ch_queue (Q' d i) @ sent_by d i tr"
      using spec_go.IH(1) by (simp add: by_Cons(2)[of _ _ e tr])
    also have "\<dots> = ch_queue (Q d i) @ sent_by d i (e # tr)"
      using link_spec_queue(1)[OF spec_go(1), of d i] by (simp add: by_Cons(1)[of _ _ e tr])
    finally show ?case .
  next
    case 2
    then show ?case using link_spec_queue(2)[OF spec_go(1), of d i] spec_go.IH(2) by (simp add: by_Cons(1)[of _ _ e tr])
  next
    case 3
    then show ?case using link_spec_queue(3)[OF spec_go(1), of d' i err] spec_go.IH(3) by auto
  }
qed simp_all

inductive_cases spec_run_ConsE: "spec_run Q (e # tr) Q'"

lemma spec_run_append: "spec_run Q (xs @ ys) Q'' \<Longrightarrow> \<exists>Q'. spec_run Q xs Q' \<and> spec_run Q' ys Q''"
  by (induction xs arbitrary: Q) (force intro: spec_run.intros elim!: spec_run_ConsE)+

lemma spec_run_eof:
  assumes "spec_run Q (tr1 @ (other d, SawEOF i) # tr2) Q'"
  shows "got_by (other d) i tr1 = ch_queue (Q d i) @ sent_by d i tr1 \<and> sent_by d i tr2 = [] \<and> got_by (other d) i tr2 = []"
proof -
  obtain Q1 Q2 where run: "spec_run Q tr1 Q1" "link_spec Q1 (other d, SawEOF i) Q2" "spec_run Q2 tr2 Q'"
    using spec_run_append[OF assms] by (blast elim: spec_run_ConsE)
  have eof: "ch_queue (Q1 d i) = []" "ch_closed (Q1 d i)" "Q2 = Q1" using link_spec_eof[OF run(2)] by auto
  show ?thesis
    using spec_run_queue(1)[OF run(1), of d i] spec_run_queue(1,2)[OF run(3), of d i] eof by auto
qed

lemma link_run_simulated:
  "link_run pb opsC opsS L l tr l' \<Longrightarrow> linked pb L l Q \<Longrightarrow> proto_roundtrip pb \<Longrightarrow> \<exists>Q'. linked pb L l' Q' \<and> spec_run Q tr Q'"
proof (induction arbitrary: Q rule: link_run.induct)
  case (run_stop l)
  then show ?case by (blast intro: spec_stop)
next
  case (run_go l e l' tr l'')
  then show ?case using link_step_simulated[OF run_go(1)] by (blast intro: spec_go)
qed

end
