(* ===== verification/Session_Open.thy ===== *)
theory Session_Open
  imports Session_Link
begin

text \<open>
  Opening a stream over a connection: the request, the decision of the serving handler, the answer. The
  two ends of a stream that was granted are linked by empty queues.
\<close>

section \<open>One stream request over a connection\<close>

definition wire_open :: "proto \<Rightarrow> ('h, 'v, 'w) handler_ops \<Rightarrow> ('a, 'b, 'c) handler_ops \<Rightarrow> int \<Rightarrow> string
    \<Rightarrow> ('h, 'v, 'w) Session \<Rightarrow> ('a, 'b, 'c) Session \<Rightarrow> ('h, 'v, 'w) Session \<times> ('a, 'b, 'c) Session \<times> (go_error + ref) option" where
  "wire_open pb opsC opsS now meth client server =
    (case OpenStream_check pb meth client of
       Inl err \<Rightarrow> (client, server, Some (Inl err))
     | Inr body \<Rightarrow>
         (case OpenStream_send meth body None client of
            (client1, Inl err) \<Rightarrow> (client1, server, Some (Inl err))
          | (client1, Inr opener) \<Rightarrow>
              let server1 = receive pb opsS now (sent client client1) server;
                  client2 = receive pb opsC now (sent server server1) client1
              in (case OpenStream_finish pb True None opener client2 of (client3, r) \<Rightarrow> (client3, server1, r))))"

definition open_frame :: "u64 \<Rightarrow> bytes \<Rightarrow> Frame" where
  "open_frame i body = \<lparr>Frame_Type = FrameOpenStream, Frame_StreamID = i, Frame_Payload = body\<rparr>"

text \<open>The answer to a request: the acknowledgement, or the class of the failure.\<close>

definition answer_frame :: "proto \<Rightarrow> u64 \<Rightarrow> bytes \<Rightarrow> go_error + 'w \<Rightarrow> Frame" where
  "answer_frame pb i ack r = (case r of
     Inr serve \<Rightarrow> \<lparr>Frame_Type = FrameStreamOpenAck, Frame_StreamID = i, Frame_Payload = ack\<rparr>
   | Inl err \<Rightarrow> endFrame pb i (StatusOf (Some err)))"

definition appended :: "bytes \<Rightarrow> transport \<Rightarrow> transport" where
  "appended b t = t\<lparr>tr_accepted := tr_accepted t @ b\<rparr>"

lemma appended_simps [simp]: "tr_accepted (appended b t) = tr_accepted t @ b" "accepting (appended b t) = accepting t"
  by (simp_all add: appended_def accepting_def)

subsection \<open>The requesting side\<close>

lemma OpenStream_send_ready:
  assumes "wire_ready s" "i = se_nextStreamID s" "frame_fits (MaxMessageBytes (se_limits s)) (open_frame i body)"
  shows "OpenStream_send meth body None s = (s\<lparr>se_openChans := se_openChans s @ [[]], se_nextStreamID := i + 2,
      se_streams := map_set i (length (se_heap s)) (se_streams s), se_opens := map_set i (length (se_openChans s)) (se_opens s),
      se_heap := se_heap s @ [startPump (newStreamWithin (se_limits s) i meth False None)],
      se_transport := appended (frame_encode (open_frame i body)) (se_transport s),
      se_openers := (i, length (se_openChans s), length (se_heap s)) # se_openers s\<rparr>,
    Inr (i, length (se_openChans s), length (se_heap s)))"
  using assms
  by (simp add: OpenStream_send_def allocateStreamID_def registerStream_def registerOpen_def upd_stream_def Let_def
      writeFrame_accepting wire_ready_def open_frame_def appended_def)

lemma settle_open_answer:
  assumes "proto_roundtrip pb" "proto_total pb"
  shows "settleOpen pb c (answer_frame pb i ack r) s = (send_accepted c
      (case r of Inr serve \<Rightarrow> None | Inl err \<Rightarrow> StatusCode_Err (StatusOf (Some err))) s, FlowOk)"
    "Frame_StreamID (answer_frame pb i ack r) = i" "Frame_Type (answer_frame pb i ack r) \<in> {FrameStreamOpenAck, FrameStreamEnd}"
  using decode_endFrame[OF assms, of i] StatusOf_error
  by (auto simp: answer_frame_def settleOpen_def split: sum.splits option.splits)

lemma receive_open_answer:
  assumes pb: "proto_roundtrip pb" "proto_total pb" and s: "wire_ready s" "i \<noteq> 0" "map_get (se_calls s) i = None" "map_get (se_opens s) i = Some c"
    and fits: "frame_fits (MaxMessageBytes (se_limits s)) (answer_frame pb i ack r)"
  shows "receive pb ops now (frame_encode (answer_frame pb i ack r)) s
    = send_accepted c (case r of Inr serve \<Rightarrow> None | Inl err \<Rightarrow> StatusCode_Err (StatusOf (Some err)))
        (s\<lparr>se_source := (se_source s)\<lparr>src_bytes := []\<rparr>, se_opens := map_delete i (se_opens s), se_reader := Reading\<rparr>)"
proof -
  let ?f = "answer_frame pb i ack r"
  let ?s0 = "s\<lparr>se_source := (se_source s)\<lparr>src_bytes := []\<rparr>, se_reader := Holding ?f\<rparr>"
  have "dispatch pb ops now True ?f ?s0 = settleOpen pb c ?f (?s0\<lparr>se_opens := map_delete i (se_opens s)\<rparr>)"
    using settle_open_answer(2,3)[OF pb, of i ack r] s by (auto simp: dispatch_def dispatchScoped_def Let_def takeCall_def takeOpen_def)
  then show ?thesis
    by (simp add: receive_frame[OF s(1) fits] settle_open_answer(1)[OF pb] readLoop_continue_def send_accepted_def)
qed

subsection \<open>The serving side\<close>

lemma openStream_granted:
  assumes "Unmarshal (pb_OpenStream pb) OpenStream_unknownFields body = Inr (mkOpenStream meth)" "meth \<noteq> []"
    "session_acquire (se_streamGate s) = (g, True)" "accepting (se_transport s)" "0 < MaxMessageBytes (se_limits s)"
    "op_PrepareStream ops (se_handler s) (cfg_Remote (se_cfg s)) meth = (h, Inr serve)"
    "mc_marshal (pb_StreamAccepted pb) mkStreamAccepted = Some ack"
    "frame_fits (MaxMessageBytes (se_limits s)) (answer_frame pb i ack (Inr serve))"
  shows "openStream pb ops i body s = s\<lparr>se_streamGate := g, se_handler := h,
      se_streams := map_set i (length (se_heap s)) (se_streams s),
      se_heap := se_heap s @ [startPump (newStream (se_limits s) (se_ctx s) i meth)],
      se_transport := appended (frame_encode (answer_frame pb i ack (Inr serve))) (se_transport s),
      se_streamTasks := \<lparr>sk_id = i, sk_stream = length (se_heap s), sk_serve = serve, sk_phase = Serving\<rparr> # se_streamTasks s\<rparr>"
  using assms
  by (simp add: openStream_def openStream_accept_def registerStream_def upd_stream_def Let_def Marshal_def writeFrame_accepting
      answer_frame_def appended_def)

lemma openStream_refused:
  assumes "Unmarshal (pb_OpenStream pb) OpenStream_unknownFields body = Inr (mkOpenStream meth)" "meth \<noteq> []"
    "session_acquire (se_streamGate s) = (g, True)" "accepting (se_transport s)" "0 < MaxMessageBytes (se_limits s)"
    "op_PrepareStream ops (se_handler s) (cfg_Remote (se_cfg s)) meth = (h, Inl err)"
    "frame_fits (MaxMessageBytes (se_limits s)) (answer_frame pb i ack (Inl err))" "\<forall>r p. se_reader s \<noteq> Parked r p"
  shows "openStream pb ops i body s = s\<lparr>se_streamGate := session_release g, se_handler := h,
      se_heap := se_heap s @ [finishStream (Some err) (newStream (se_limits s) (se_ctx s) i meth)],
      se_transport := appended (frame_encode (answer_frame pb i ack (Inl err))) (se_transport s)\<rparr>"
proof -
  have "woken heap (se_reader s) = se_reader s" for heap using assms(8) by (cases "se_reader s") (simp_all add: woken_def)
  then show ?thesis
    using assms
    by (simp add: openStream_def upd_stream_def Let_def finish_ref_def wake_reader_def sendFrame_accepting answer_frame_def appended_def)
qed


subsection \<open>Sessions at rest\<close>

text \<open>Nothing is on its way between two sessions at rest.\<close>

definition at_rest :: "('h, 'v, 'w) Session \<Rightarrow> bool" where
  "at_rest s \<longleftrightarrow> wire_ready s \<and> src_bytes (se_source s) = []"

definition connect :: "('h, 'v, 'w) Session \<Rightarrow> ('a, 'b, 'c) Session \<Rightarrow> ('h, 'v, 'w, 'a, 'b, 'c) link" where
  "connect client server = \<lparr>lk_client = client, lk_server = server,
     lk_up = length (tr_accepted (se_transport client)), lk_down = length (tr_accepted (se_transport server))\<rparr>"

lemma flow_at_rest:
  assumes "flow pb L X Y (length (tr_accepted (se_transport X))) h w out q" "at_rest Y"
  shows "h = []" "w = []"
proof -
  have "wire_bytes pb w = []" using flowD(2)[OF assms(1)] assms(2) by (simp add: in_flight_def at_rest_def)
  then show "w = []" by (cases w) (auto simp: wire_bytes_def frame_encode_def frame_header_def)
  show "h = []" using flowD(3)[OF assms(1)] assms(2) by (simp add: reader_holds_def at_rest_def wire_ready_def)
qed

text \<open>A session that gained a stream and kept the others.\<close>

definition grown :: "(u64 \<times> ref) list \<Rightarrow> ('h, 'v, 'w) Session \<Rightarrow> ('h, 'v, 'w) Session \<Rightarrow> stream \<Rightarrow> bool" where
  "grown R s s' st \<longleftrightarrow> at_rest s' \<and> se_limits s' = se_limits s \<and> se_heap s' = se_heap s @ [st]
     \<and> (\<forall>i \<in> set (map fst R). findStream i s' = findStream i s \<and> map_get (se_calls s') i = map_get (se_calls s) i
          \<and> map_get (se_opens s') i = map_get (se_opens s) i)"

lemma endpoint_ok_grown:
  assumes "endpoint_ok R s" "grown R s s' st"
  shows "endpoint_ok R s'"
proof -
  have "i \<noteq> 0 \<and> r < length (se_heap s') \<and> findStream i s' = Some r \<and> map_get (se_calls s') i = None \<and> map_get (se_opens s') i = None
      \<and> st_id (se_heap s' ! r) = i \<and> st_ctx (se_heap s' ! r) = None \<and> stream_inv (se_heap s' ! r)
      \<and> 0 < st_inboundCap (se_heap s' ! r)" if "(i, r) \<in> set R" for i r
    using endpoint_okD[OF assms(1) that] assms(2) that by (force simp: grown_def nth_append)
  then show ?thesis using assms by (auto simp: endpoint_ok_def grown_def at_rest_def wire_ready_def)
qed

lemma flow_grown:
  assumes "flow pb L X Y n [] [] out q" "endpoint_ok (near L) X" "endpoint_ok (far L) Y" "grown (near L) X X' sx" "grown (far L) Y Y' sy"
  shows "flow pb L X' Y' (length (tr_accepted (se_transport X'))) [] [] out q"
proof (rule flowI)
  fix i rx ry assume l: "(i, rx, ry) \<in> set L"
  have "se_heap X' ! rx = se_heap X ! rx" "se_heap Y' ! ry = se_heap Y ! ry"
    using endpoint_okD(2)[OF assms(2) near_far(1)[OF l]] endpoint_okD(2)[OF assms(3) near_far(2)[OF l]] assms(4,5)
    by (simp_all add: grown_def nth_append)
  then show "list_all (item_valid pb (se_limits X')) (out i)
      \<and> stream_flow pb (se_heap X' ! rx) (out i) (of_stream i ([] @ [])) (se_heap Y' ! ry) (q i)"
    using flowD(5)[OF assms(1) l] assms(4) by (simp add: grown_def)
qed (use assms(5) in \<open>simp_all add: in_flight_def grown_def at_rest_def wire_ready_def reader_holds_def\<close>)

lemma flow_fresh:
  assumes "flow pb L X Y n [] [] out q" "i \<notin> set (map fst L)"
    "stream_flow pb (se_heap X ! rx) [] [] (se_heap Y ! ry) \<lparr>ch_queue = [], ch_closed = False\<rparr>"
  shows "flow pb ((i, rx, ry) # L) X Y n [] [] (out(i := [])) (q(i := \<lparr>ch_queue = [], ch_closed = False\<rparr>))"
proof (rule flowI)
  fix j k l assume "(j, k, l) \<in> set ((i, rx, ry) # L)"
  moreover have "(i, k, l) \<notin> set L" using assms(2) by force
  ultimately show "list_all (item_valid pb (se_limits X)) ((out(i := [])) j)
      \<and> stream_flow pb (se_heap X ! k) ((out(i := [])) j) (of_stream j ([] @ [])) (se_heap Y ! l) ((q(i := \<lparr>ch_queue = [], ch_closed = False\<rparr>)) j)"
    using flowD(5)[OF assms(1), of j k l] assms(3) by (cases "j = i") auto
qed (use flowD(1-3)[OF assms(1)] in \<open>simp_all add: reader_holds_def split: reader_state.splits\<close>)

lemma compatible_Cons: "compatible pb ((i, rx, ry) # L) X Y \<longleftrightarrow> compatible pb [(i, 0, 0)] X Y \<and> compatible pb L X Y"
  by (auto simp: compatible_def)

lemma linked_grown:
  assumes "linked pb L (connect c s) Q" "at_rest c" "at_rest s" "grown (near L) c c' x" "grown (far L) s s' y"
  shows "linked pb L (connect c' s') Q"
proof -
  note link = assms(1)[unfolded linked_def connect_def, simplified]
  obtain out1 out2 where f: "flow pb L c s (length (tr_accepted (se_transport c))) [] [] out1 (Q Client)"
    "flow pb (flip L) s c (length (tr_accepted (se_transport s))) [] [] out2 (Q Server)"
    using link flow_at_rest assms(2,3) by metis
  have lim: "se_limits c' = se_limits c" "se_limits s' = se_limits s" using assms(4,5) by (simp_all add: grown_def)
  have "flow pb L c' s' (length (tr_accepted (se_transport c'))) [] [] out1 (Q Client)"
    by (rule flow_grown[OF f(1) _ _ assms(4,5)]) (use link in simp_all)
  moreover have "flow pb (flip L) s' c' (length (tr_accepted (se_transport s'))) [] [] out2 (Q Server)"
    by (rule flow_grown[OF f(2)]) (use link assms(4,5) in simp_all)
  moreover have "compatible pb L c' s'" "compatible pb (flip L) s' c'"
    using link lim compatible_limits by metis+
  ultimately show ?thesis
    using link endpoint_ok_grown[OF _ assms(4)] endpoint_ok_grown[OF _ assms(5)] unfolding linked_def connect_def by auto
qed


text \<open>The two ends of a new stream.\<close>

abbreviation new_end :: "Limits \<Rightarrow> u64 \<Rightarrow> string \<Rightarrow> bool \<Rightarrow> stream" where
  "new_end limits i meth fromSession \<equiv> startPump (newStreamWithin limits i meth fromSession None)"

lemma stream_flow_new:
  "stream_flow pb (new_end lim1 i m b1) [] [] (new_end lim2 i m b2) \<lparr>ch_queue = [], ch_closed = False\<rparr>"
  by (simp add: stream_flow_def startPump_def newStreamWithin_def)

lemma endpoint_ok_new:
  assumes "endpoint_ok R s" "grown R s s' (new_end limits i m b)" "i \<notin> set (map fst R)" "i \<noteq> 0"
    "findStream i s' = Some (length (se_heap s))" "map_get (se_calls s') i = None" "map_get (se_opens s') i = None" "0 < MaxStreamQueueDepth limits"
  shows "endpoint_ok ((i, length (se_heap s)) # R) s'"
proof -
  have "se_heap s' ! length (se_heap s) = new_end limits i m b" "length (se_heap s) < length (se_heap s')"
    using assms(2) by (simp_all add: grown_def)
  moreover have "st_id (new_end limits i m b) = i" "st_ctx (new_end limits i m b) = None" "stream_inv (new_end limits i m b)"
    "0 < st_inboundCap (new_end limits i m b)"
    using assms(8) by (simp_all add: startPump_def newStreamWithin_def stream_inv_def)
  ultimately show ?thesis using endpoint_ok_grown[OF assms(1,2)] assms(3-7) by (simp add: endpoint_ok_def)
qed

lemma linked_fresh:
  assumes link: "linked pb L (connect c s) Q" and rest: "at_rest c" "at_rest s"
    and c: "grown (near L) c c' (new_end (se_limits c) i m False)" "findStream i c' = Some (length (se_heap c))"
      "map_get (se_calls c') i = None" "map_get (se_opens c') i = None"
    and s: "grown (far L) s s' (new_end (se_limits s) i m True)" "findStream i s' = Some (length (se_heap s))"
      "map_get (se_calls s') i = None" "map_get (se_opens s') i = None"
    and i: "i \<notin> set (map fst L)" "i \<noteq> 0" and fit: "compatible pb [(i, 0, 0)] c s" "compatible pb [(i, 0, 0)] s c"
    and depth: "0 < MaxStreamQueueDepth (se_limits c)" "0 < MaxStreamQueueDepth (se_limits s)"
  shows "linked pb ((i, length (se_heap c), length (se_heap s)) # L) (connect c' s') (\<lambda>d. (Q d)(i := \<lparr>ch_queue = [], ch_closed = False\<rparr>))"
proof -
  have old: "linked pb L (connect c' s') Q" by (rule linked_grown[OF link rest c(1) s(1)])
  have rest': "at_rest c'" "at_rest s'" using c(1) s(1) by (simp_all add: grown_def)
  obtain out1 out2 where f: "flow pb L c' s' (length (tr_accepted (se_transport c'))) [] [] out1 (Q Client)"
    "flow pb (flip L) s' c' (length (tr_accepted (se_transport s'))) [] [] out2 (Q Server)"
    using old[unfolded linked_def connect_def, simplified] flow_at_rest rest' by metis
  have heaps: "se_heap c' ! length (se_heap c) = new_end (se_limits c) i m False" "se_heap s' ! length (se_heap s) = new_end (se_limits s) i m True"
    using c(1) s(1) by (simp_all add: grown_def)
  have "compatible pb [(i, 0, 0)] c' s'" "compatible pb [(i, 0, 0)] s' c'"
    using fit c(1) s(1) compatible_limits unfolding grown_def by metis+
  moreover have "endpoint_ok ((i, length (se_heap c)) # near L) c'" "endpoint_ok ((i, length (se_heap s)) # far L) s'"
    using endpoint_ok_new[OF _ c(1) _ i(2) c(2-4) depth(1)] endpoint_ok_new[OF _ s(1) _ i(2) s(2-4) depth(2)] link i(1)
    by (simp_all add: linked_def connect_def)
  moreover have "flow pb ((i, length (se_heap c), length (se_heap s)) # L) c' s' (length (tr_accepted (se_transport c'))) [] []
      (out1(i := [])) ((Q Client)(i := \<lparr>ch_queue = [], ch_closed = False\<rparr>))"
    by (rule flow_fresh[OF f(1) i(1)]) (simp add: heaps stream_flow_new)
  moreover have "flow pb ((i, length (se_heap s), length (se_heap c)) # flip L) s' c' (length (tr_accepted (se_transport s'))) [] []
      (out2(i := [])) ((Q Server)(i := \<lparr>ch_queue = [], ch_closed = False\<rparr>))"
    by (rule flow_fresh[OF f(2)]) (use i(1) in \<open>simp_all add: heaps stream_flow_new\<close>)
  ultimately show ?thesis
    using old by (auto simp: linked_def connect_def near_def far_def flip_def compatible_Cons[of _ _ "length _"])
qed


subsection \<open>Both sides of a request\<close>

lemma open_requested:
  assumes pb: "proto_roundtrip pb" "proto_total pb" and s: "at_rest s" "i = se_nextStreamID s" "i \<noteq> 0" "i \<notin> set (map fst R)"
      "map_get (se_calls s) i = None"
    and fits: "frame_fits (MaxMessageBytes (se_limits s)) (open_frame i body)" "frame_fits (MaxMessageBytes (se_limits s)) (answer_frame pb i ack r)"
  obtains s1 s2 where "OpenStream_send meth body None s = (s1, Inr (i, length (se_openChans s), length (se_heap s)))"
    "sent s s1 = frame_encode (open_frame i body)"
    "OpenStream_finish pb True None (i, length (se_openChans s), length (se_heap s))
       (receive pb ops now (frame_encode (answer_frame pb i ack r)) s1)
     = (s2, Some (case r of Inl err \<Rightarrow> Inl (the (StatusCode_Err (StatusOf (Some err)))) | Inr serve \<Rightarrow> Inr (length (se_heap s))))"
    "grown R s s2 (case r of Inl err \<Rightarrow> finishStream (StatusCode_Err (StatusOf (Some err))) (new_end (se_limits s) i meth False)
       | Inr serve \<Rightarrow> new_end (se_limits s) i meth False)"
    "findStream i s2 = Some (length (se_heap s))" "map_get (se_calls s2) i = None" "map_get (se_opens s2) i = None"
proof -
  have ready: "wire_ready s" using s(1) by (simp add: at_rest_def)
  let ?c = "length (se_openChans s)" and ?l = "length (se_heap s)"
  define s1 where "s1 = fst (OpenStream_send meth body None s)"
  note send = OpenStream_send_ready[OF ready s(2) fits(1), of meth]
  have s1: "s1 = s\<lparr>se_openChans := se_openChans s @ [[]], se_nextStreamID := i + 2,
      se_streams := map_set i ?l (se_streams s), se_opens := map_set i ?c (se_opens s), se_heap := se_heap s @ [new_end (se_limits s) i meth False],
      se_transport := appended (frame_encode (open_frame i body)) (se_transport s), se_openers := (i, ?c, ?l) # se_openers s\<rparr>"
    unfolding s1_def send by simp
  have f1: "wire_ready s1" "map_get (se_calls s1) i = None" "map_get (se_opens s1) i = Some ?c" "se_limits s1 = se_limits s" "se_source s1 = se_source s"
    using ready s(5) by (simp_all add: s1 wire_ready_def)
  then have rec: "receive pb ops now (frame_encode (answer_frame pb i ack r)) s1
      = send_accepted ?c (case r of Inr serve \<Rightarrow> None | Inl err \<Rightarrow> StatusCode_Err (StatusOf (Some err)))
          (s1\<lparr>se_source := (se_source s)\<lparr>src_bytes := []\<rparr>, se_opens := map_delete i (se_opens s1), se_reader := Reading\<rparr>)"
    using receive_open_answer[OF pb f1(1) s(3) f1(2,3), of ack r ops now] fits(2) by simp
  have other: "j \<noteq> i" if "j \<in> fst ` set R" for j using that s(4) by auto
  show thesis
  proof (cases r)
    case (Inr serve)
    show thesis
      by (rule that[of s1 "fst (OpenStream_finish pb True None (i, ?c, ?l) (receive pb ops now (frame_encode (answer_frame pb i ack r)) s1))"])
        (unfold send rec, use ready s(5) other in \<open>simp_all add: s1 Inr sent_def OpenStream_finish_def await_def send_accepted_def Let_def
          followStreamContext_def discardOpen_def grown_def at_rest_def wire_ready_def findStream_def update_conv' delete_conv'\<close>)
  next
    case (Inl err)
    obtain e where e: "StatusCode_Err (StatusOf (Some err)) = Some e" using StatusOf_error by blast
    show thesis
      by (rule that[of s1 "fst (OpenStream_finish pb True None (i, ?c, ?l) (receive pb ops now (frame_encode (answer_frame pb i ack r)) s1))"])
        (unfold send rec, use ready s(5) other in \<open>simp_all add: s1 Inl e sent_def OpenStream_finish_def await_def send_accepted_def Let_def
          finish_ref_def wake_reader_def woken_def upd_stream_def discardOpen_def grown_def at_rest_def wire_ready_def findStream_def
          update_conv' delete_conv'\<close>)
  qed
qed

lemma open_served:
  assumes s: "at_rest s" "i \<noteq> 0" "\<not> ownsStreamID s i" "i \<notin> set (map fst R)" and room: "snd (session_acquire (se_streamGate s))"
    and un: "Unmarshal (pb_OpenStream pb) OpenStream_unknownFields body = Inr (mkOpenStream meth)" "meth \<noteq> []"
    and ack: "mc_marshal (pb_StreamAccepted pb) mkStreamAccepted = Some ack"
    and prep: "op_PrepareStream ops (se_handler s) (cfg_Remote (se_cfg s)) meth = (h, r)"
    and fits: "frame_fits (MaxMessageBytes (se_limits s)) (open_frame i body)" "frame_fits (MaxMessageBytes (se_limits s)) (answer_frame pb i ack r)"
  obtains s1 where "receive pb ops now (frame_encode (open_frame i body)) s = s1"
    "sent s s1 = frame_encode (answer_frame pb i ack r)" "se_handler s1 = h" "se_calls s1 = se_calls s" "se_opens s1 = se_opens s"
    "case r of Inl err \<Rightarrow> grown R s s1 (finishStream (Some err) (newStreamWithin (se_limits s) i meth True None))
         \<and> se_streamTasks s1 = se_streamTasks s \<and> gate_len (se_streamGate s1) = gate_len (se_streamGate s)
     | Inr serve \<Rightarrow> grown R s s1 (new_end (se_limits s) i meth True) \<and> findStream i s1 = Some (length (se_heap s))
         \<and> se_streamTasks s1 = \<lparr>sk_id = i, sk_stream = length (se_heap s), sk_serve = serve, sk_phase = Serving\<rparr> # se_streamTasks s"
proof -
  let ?f = "open_frame i body" and ?s1 = "receive pb ops now (frame_encode (open_frame i body)) s"
  let ?s0 = "s\<lparr>se_source := (se_source s)\<lparr>src_bytes := []\<rparr>, se_reader := Holding ?f\<rparr>"
  have ready: "wire_ready s" using s(1) by (simp add: at_rest_def)
  obtain g where g: "session_acquire (se_streamGate s) = (g, True)" using room by (cases "session_acquire (se_streamGate s)") simp
  have own: "\<not> ownsStreamID ?s0 i" using s(3) by (simp add: ownsStreamID_def)
  have rec: "?s1 = (openStream pb ops i body ?s0)\<lparr>se_reader := Reading\<rparr>"
    using own s(2) by (simp add: receive_frame[OF ready fits(1)]) (simp add: open_frame_def dispatch_def dispatchScoped_def Let_def readLoop_continue_def)
  have other: "j \<noteq> i" if "j \<in> fst ` set R" for j using that s(4) by auto
  show thesis
  proof (cases r)
    case (Inr serve)
    have "openStream pb ops i body ?s0 = ?s0\<lparr>se_streamGate := g, se_handler := h,
      se_streams := map_set i (length (se_heap s)) (se_streams s), se_heap := se_heap s @ [new_end (se_limits s) i meth True],
      se_transport := appended (frame_encode (answer_frame pb i ack r)) (se_transport s),
      se_streamTasks := \<lparr>sk_id = i, sk_stream = length (se_heap s), sk_serve = serve, sk_phase = Serving\<rparr> # se_streamTasks s\<rparr>"
      using openStream_granted[of pb body meth ?s0 g ops h serve ack i] un g ready prep ack fits(2) Inr by (simp add: wire_ready_def newStream_def)
    then show thesis
      by (intro that[OF refl]) (unfold rec, use ready other in \<open>simp_all add: Inr sent_def grown_def at_rest_def wire_ready_def findStream_def update_conv'\<close>)
  next
    case (Inl err)
    have "openStream pb ops i body ?s0 = ?s0\<lparr>se_streamGate := session_release g, se_handler := h,
      se_heap := se_heap s @ [finishStream (Some err) (newStreamWithin (se_limits s) i meth True None)],
      se_transport := appended (frame_encode (answer_frame pb i ack r)) (se_transport s)\<rparr>"
      using openStream_refused[of pb body meth ?s0 g ops h err i ack] un g ready prep fits(2) Inl by (simp add: wire_ready_def newStream_def)
    then show thesis
      by (intro that[OF refl]) (unfold rec, use ready g in \<open>simp_all add: Inl sent_def grown_def at_rest_def wire_ready_def findStream_def
        session_gate.acquire_release\<close>)
  qed
qed


section \<open>Refinement\<close>

text \<open>
  C3. Opening a stream over a connection implements the decision of the serving handler. Between two
  sessions at rest (as those of a new connection are), with room at the server, the opener gets a stream exactly when the server's handler
  grants it for the authenticated identity of the connection, and otherwise the error that stands for
  the class of the refusal. A granted stream has one running task at the server, and its two ends are
  linked by empty queues beside the streams that were open before; a refused one leaves the server's
  budget as it was. Both sessions are at rest again.
\<close>

theorem wire_open_refines_PrepareStream:
  assumes pb: "proto_roundtrip pb" "proto_total pb" and rest: "at_rest client" "at_rest server"
    and link: "linked pb L (connect client server) Q" and room: "snd (session_acquire (se_streamGate server))"
    and roles: "cfg_Role (se_cfg client) \<noteq> cfg_Role (se_cfg server)" "ownsStreamID client (se_nextStreamID client)"
    and i: "i = se_nextStreamID client" "i \<noteq> 0" "i \<notin> set (map fst L)" "map_get (se_calls client) i = None"
      "map_get (se_calls server) i = None" "map_get (se_opens server) i = None"
    and request: "meth \<noteq> []" "mc_marshal (pb_OpenStream pb) (mkOpenStream meth) = Some body" "link_fits client server (open_frame i body)"
    and prep: "op_PrepareStream opsS (se_handler server) (cfg_Remote (se_cfg server)) meth = (h, r)"
    and answer: "mc_marshal (pb_StreamAccepted pb) mkStreamAccepted = Some ack" "link_fits client server (answer_frame pb i ack r)"
    and fit: "compatible pb [(i, 0, 0)] client server" "compatible pb [(i, 0, 0)] server client"
    and depth: "0 < MaxStreamQueueDepth (se_limits client)" "0 < MaxStreamQueueDepth (se_limits server)"
  shows "\<exists>client' server'. wire_open pb opsC opsS now meth client server = (client', server', Some (case r of
         Inl err \<Rightarrow> Inl (the (StatusCode_Err (StatusOf (Some err)))) | Inr serve \<Rightarrow> Inr (length (se_heap client))))
      \<and> se_handler server' = h \<and> at_rest client' \<and> at_rest server'
      \<and> (case r of
           Inl err \<Rightarrow> linked pb L (connect client' server') Q \<and> se_streamTasks server' = se_streamTasks server
             \<and> gate_len (se_streamGate server') = gate_len (se_streamGate server)
         | Inr serve \<Rightarrow> linked pb ((i, length (se_heap client), length (se_heap server)) # L) (connect client' server')
               (\<lambda>d. (Q d)(i := \<lparr>ch_queue = [], ch_closed = False\<rparr>))
             \<and> se_streamTasks server' = \<lparr>sk_id = i, sk_stream = length (se_heap server), sk_serve = serve, sk_phase = Serving\<rparr>
                 # se_streamTasks server)"
proof -
  have un: "Unmarshal (pb_OpenStream pb) OpenStream_unknownFields body = Inr (mkOpenStream meth)"
    using pb(1) codec_roundtripD[OF _ _ request(2), of OpenStream_unknownFields] by (simp add: proto_roundtrip_def Unmarshal_def)
  have check: "OpenStream_check pb meth client = Inr body"
    using rest(1) request(1,2) by (simp add: OpenStream_check_def usable_def at_rest_def wire_ready_def Marshal_def)
  have own: "\<not> ownsStreamID server i"
    using roles i(1) by (cases "cfg_Role (se_cfg client)"; cases "cfg_Role (se_cfg server)") (simp_all add: ownsStreamID_def)
  have near: "i \<notin> set (map fst (near L))" "i \<notin> set (map fst (far L))" using i(3) by simp_all
  obtain c1 c2 where c: "OpenStream_send meth body None client = (c1, Inr (i, length (se_openChans client), length (se_heap client)))"
    "sent client c1 = frame_encode (open_frame i body)"
    "OpenStream_finish pb True None (i, length (se_openChans client), length (se_heap client))
       (receive pb opsC now (frame_encode (answer_frame pb i ack r)) c1)
     = (c2, Some (case r of Inl err \<Rightarrow> Inl (the (StatusCode_Err (StatusOf (Some err)))) | Inr serve \<Rightarrow> Inr (length (se_heap client))))"
    "grown (near L) client c2 (case r of Inl err \<Rightarrow> finishStream (StatusCode_Err (StatusOf (Some err))) (new_end (se_limits client) i meth False)
       | Inr serve \<Rightarrow> new_end (se_limits client) i meth False)"
    "findStream i c2 = Some (length (se_heap client))" "map_get (se_calls c2) i = None" "map_get (se_opens c2) i = None"
    using open_requested[OF pb rest(1) i(1,2) near(1) i(4), of body ack r meth opsC now] request(3) answer(2) by (auto simp: link_fits_def)
  obtain s1 where s: "receive pb opsS now (frame_encode (open_frame i body)) server = s1"
    "sent server s1 = frame_encode (answer_frame pb i ack r)" "se_handler s1 = h" "se_calls s1 = se_calls server" "se_opens s1 = se_opens server"
    "case r of Inl err \<Rightarrow> grown (far L) server s1 (finishStream (Some err) (newStreamWithin (se_limits server) i meth True None))
         \<and> se_streamTasks s1 = se_streamTasks server \<and> gate_len (se_streamGate s1) = gate_len (se_streamGate server)
     | Inr serve \<Rightarrow> grown (far L) server s1 (new_end (se_limits server) i meth True) \<and> findStream i s1 = Some (length (se_heap server))
         \<and> se_streamTasks s1 = \<lparr>sk_id = i, sk_stream = length (se_heap server), sk_serve = serve, sk_phase = Serving\<rparr> # se_streamTasks server"
    using open_served[OF rest(2) i(2) own near(2) room un request(1) answer(1) prep, of now] request(3) answer(2) by (auto simp: link_fits_def)
  have wire: "wire_open pb opsC opsS now meth client server = (c2, s1, Some (case r of
         Inl err \<Rightarrow> Inl (the (StatusCode_Err (StatusOf (Some err)))) | Inr serve \<Rightarrow> Inr (length (se_heap client))))"
    by (simp add: wire_open_def check c(1,2) s(1,2) Let_def c(3))
  show ?thesis
  proof (cases r)
    case (Inl err)
    then have g: "grown (near L) client c2 (finishStream (StatusCode_Err (StatusOf (Some err))) (new_end (se_limits client) i meth False))"
      "grown (far L) server s1 (finishStream (Some err) (newStreamWithin (se_limits server) i meth True None))"
      using c(4) s(6) by simp_all
    show ?thesis using wire s(3,6) Inl linked_grown[OF link rest g] g by (simp add: grown_def)
  next
    case (Inr serve)
    then have g: "grown (near L) client c2 (new_end (se_limits client) i meth False)" "grown (far L) server s1 (new_end (se_limits server) i meth True)"
      "findStream i s1 = Some (length (se_heap server))"
      using c(4) s(6) by simp_all
    have "linked pb ((i, length (se_heap client), length (se_heap server)) # L) (connect c2 s1) (\<lambda>d. (Q d)(i := \<lparr>ch_queue = [], ch_closed = False\<rparr>))"
      by (rule linked_fresh[OF link rest g(1) c(5-7) g(2,3) _ _ i(3,2) fit depth]) (use s(4,5) i(5,6) in simp_all)
    then show ?thesis using wire s(3,6) Inr g by (simp add: grown_def)
  qed
qed

text \<open>The two sessions of a new connection, as the carriers of both ends start them: at rest, and no stream open yet.\<close>

definition no_channels :: "side \<Rightarrow> channels" where
  "no_channels = (\<lambda>_ _. \<lparr>ch_queue = [], ch_closed = False\<rparr>)"

lemma no_channels_update: "(\<lambda>d. (no_channels d)(i := \<lparr>ch_queue = [], ch_closed = False\<rparr>)) = no_channels"
  by (simp add: no_channels_def fun_eq_iff)

lemma New_at_rest:
  assumes "accepting t" "src_bytes src = []"
  shows "at_rest (New cfg t src h now)"
  using assms WithDefaults_effective[of "cfg_Limits cfg"]
  by (simp add: at_rest_def wire_ready_def New_def Start_def NewSession_def accepting_def limits_effective_def Let_def)

lemma flow_rest: "at_rest Y \<Longrightarrow> \<exists>h w out. flow pb [] X Y (length (tr_accepted (se_transport X))) h w out q"
  by (intro exI[of _ "[]"]) (simp add: flow_def in_flight_def reader_holds_def at_rest_def wire_ready_def)

lemma rest_linked:
  assumes "at_rest client" "at_rest server"
  shows "linked pb [] (connect client server) no_channels"
proof -
  have "endpoint_ok [] client" "endpoint_ok [] server" using assms by (simp_all add: at_rest_def wire_ready_def endpoint_ok_def)
  then show ?thesis using assms by (simp add: linked_def connect_def compatible_def flip_def near_def far_def flow_rest)
qed

lemma New_owns: "ownsStreamID (New cfg t src h now) (se_nextStreamID (New cfg t src h now)) \<and> se_nextStreamID (New cfg t src h now) \<noteq> 0"
  by (simp add: New_def Start_def NewSession_def ownsStreamID_def parity_def Let_def)

definition open_server :: "(unit, unit, unit) Session" where
  "open_server = New (sample_cfg\<lparr>cfg_Role := RoleServer\<rparr>) wire_transport \<lparr>src_bytes = [], src_end = Sentinel IoEOF\<rparr> () 0"

lemma rest_samples: "at_rest sample_session" "at_rest open_server"
  unfolding sample_session_def open_server_def by (rule New_at_rest; simp add: accepting_def wire_transport_def)+

lemma sample_fits: "se_limits s1 = DefaultLimits \<Longrightarrow> se_limits s2 = DefaultLimits \<Longrightarrow> compatible sample_proto [(1, 0, 0)] s1 s2"
  by (auto simp: compatible_def link_fits_def frame_fits_def frame_validate_def scoped_def frameData_def data_body_def
      sample_proto_def sample_bytes_codec_def DefaultLimits_def elim!: item_valid.elims)

lemma sample_frames_fit:
  "Frame_Type f \<in> {FrameOpenStream, FrameStreamOpenAck} \<Longrightarrow> Frame_StreamID f = 1 \<Longrightarrow> length (Frame_Payload f) < 100 \<Longrightarrow>
   link_fits sample_session open_server f"
  by (auto simp: link_fits_def frame_fits_def frame_validate_def scoped_def open_server_def session_eval)

theorem wire_open_refines_PrepareStream_witness:
  "\<exists>client' server'. wire_open sample_proto open_ops open_ops 0 ''chat'' sample_session open_server = (client', server', Some (Inr 0))
     \<and> linked sample_proto [(1, 0, 0)] (connect client' server') no_channels"
proof -
  obtain body where body: "mc_marshal (pb_OpenStream sample_proto) (mkOpenStream ''chat'') = Some body" "length body < 100"
    by (simp add: sample_proto_def sample_string_codec_def sample_put_string_def)
  obtain ack where ack: "mc_marshal (pb_StreamAccepted sample_proto) mkStreamAccepted = Some ack" "length ack < 100"
    by (simp add: sample_proto_def sample_bytes_codec_def)
  have s: "snd (session_acquire (se_streamGate open_server))" "cfg_Role (se_cfg sample_session) \<noteq> cfg_Role (se_cfg open_server)"
    "ownsStreamID sample_session (se_nextStreamID sample_session)" "1 = se_nextStreamID sample_session" "(1::u64) \<noteq> 0"
    "map_get (se_calls sample_session) 1 = None" "map_get (se_calls open_server) 1 = None" "map_get (se_opens open_server) 1 = None"
    "se_heap sample_session = []" "se_heap open_server = []" "se_limits sample_session = DefaultLimits" "se_limits open_server = DefaultLimits"
    "0 < MaxStreamQueueDepth (se_limits sample_session)" "0 < MaxStreamQueueDepth (se_limits open_server)"
    by (simp_all add: open_server_def session_eval session_acquire_def gate_try_send_def ownsStreamID_def)
  have prep: "op_PrepareStream open_ops (se_handler open_server) (cfg_Remote (se_cfg open_server)) ''chat'' = ((), Inr ())"
    by (simp add: open_ops_def)

  show ?thesis
    using wire_open_refines_PrepareStream[OF sample_proto_roundtrip sample_total rest_samples rest_linked[OF rest_samples] s(1-5) _ s(6-8) _ body(1) _ prep ack(1) _
      sample_fits[OF s(11,12)] sample_fits[OF s(12,11)] s(13,14), where opsC = open_ops and now = 0]
    by (simp add: s(9,10) no_channels_update sample_frames_fit open_frame_def answer_frame_def body(2) ack(2)) blast
qed

end
