(* ===== verification/Session_Traffic.thy ===== *)
theory Session_Traffic
  imports Session_Open "HOL-Library.Sublist"
begin

text \<open>
  The traffic of the streams between two endpoints: what arrives is what was sent, and what was sent
  can always arrive.
\<close>

section \<open>What is left to do\<close>

text \<open>
  A measure of the work between a message's acceptance and its receipt: every step of the pumps, the
  connection and the receiver lowers it.
\<close>

definition reader_work :: "reader_state \<Rightarrow> nat" where
  "reader_work reader = (case reader of Holding f \<Rightarrow> 4 | Parked r p \<Rightarrow> 3 | Woken r e \<Rightarrow> 1 | _ \<Rightarrow> 0)"

definition outbound_work :: "stream \<Rightarrow> nat" where
  "outbound_work st = sum_list (map (\<lambda>x. 14 + length (oi_body x)) (st_outbound st))"

definition streams_work :: "(stream \<Rightarrow> nat) \<Rightarrow> (u64 \<times> ref) list \<Rightarrow> ('h, 'v, 'w) Session \<Rightarrow> nat" where
  "streams_work f R s = sum_list (map (\<lambda>x. f (se_heap s ! snd x)) R)"

definition work :: "links \<Rightarrow> ('h, 'v, 'w) Session \<Rightarrow> ('a, 'b, 'c) Session \<Rightarrow> nat \<Rightarrow> nat" where
  "work L X Y n = 2 * streams_work outbound_work (near L) X
     + 2 * length (in_flight X Y n) + (if n < length (tr_accepted (se_transport X)) then 1 else 0)
     + reader_work (se_reader Y) + streams_work (\<lambda>st. length (st_inbound st)) (far L) Y"

lemma sum_list_one:
  fixes f g :: "'a \<Rightarrow> nat"
  assumes "x \<in> set xs" "distinct xs" "\<And>y. y \<in> set xs \<Longrightarrow> y \<noteq> x \<Longrightarrow> g y = f y"
  shows "sum_list (map g xs) + f x = sum_list (map f xs) + g x"
  using assms
proof (induction xs)
  case (Cons a xs)
  show ?case
  proof (cases "a = x")
    case True
    then have "map g xs = map f xs" using Cons.prems by (intro map_cong) auto
    then have "sum_list (map g xs) = sum_list (map f xs)" by (rule arg_cong)
    then show ?thesis using True by simp
  next
    case False
    then show ?thesis using Cons by simp
  qed
qed simp

text \<open>One stream of one endpoint changes.\<close>

lemma streams_work_update:
  assumes "endpoint_ok R s" "(i, r) \<in> set R" "se_heap s' = (se_heap s)[r := st]"
  shows "streams_work f R s' + f (se_heap s ! r) = streams_work f R s + f st"
proof -
  have "f (se_heap s' ! snd y) = f (se_heap s ! snd y)" if "y \<in> set R" "y \<noteq> (i, r)" for y
  proof -
    obtain j k where y: "y = (j, k)" by (cases y)
    then have "k \<noteq> r" using that endpoint_okD(6)[OF assms(1,2)] endpoint_okD(6)[OF assms(1), of j k] by auto
    then show ?thesis using assms(3) y by simp
  qed
  moreover have "distinct R" using assms(1) by (simp add: endpoint_ok_def distinct_map)
  ultimately show ?thesis
    using sum_list_one[of "(i, r)" R "\<lambda>x. f (se_heap s' ! snd x)" "\<lambda>x. f (se_heap s ! snd x)"] assms(2,3) endpoint_okD(2)[OF assms(1,2)]
    by (simp add: streams_work_def)
qed

lemma streams_work_same: "se_heap s' = se_heap s \<Longrightarrow> streams_work f R s' = streams_work f R s"
  by (simp add: streams_work_def)

section \<open>No standstill\<close>

text \<open>The steps that move messages along, without the applications sending or closing anything.\<close>

definition quiet_event :: "chan_event \<Rightarrow> bool" where
  "quiet_event e \<longleftrightarrow> (case e of Sent j p \<Rightarrow> False | HalfClosed j \<Rightarrow> False | _ \<Rightarrow> True)"

lemma quiet_recv: "quiet_event (recv_event i x)"
  by (simp add: quiet_event_def recv_event_def split: recv_result.split)

lemma work_resume:
  assumes "se_reader Y = Woken r None"
  shows "work L X (readLoop_resume pb Y) n < work L X Y n"
  using assms by (simp add: work_def readLoop_resume_def reader_work_def in_flight_def streams_work_def)

lemma work_dispatch:
  assumes "proto_roundtrip pb" "flow pb L X Y n h w out q" "endpoint_ok (far L) Y" "compatible pb L X Y" "se_reader Y = Holding g"
  shows "work L X (readLoop_dispatch pb ops now True Y) n < work L X Y n"
proof -
  obtain i it where h: "h = [(i, it)]" "g = item_frame pb i it" using flowD(3)[OF assms(2)] assms(5) by (auto simp: reader_holds_def)
  have iv: "i \<in> set (map fst L)" "item_valid pb (se_limits X) it" using flowD(4)[OF assms(2), of i it] h by simp_all
  then obtain rx ry where l: "(i, rx, ry) \<in> set L" by auto
  note here = endpoint_okD[OF assms(3) near_far(2)[OF l]]
  have disp: "readLoop_dispatch pb ops now True Y = readLoop_continue (serveFrame pb True ry (item_frame pb i it) Y)"
    by (rule dispatch_item[OF assms(3) near_far(2)[OF l]]) (simp add: assms(5) h(2))
  have stored: "work L X (Y\<lparr>se_heap := (se_heap Y)[ry := sy], se_reader := Reading\<rparr>) n < work L X Y n"
    if "length (st_inbound sy) \<le> Suc (length (st_inbound (se_heap Y ! ry)))" for sy
    using streams_work_update[OF assms(3) near_far(2)[OF l], of "Y\<lparr>se_heap := (se_heap Y)[ry := sy], se_reader := Reading\<rparr>" sy "\<lambda>st. length (st_inbound st)"] that
    by (simp add: work_def in_flight_def reader_work_def assms(5))
  show ?thesis
  proof (cases it)
    case Fin
    have "readLoop_dispatch pb ops now True Y = Y\<lparr>se_heap := (se_heap Y)[ry := closeInboundHalf (se_heap Y ! ry)], se_reader := Reading\<rparr>"
      by (simp add: disp Fin serveFrame_def upd_stream_def readLoop_continue_def)
    then show ?thesis using stored by (simp add: closeInboundHalf_def)
  next
    case (Msg p)
    have un: "Unmarshal (pb_Data pb) Data_unknownFields (data_body pb p) = Inr (mkData p)"
      using assms(1) iv(2) Msg codec_roundtripD[of "pb_Data pb" Data_unknownFields "mkData p"]
      by (auto simp: proto_roundtrip_def Unmarshal_def data_body_def)
    have open_: "\<not> st_inboundClosed (se_heap Y ! ry)" using flowD(5)[OF assms(2) l] h by (auto simp: stream_flow_def)
    have len: "int (length p) \<le> MaxStreamMessageBytes (se_limits Y)" using compatibleD(3)[OF assms(4) l iv(2)] Msg by simp
    show ?thesis
    proof (cases "length (st_inbound (se_heap Y ! ry)) < st_inboundCap (se_heap Y ! ry)")
      case True
      then have "readLoop_dispatch pb ops now True Y
          = Y\<lparr>se_heap := (se_heap Y)[ry := (se_heap Y ! ry)\<lparr>st_inbound := st_inbound (se_heap Y ! ry) @ [\<lparr>Message_Payload = p\<rparr>]\<rparr>], se_reader := Reading\<rparr>"
        using open_ len un by (simp add: disp Msg serveFrame_def frameData_def deliver_def upd_stream_def readLoop_continue_def)
      then show ?thesis using stored by simp
    next
      case False
      then have "readLoop_dispatch pb ops now True Y = Y\<lparr>se_reader := Parked ry p\<rparr>"
        using open_ len un here(7) by (simp add: disp Msg serveFrame_def frameData_def deliver_def readLoop_continue_def)
      then show ?thesis using assms(5) by (simp add: work_def in_flight_def reader_work_def streams_work_def)
    qed
  qed
qed


lemma work_parked:
  assumes f: "flow pb L X Y n h w out q" and ok: "endpoint_ok (far L) Y" and fit: "compatible pb L X Y"
    and r: "se_reader Y = Parked r p" "session_Recv r Y = (Y', x)"
  obtains j where "(j, r) \<in> set (far L)" "work L X Y' n < work L X Y n"
    "st_inbound (se_heap Y ! r) = [] \<Longrightarrow> x = RecvParked"
proof -
  obtain j where j: "(j, r) \<in> set (far L)" "h = [(j, Msg p)]" using flowD(3)[OF f] r(1) by (auto simp: reader_holds_def)
  obtain rx where l: "(j, rx, r) \<in> set L" using near_farE(2)[OF j(1)] by blast
  note here = endpoint_okD[OF ok j(1)]
  let ?sy = "se_heap Y ! r"
  have open_: "\<not> st_inboundClosed ?sy" using flowD(5)[OF f l] j(2) by (auto simp: stream_flow_def)
  have "item_valid pb (se_limits X) (Msg p)" using flowD(4)[OF f, of j "Msg p"] j(2) by simp
  then have len: "int (length p) \<le> MaxStreamMessageBytes (se_limits Y)" using compatibleD(3)[OF fit l] by fastforce
  define st where "st = ?sy\<lparr>st_inbound := tl (st_inbound ?sy)\<rparr>"
  have recv: "Recv (usable Y) ?sy = (st, case st_inbound ?sy of m # _ \<Rightarrow> RecvMessage m | [] \<Rightarrow> RecvParked)"
    using open_ here(7) by (cases "st_inbound ?sy") (simp_all add: Recv_def received_def st_def)
  have "length (st_inbound st) < st_inboundCap st"
    using here(8,9) by (cases "st_inbound ?sy") (auto simp: st_def stream_inv_def)
  then have d: "deliver (se_limits Y) True p st = (st\<lparr>st_inbound := st_inbound st @ [\<lparr>Message_Payload = p\<rparr>]\<rparr>, Delivered)"
    using open_ len by (simp add: deliver_def st_def)
  let ?Y = "Y\<lparr>se_heap := (se_heap Y)[r := st\<lparr>st_inbound := st_inbound st @ [\<lparr>Message_Payload = p\<rparr>]\<rparr>], se_reader := Woken r None\<rparr>"
  have Y': "Y' = ?Y" "x = (case st_inbound ?sy of m # _ \<Rightarrow> RecvMessage m | [] \<Rightarrow> RecvParked)"
    using session_Recv_parked(2)[OF r(1) recv here(2) _ d] r(2) here(7) by (simp_all add: st_def)
  have "work L X ?Y n < work L X Y n"
    using streams_work_update[OF ok j(1), of ?Y "st\<lparr>st_inbound := st_inbound st @ [\<lparr>Message_Payload = p\<rparr>]\<rparr>" "\<lambda>st. length (st_inbound st)"]
    by (simp add: work_def in_flight_def reader_work_def r(1) st_def)
  then show thesis using that[OF j(1)] Y' by simp
qed

lemma work_read:
  assumes "endpoint_ok (far L) Y" "se_reader Y = Reading" "ReadFrame (NewReader (MaxMessageBytes (se_limits Y))) (se_source Y) = (Inr g, src)"
  shows "work L X (readLoop_read Y) n < work L X Y n"
proof -
  have "readLoop_read Y = Y\<lparr>se_source := src, se_reader := Holding g\<rparr>"
    using assms by (simp add: readLoop_read_def endpoint_ok_def accepting_def)
  moreover have "length (src_bytes (se_source Y)) \<ge> 13 + length (src_bytes src)"
    using ReadFrame_Inr(1)[OF assms(3)] by (simp add: frame_encode_def)
  ultimately show ?thesis using assms(2) by (simp add: work_def in_flight_def reader_work_def streams_work_def)
qed

lemma work_carry:
  assumes "n < length (tr_accepted (se_transport X))"
  shows "work L X (carry X n (length (tr_accepted (se_transport X)) - n) Y) (length (tr_accepted (se_transport X))) < work L X Y n"
  using assms by (simp add: work_def in_flight_def carry_def streams_work_def)

lemma frame_encode_length: "length (frame_encode f) = 13 + length (Frame_Payload f)"
  by (simp add: frame_encode_def)

lemma work_pump:
  assumes f: "flow pb L X Y n h w out q" and ok: "endpoint_ok (near L) X" and l: "(i, rx, ry) \<in> set L"
    and fit: "compatible pb L X Y" and out: "out i \<noteq> []"
  shows "work L (pump True rx X) Y n < work L X Y n"
proof -
  note here = endpoint_okD[OF ok near_far(1)[OF l]]
  let ?sx = "se_heap X ! rx"
  have sf: "list_all (item_valid pb (se_limits X)) (out i)" "stream_flow pb ?sx (out i) (of_stream i (h @ w)) (se_heap Y ! ry) (q i)"
    using flowD(5)[OF f l] by auto
  have "st_pumping ?sx" "filter (\<lambda>x. \<not> oi_barrier x) (st_outbound ?sx) \<noteq> []" using sf(2) out by (auto simp: stream_flow_def)
  then obtain x rest where x: "st_outbound ?sx = x # rest" "st_pumping ?sx" by (cases "st_outbound ?sx") auto
  let ?st = "?sx\<lparr>st_outbound := rest\<rparr>"
  have less: "2 * streams_work outbound_work (near L) X' + 2 * (14 + length (oi_body x)) = 2 * streams_work outbound_work (near L) X"
    if "se_heap X' = (se_heap X)[rx := st]" "st_outbound st = rest" for X' :: "('a, 'b, 'c) Session" and st
    using streams_work_update[OF ok near_far(1)[OF l] that(1), of outbound_work] that(2) x(1) by (simp add: outbound_work_def)
  show ?thesis
  proof (cases "oi_barrier x")
    case True
    then have "pump True rx X = X\<lparr>se_heap := (se_heap X)[rx := ?st\<lparr>st_flushed := Some None\<rparr>]\<rparr>"
      using x here(7) by (simp add: pump_def pump_next_def upd_stream_def)
    then show ?thesis using less[of "pump True rx X" "?st\<lparr>st_flushed := Some None\<rparr>"] by (simp add: work_def in_flight_def)
  next
    case False
    then obtain it its where it: "out i = it # its" "x = item_out pb it" using sf(2) x(1) by (auto simp: stream_flow_def)
    have next_: "pump_next True ?sx = (?st, PumpWrite x)" using x here(7) False by (simp add: pump_next_def)
    have frame: "(if oi_closeSend x then \<lparr>Frame_Type = FrameCloseSend, Frame_StreamID = st_id ?st, Frame_Payload = []\<rparr>
        else frameData (st_id ?st) (oi_body x)) = item_frame pb i it"
      and body: "length (Frame_Payload (item_frame pb i it)) = length (oi_body x)"
      using it(2) here(6) by (cases it; simp add: frameData_def)+
    have "frame_fits (MaxMessageBytes (se_limits X)) (item_frame pb i it)" using compatibleD(1)[OF fit l] sf(1) it(1) by simp
    then have P: "pump True rx X = X\<lparr>se_heap := (se_heap X)[rx := pump_wrote x None ?st],
        se_transport := (se_transport X)\<lparr>tr_accepted := tr_accepted (se_transport X) @ frame_encode (item_frame pb i it)\<rparr>\<rparr>"
      using ok here(2) by (simp add: pump_def next_ frame upd_stream_def endpoint_ok_def writeFrame_accepting Let_def)
    have "st_outbound (pump_wrote x None ?st) = rest" by (simp add: pump_wrote_def)
    then have "2 * streams_work outbound_work (near L) (pump True rx X) + 2 * (14 + length (oi_body x)) = 2 * streams_work outbound_work (near L) X"
      by (intro less[of _ "pump_wrote x None ?st"]) (simp_all add: P)
    moreover have "length (in_flight (pump True rx X) Y n) = length (in_flight X Y n) + 13 + length (oi_body x)"
      using flowD(1)[OF f] body by (simp add: in_flight_def P frame_encode_length)
    ultimately show ?thesis unfolding work_def by simp
  qed
qed


lemma reading_progress:
  assumes f: "flow pb L X Y n h ((j, it) # w') out q" and ok: "endpoint_ok (far L) Y" and fit: "compatible pb L X Y"
    and rd: "se_reader Y = Reading" and all: "\<not> n < length (tr_accepted (se_transport X))"
  shows "\<exists>g src. ReadFrame (NewReader (MaxMessageBytes (se_limits Y))) (se_source Y) = (Inr g, src) \<and> work L X (readLoop_read Y) n < work L X Y n"
proof -
  have jv: "j \<in> set (map fst L)" "item_valid pb (se_limits X) it" using flowD(4)[OF f, of j it] by simp_all
  then obtain k m where "(j, k, m) \<in> set L" by auto
  then have fits: "frame_fits (MaxMessageBytes (se_limits Y)) (item_frame pb j it)" using compatibleD(2)[OF fit _ jv(2)] by blast
  have "src_bytes (se_source Y) = frame_encode (item_frame pb j it) @ wire_bytes pb w'"
    using flowD(2)[OF f] all by (simp add: in_flight_def wire_bytes_def)
  then obtain src where "ReadFrame (NewReader (MaxMessageBytes (se_limits Y))) (se_source Y) = (Inr (item_frame pb j it), src)"
    using ReadFrame_encode[of "item_frame pb j it" "NewReader (MaxMessageBytes (se_limits Y))" "se_source Y" "wire_bytes pb w'"] fits ok
    by (auto simp: frame_fits_def NewReader_def endpoint_ok_def)
  then show ?thesis using work_read[OF ok rd] by blast
qed

lemma flow_progress:
  assumes pb: "proto_roundtrip pb" and f: "flow pb L X Y n h w out q" and ok: "endpoint_ok (near L) X" "endpoint_ok (far L) Y"
    and fit: "compatible pb L X Y" and l: "(i, rx, ry) \<in> set L" and waiting: "ch_queue (q i) \<noteq> []" "st_inbound (se_heap Y ! ry) = []"
  obtains (recv) e Y' where "recv_step pb ops (far L) Y e Y'" "quiet_event e" "\<forall>p. e \<noteq> Got i p" "work L X Y' n < work L X Y n"
  | (send) X' where "send_step pb (near L) X Internal X'" "work L X' Y n < work L X Y n"
  | (carry) "n < length (tr_accepted (se_transport X))"
proof (cases "se_reader Y")
  case (Woken r e)
  then have "e = None" using flowD(3)[OF f] by (simp add: reader_holds_def)
  then show thesis using that(1)[OF resumes] Woken work_resume[of Y r L X pb n] by (simp add: quiet_event_def)
next
  case (Holding g)
  show thesis using that(1)[OF dispatches[where pick = True]] work_dispatch[OF pb f ok(2) fit Holding] by (simp add: quiet_event_def)
next
  case (Parked r p)
  obtain Y' x where x: "session_Recv r Y = (Y', x)" by fastforce
  obtain j where j: "(j, r) \<in> set (far L)" "work L X Y' n < work L X Y n" "st_inbound (se_heap Y ! r) = [] \<Longrightarrow> x = RecvParked"
    using work_parked[OF f ok(2) fit Parked x] by blast
  have "recv_event j x \<noteq> Got i p'" for p'
  proof (cases "j = i")
    case True
    then have "r = ry" using endpoint_okD(3)[OF ok(2) j(1)] endpoint_okD(3)[OF ok(2) near_far(2)[OF l]] by simp
    then show ?thesis using j(3) waiting(2) by (simp add: recv_event_def)
  qed (simp add: recv_event_def split: recv_result.split)
  then show thesis using that(1)[OF receives[OF j(1) x]] j(2) quiet_recv by blast
next
  case Reading
  show thesis
  proof (cases w)
    case Nil
    then have "out i \<noteq> []" using flowD(3,5)[OF f] l waiting Reading by (fastforce simp: stream_flow_def reader_holds_def)
    then show thesis using that(2)[OF pumps[OF near_far(1)[OF l]]] work_pump[OF f ok(1) l fit] by blast
  next
    case (Cons x w')
    then have "flow pb L X Y n h ((fst x, snd x) # w') out q" using f by simp
    from reading_progress[OF this ok(2) fit Reading] show thesis
      using that(1)[OF reads[OF Reading]] that(3) by (cases "n < length (tr_accepted (se_transport X))") (auto simp: quiet_event_def)
  qed
qed (use flowD(3)[OF f] in \<open>simp add: reader_holds_def\<close>)


fun link_work :: "links \<Rightarrow> side \<Rightarrow> ('h, 'v, 'w, 'a, 'b, 'c) link \<Rightarrow> nat" where
  "link_work L Client l = work L (lk_client l) (lk_server l) (lk_up l)"
| "link_work L Server l = work (flip L) (lk_server l) (lk_client l) (lk_down l)"

lemma recv_ready:
  assumes "endpoint_ok R s" "(i, r) \<in> set R" "st_inbound (se_heap s ! r) \<noteq> []"
  obtains p s' where "recv_step pb ops R s (Got i p) s'"
proof -
  obtain m rest where m: "st_inbound (se_heap s ! r) = m # rest" using assms(3) by (cases "st_inbound (se_heap s ! r)") auto
  obtain s' x where x: "session_Recv r s = (s', x)" by fastforce
  then have "x = RecvMessage m" using session_Recv_result[of r s] m by (simp add: Recv_def received_def)
  then have "recv_step pb ops R s (Got i (Message_Payload m)) s'" using receives[OF assms(2) x, of pb ops] by (simp add: recv_event_def)
  then show thesis by (rule that)
qed

lemma got_other: "\<forall>p. e \<noteq> Got i p \<Longrightarrow> got_by d i [(d', e)] = []"
  by (simp add: got_by_def split: chan_event.split)

lemma client_progress:
  assumes pb: "proto_roundtrip pb" and link: "linked pb L l Q" and i: "i \<in> set (map fst L)" and q: "ch_queue (Q Client i) \<noteq> []"
  obtains (got) p l' where "link_step pb opsC opsS L l (Server, Got i p) l'"
  | (moved) d e l' where "link_step pb opsC opsS L l (d, e) l'" "quiet_event e" "\<forall>p. e \<noteq> Got i p"
      "link_work L Client l' < link_work L Client l"
proof -
  obtain rx ry where l: "(i, rx, ry) \<in> set L" using i by auto
  obtain h w out where f: "flow pb L (lk_client l) (lk_server l) (lk_up l) h w out (Q Client)" using link by (auto simp: linked_def)
  have ok: "endpoint_ok (near L) (lk_client l)" "endpoint_ok (far L) (lk_server l)" "compatible pb L (lk_client l) (lk_server l)"
    using link by (auto simp: linked_def)
  show thesis
  proof (cases "st_inbound (se_heap (lk_server l) ! ry) = []")
    case False
    obtain p s' where "recv_step pb opsS (far L) (lk_server l) (Got i p) s'"
      using recv_ready[OF ok(2) near_far(2)[OF l] False] by blast
    from got[OF server_receives[OF this]] show thesis .
  next
    case True
    from pb f ok l q True show thesis
    proof (cases rule: flow_progress[where ops = opsS])
      case (recv e Y')
      then show thesis using moved[OF server_receives[OF recv(1)]] by simp
    next
      case (send X')
      then show thesis using moved[OF client_sends[OF send(1)]] by (simp add: quiet_event_def)
    next
      case carry
      then show thesis using moved[OF carries_up[of l "length (tr_accepted (se_transport (lk_client l))) - lk_up l"]] work_carry[OF carry, of L "lk_server l"]
        by (simp add: quiet_event_def)
    qed
  qed
qed

lemma link_progress:
  assumes pb: "proto_roundtrip pb" and link: "linked pb L l Q" and i: "i \<in> set (map fst L)" and q: "ch_queue (Q d i) \<noteq> []"
  obtains (got) p l' where "link_step pb opsC opsS L l (other d, Got i p) l'"
  | (moved) e l' where "link_step pb opsC opsS L l e l'" "quiet_event (snd e)" "got_by (other d) i [e] = []"
      "link_work L d l' < link_work L d l"
proof (cases d)
  case Client
  from pb link i q[unfolded Client] show thesis
  proof (cases rule: client_progress[where opsC = opsC and opsS = opsS])
    case (got p l')
    then show thesis using that(1) by (simp add: Client)
  next
    case (moved d' e l')
    then show thesis using that(2)[OF moved(1)] by (simp add: Client got_other)
  qed
next
  case Server
  have seen: "link_step pb opsC opsS L l (other d', e) (mirror l')" if "link_step pb opsS opsC (flip L) (mirror l) (d', e) l'" for d' e l'
    using link_step_mirror[OF that] by simp
  have "linked pb (flip L) (mirror l) (\<lambda>d. Q (other d))" "i \<in> set (map fst (flip L))" "ch_queue (Q (other Client) i) \<noteq> []"
    using link i q Server by (simp_all add: linked_mirror del: set_map)
  with pb show thesis
  proof (cases rule: client_progress[where opsC = opsS and opsS = opsC])
    case (got p l')
    then show thesis using that(1) seen[OF got] by (simp add: Server)
  next
    case (moved d' e l')
    then show thesis using that(2)[OF seen[OF moved(1)]] by (simp add: Server got_other)
  qed
qed

lemma quiet_sends_nothing: "quiet_event (snd e) \<Longrightarrow> sent_by d i [e] = []"
  by (cases e) (simp add: sent_by_def quiet_event_def split: chan_event.split chan_event.splits)

lemma link_run_append:
  "link_run pb opsC opsS L l tr l' \<Longrightarrow> link_run pb opsC opsS L l' tr' l'' \<Longrightarrow> link_run pb opsC opsS L l (tr @ tr') l''"
  by (induction rule: link_run.induct) (auto intro: run_go)

section \<open>Properties\<close>

text \<open>Two endpoints with one open stream, and a message sent on it.\<close>

definition chat_client :: "(unit, unit, unit) Session" where
  "chat_client = sample_session\<lparr>se_heap := [new_end DefaultLimits 1 ''chat'' False], se_streams := [(1, 0)]\<rparr>"

definition chat_server :: "(unit, unit, unit) Session" where
  "chat_server = open_server\<lparr>se_heap := [new_end DefaultLimits 1 ''chat'' True], se_streams := [(1, 0)]\<rparr>"

lemma chat_linked: "linked sample_proto [(1, 0, 0)] (connect chat_client chat_server) no_channels"
proof -
  have s: "se_heap sample_session = []" "se_heap open_server = []" "se_limits sample_session = DefaultLimits" "se_limits open_server = DefaultLimits"
    "se_calls chat_client = []" "se_opens chat_client = []" "se_calls chat_server = []" "se_opens chat_server = []"
    "findStream 1 chat_client = Some 0" "findStream 1 chat_server = Some 0" "0 < MaxStreamQueueDepth DefaultLimits"
    by (simp_all add: chat_client_def chat_server_def open_server_def findStream_def session_eval)
  have g: "grown [] sample_session chat_client (new_end DefaultLimits 1 ''chat'' False)"
    "grown [] open_server chat_server (new_end DefaultLimits 1 ''chat'' True)"
    using rest_samples s(1-4) by (simp_all add: grown_def at_rest_def wire_ready_def chat_client_def chat_server_def)
  have "linked sample_proto [(1, 0, 0)] (connect chat_client chat_server) (\<lambda>d. (no_channels d)(1 := \<lparr>ch_queue = [], ch_closed = False\<rparr>))"
    using linked_fresh[OF rest_linked[OF rest_samples] rest_samples, of chat_client 1 "''chat''" chat_server sample_proto] g s
      sample_fits[OF s(3,4)] sample_fits[OF s(4,3)]
    by (simp add: near_def far_def)
  then show ?thesis by (simp add: no_channels_update)
qed

lemma chat_sent: "\<exists>l'. link_run sample_proto open_ops open_ops [(1, 0, 0)] (connect chat_client chat_server) [(Client, Sent 1 [7])] l'"
proof -
  obtain s' where "session_Send sample_proto 0 \<lparr>Message_Payload = [7]\<rparr> chat_client = (s', None)"
    by (simp add: session_Send_def Send_def encodeData_def Marshal_def sample_proto_def sample_bytes_codec_def chat_client_def
        startPump_def newStreamWithin_def session_eval)
  then have "send_step sample_proto (near [(1, 0, 0)]) chat_client (Sent 1 [7]) s'"
    using sends[of 1 0 "near [(1, 0, 0)]" sample_proto "\<lparr>Message_Payload = [7]\<rparr>" chat_client s'] by (simp add: near_def)
  then show ?thesis
    using run_go[OF client_sends run_stop, of sample_proto "[(1, 0, 0)]" "connect chat_client chat_server" "Sent 1 [7]" s' open_ops open_ops]
    by (auto simp: connect_def)
qed

text \<open>
  C2. Streams multiplexed over one connection behave as independent queues. From any linked state, under
  every interleaving of the two applications, the pumps, the read loops and the connection, in both
  directions at once: the two endpoints refine one queue for each stream and direction; what is received on a stream is a prefix of what
  was sent on it, whatever the other streams carry; the receiver sees the end of the stream only
  after the sender closed it and all of its messages were received; and no receive fails.
\<close>

theorem stream_traffic_fifo:
  assumes "proto_roundtrip pb" and "linked pb L l Q" and "link_run pb opsC opsS L l tr l'"
  shows "(\<exists>Q'. linked pb L l' Q' \<and> spec_run Q tr Q')
    \<and> prefix (got_by (other d) i tr) (ch_queue (Q d i) @ sent_by d i tr)
    \<and> (tr = tr1 @ (other d, SawEOF i) # tr2 \<longrightarrow>
         got_by (other d) i tr = ch_queue (Q d i) @ sent_by d i tr \<and> sent_by d i tr2 = [] \<and> got_by (other d) i tr2 = [])
    \<and> (d', Broke i err) \<notin> set tr"
proof -
  obtain Q' where Q': "linked pb L l' Q'" "spec_run Q tr Q'" using link_run_simulated[OF assms(3,2,1)] by blast
  have "prefix (got_by (other d) i tr) (ch_queue (Q d i) @ sent_by d i tr)"
    unfolding spec_run_queue(1)[OF Q'(2), symmetric] by simp
  moreover have "got_by (other d) i tr = ch_queue (Q d i) @ sent_by d i tr \<and> sent_by d i tr2 = [] \<and> got_by (other d) i tr2 = []"
    if tr: "tr = tr1 @ (other d, SawEOF i) # tr2"
    using spec_run_eof[OF Q'(2)[unfolded tr]] unfolding tr by (simp add: by_Cons[of _ _ _ tr2]) (simp add: sent_by_def got_by_def)
  ultimately show ?thesis using Q' spec_run_queue(3)[OF Q'(2)] by blast
qed

theorem stream_traffic_fifo_witness:
  "\<exists>l'. link_run sample_proto open_ops open_ops [(1, 0, 0)] (connect chat_client chat_server) [(Client, Sent 1 [7])] l'
     \<and> prefix (got_by Server 1 [(Client, Sent 1 [7])]) [[7]]"
proof -
  obtain l' where r: "link_run sample_proto open_ops open_ops [(1, 0, 0)] (connect chat_client chat_server) [(Client, Sent 1 [7])] l'"
    using chat_sent by blast
  have "prefix (got_by (other Client) 1 [(Client, Sent 1 [7])]) (ch_queue (no_channels Client 1) @ sent_by Client 1 [(Client, Sent 1 [7])])"
    using stream_traffic_fifo[OF sample_proto_roundtrip chat_linked r] by blast
  then show ?thesis using r by (auto simp: no_channels_def sent_by_def)
qed

text \<open>
  C8. A message that a stream accepted can always be received. Whatever the two endpoints are in the
  middle of, and even when the read loop is blocked because another stream's consumer is slow, there is
  a schedule of the pumps, the connection, the read loop and the receivers, in which nobody sends or closes anything, that
  ends with the receipt of the oldest message of the stream: there is no state in which the connection is stuck.
\<close>

theorem stream_traffic_delivers:
  assumes "proto_roundtrip pb" and "linked pb L l Q" and "i \<in> set (map fst L)" and "ch_queue (Q d i) = p # rest"
  shows "\<exists>tr l'. link_run pb opsC opsS L l (tr @ [(other d, Got i p)]) l'
    \<and> list_all (\<lambda>e. quiet_event (snd e)) tr \<and> got_by (other d) i tr = []"
  using assms(2,4)
proof (induction "link_work L d l" arbitrary: l Q rule: less_induct)
  case less
  have "ch_queue (Q d i) \<noteq> []" using less.prems(2) by simp
  from assms(1) less.prems(1) assms(3) this show ?case
  proof (cases rule: link_progress[where opsC = opsC and opsS = opsS])
    case (got p' l')
    obtain Q' where "link_spec Q (other d, Got i p') Q'" using link_step_simulated[OF got less.prems(1) assms(1)] by blast
    then have "p' = p" using link_spec_queue(1)[of Q "(other d, Got i p')" Q' d i] less.prems(2) by (simp add: got_by_def sent_by_def)
    then show ?thesis using run_go[OF got run_stop] by (intro exI[of _ "[]"]) auto
  next
    case (moved e l')
    obtain Q' where Q': "linked pb L l' Q'" "link_spec Q e Q'" using link_step_simulated[OF moved(1) less.prems(1) assms(1)] by blast
    have "ch_queue (Q' d i) = p # rest"
      using link_spec_queue(1)[OF Q'(2), of d i] moved(3) quiet_sends_nothing[OF moved(2)] less.prems(2) by simp
    from less.hyps[OF moved(4) Q'(1) this] obtain tr l'' where tr: "link_run pb opsC opsS L l' (tr @ [(other d, Got i p)]) l''"
      "list_all (\<lambda>e. quiet_event (snd e)) tr" "got_by (other d) i tr = []" by blast
    have "link_run pb opsC opsS L l ((e # tr) @ [(other d, Got i p)]) l''" using run_go[OF moved(1) tr(1)] by simp
    moreover have "got_by (other d) i (e # tr) = []" using moved(3) tr(3) by (simp add: by_Cons(2)[of _ _ e tr])
    ultimately show ?thesis using moved(2) tr(2) by (intro exI[of _ "e # tr"]) auto
  qed
qed

theorem stream_traffic_delivers_witness:
  "\<exists>tr l'. link_run sample_proto open_ops open_ops [(1, 0, 0)] (connect chat_client chat_server) ((Client, Sent 1 [7]) # tr @ [(Server, Got 1 [7])]) l'"
proof -
  obtain l' where r: "link_run sample_proto open_ops open_ops [(1, 0, 0)] (connect chat_client chat_server) [(Client, Sent 1 [7])] l'"
    using chat_sent by blast
  obtain Q where Q: "linked sample_proto [(1, 0, 0)] l' Q" "spec_run no_channels [(Client, Sent 1 [7])] Q"
    using link_run_simulated[OF r chat_linked sample_proto_roundtrip] by blast
  have "ch_queue (Q Client 1) = [[7]]"
    using spec_run_queue(1)[OF Q(2), of Client 1] by (simp add: no_channels_def sent_by_def got_by_def)
  from stream_traffic_delivers[where opsC = open_ops and opsS = open_ops, OF sample_proto_roundtrip Q(1) _ this]
  obtain tr l'' where "link_run sample_proto open_ops open_ops [(1, 0, 0)] l' (tr @ [(Server, Got 1 [7])]) l''" by auto
  then show ?thesis using link_run_append[OF r] by fastforce
qed

end
