(* ===== verification/Session_Corners.thy ===== *)
theory Session_Corners
  imports Session_Wire
begin

text \<open>
  Corner cases of the engine where one invocation affects more than itself.
\<close>

section \<open>A handler that fails after it closed its direction\<close>

text \<open>
  The pump ends with the close marker. A handler that calls \<^verbatim>\<open>CloseSend\<close> and then returns an error makes
  the session wait for a flush that nobody serves: as long as the context of the stream lives, no
  operation on the stream ends the wait.
\<close>

definition flush_stuck :: "stream \<Rightarrow> bool" where
  "flush_stuck st \<longleftrightarrow> st_ctx st = None \<and> st_pumpOnce st \<and> \<not> st_pumping st
     \<and> st_flush st \<in> {Enqueueing, Awaiting} \<and> st_flushed st = None"

lemma flush_stuck_reached:
  assumes "oi_closeSend item" "st_ctx st = None" "st_pumpOnce st" "st_flush st = NotCalled" "st_flushed st = None"
  shows "flush_stuck (flushOutbound_begin (pump_wrote item err st))"
  using assms by (simp add: flush_stuck_def flushOutbound_begin_def pump_wrote_def)

lemma flush_stuck_stays:
  assumes "flush_stuck st"
  shows "flush_stuck (fst (Send pb limits m st))" "flush_stuck (fst (Recv u st))" "flush_stuck (fst (deliver limits pick p st))"
    "flush_stuck (fst (pump_next pick st))" "flush_stuck (startPump st)" "flush_stuck (closeInboundHalf st)"
    "flush_stuck (CloseSend_begin st)" "flush_stuck (CloseSend_enqueue pick st)" "flush_stuck (CloseSend_await pick st)"
    "flush_stuck (flushOutbound_begin st)" "flush_stuck (flushOutbound_enqueue pick st)" "flush_stuck (flushOutbound_await pick st)"
  using assms
  by (auto simp: flush_stuck_def Send_def Recv_def deliver_def pump_next_def startPump_def closeInboundHalf_def CloseSend_begin_def
      CloseSend_enqueue_def CloseSend_await_def flushOutbound_begin_def flushOutbound_enqueue_def flushOutbound_await_def
      split: option.splits sum.splits list.splits)

lemma error_after_CloseSend_hangs:
  assumes "flush_stuck (se_heap s ! sk_stream t)" "sk_phase t = Flushing err"
  shows "stream_closed pb t s = s"
  using assms by (auto simp: stream_closed_def flush_stuck_def split: progress.splits)

section \<open>A stream request that is given up\<close>

text \<open>
  The requester finishes the stream but leaves it registered. A peer that accepted the stream and sent a
  message on it, before the cancellation reached it, violates the protocol in the eyes of the requester,
  which ends the whole session.
\<close>

lemma abandoned_open_then_fatal:
  assumes fin: "OpenStream_finish pb False (Some err) (i, c, local) s = (s', Some (Inl err))"
    and s: "findStream i s = Some local" "local < length (se_heap s)" "\<not> st_finishOnce (se_heap s ! local)" "se_openChans s ! c = []"
      "map_get (se_calls s) i = None" "accepting (se_transport s)" "0 < MaxMessageBytes (se_limits s)" "\<And>code. frame_fits (MaxMessageBytes (se_limits s)) (endFrame pb i code)"
    and f: "Frame_Type f = FrameData" "Frame_StreamID f = i" "i \<noteq> 0" "Unmarshal (pb_Data pb) Data_unknownFields (Frame_Payload f) = Inr m"
      "int (length (Data_Payload m)) \<le> MaxStreamMessageBytes (se_limits s)"
  shows "dispatchScoped pb ops pick f s' = (s', FlowError (Sentinel ErrProtocolViolation))"
proof -
  let ?s1 = "finish_ref local (Some err) (s\<lparr>se_openers := remove1 (i, c, local) (se_openers s)\<rparr>)"
  have t: "accepting (se_transport ?s1)" "0 < MaxMessageBytes (se_limits ?s1)" "\<And>code. frame_fits (MaxMessageBytes (se_limits ?s1)) (endFrame pb i code)"
    using s(6-8) by simp_all
  have s': "s' = discardOpen i (notifyCancelled pb i (Some err) ?s1)"
    using fin s(4) by (simp add: OpenStream_finish_def await_def Let_def)
  have n: "se_streams s' = se_streams s" "se_calls s' = se_calls s" "se_limits s' = se_limits s" "map_get (se_opens s') i = None"
    "se_heap s' = (se_heap s)[local := finishStream (Some err) (se_heap s ! local)]"
    unfolding s' using s(2) by (simp_all add: notifyCancelled_def Let_def sendFrame_accepting[OF t(1) t(3) t(2)] discardOpen_def delete_conv')
  have "st_inboundClosed (finishStream (Some err) (se_heap s ! local))"
    using s(3) by (simp add: finishStream_def closeInboundFinal_def Let_def)
  then have "deliver (se_limits s') pick (Data_Payload m) (se_heap s' ! local) = (se_heap s' ! local, DeliverError (Sentinel ErrProtocolViolation))"
    using f(5) s(2) by (simp add: deliver_def n)
  then have "serveFrame pb pick local f s' = (s', FlowError (Sentinel ErrProtocolViolation))"
    using f(1,4) by (simp add: serveFrame_def delivery_failed_def)
  then show ?thesis
    using f(1-3) s(1,5) n by (simp add: dispatchScoped_def Let_def takeCall_def takeOpen_def findStream_def)
qed

section \<open>A message for a stream that was just cancelled\<close>

text \<open>
  The delivery chooses between the queue and the context. When the context has ended and the follower
  has not yet removed the stream, the choice of the context ends the session, although the queue has room.
\<close>

lemma cancelled_delivery_fatal:
  assumes "Frame_Type f = FrameData" "Unmarshal (pb_Data pb) Data_unknownFields (Frame_Payload f) = Inr m"
    "int (length (Data_Payload m)) \<le> MaxStreamMessageBytes (se_limits s)"
    "st_ctx (se_heap s ! live) = Some err" "\<not> st_inboundClosed (se_heap s ! live)" "\<not> errors_Is err ErrMessageTooLarge"
  shows "serveFrame pb False live f s = (s, FlowError err)"
  using assms by (simp add: serveFrame_def deliver_def delivery_failed_def)

section \<open>A payload at the limit\<close>

text \<open>
  The check before a call looks at the payload, the writer at the body of the frame, which is longer by the framing of the
  message. A payload of exactly the limit passes the check, fails in the writer, and with that ends the session.
\<close>

lemma payload_at_limit_ends_session:
  assumes "wire_ready s" "proto_framed pb" "p \<noteq> []" "int (length p) = MaxMessageBytes (se_limits s)"
    and body: "mc_marshal (pb_CallRequest pb) (mkCallRequest meth p) = Some body"
    and call: "Call_send body s = (s', r)"
  shows "Call_check pb meth p s = Inr body \<and> se_ended s' \<and> r = Inl (Sentinel ErrMessageTooLarge)"
proof -
  have "length p + 2 \<le> length body" using assms(2,3) body by (simp add: proto_framed_def)
  then have long: "MaxMessageBytes (se_limits s) < int (length body)" using assms(4) by simp
  have "WriteFrame transport_write (NewWriter (MaxMessageBytes (se_limits s))) t
      \<lparr>Frame_Type = FrameOpenCall, Frame_StreamID = se_nextStreamID s, Frame_Payload = body\<rparr> = (t, Some (Sentinel ErrMessageTooLarge))" for t
    using long assms(1) by (simp add: WriteFrame_def NewWriter_def wire_ready_def frame_validate_def scoped_def)
  then show ?thesis
    using call assms(1,4) body
    by (auto simp: Call_send_def Let_def allocateStreamID_def registerCall_def writeFrame_def discardCall_def Call_check_def usable_def
        wire_ready_def Marshal_def)
qed

section \<open>An identifier that is used twice\<close>

text \<open>
  A peer that opens a second call under the identifier of a running one takes its place: a cancellation reaches the second
  call only, and the first one has no entry any more.
\<close>

lemma duplicate_open_overwrites:
  assumes "map_get (se_inflight s) i = Some k" "k < length (se_callCtxs s)"
    and "Unmarshal (pb_CallRequest pb) CallRequest_unknownFields body = Inr (mkCallRequest meth payload)" "meth \<noteq> []"
      "session_acquire (se_callGate s) = (g, True)" "se_ctx s = None"
      "PrepareCall (se_handler s) None (cfg_Remote (se_cfg s)) \<lparr>Call_Method = meth, Call_Payload = payload, Call_From = no_identity\<rparr> = (h, Inr serve)"
    and s': "s' = fst (cancelInflight i (openCall pb router_ops i body s))"
  shows "se_callCtxs s' ! k = se_callCtxs s ! k \<and> se_callCtxs s' ! length (se_callCtxs s) \<noteq> None \<and> map_get (se_inflight s') i = None"
  using assms(1,2) s' openCall_admitted[OF assms(3-7), of i]
  by (simp add: cancelInflight_def cancel_call_def nth_append cancel_ctx_def)

section \<open>A stream that ends instead of being accepted\<close>

text \<open>
  A terminal frame with the success code in answer to a request counts as acceptance. The stream stays registered and is
  not finished, so a receive on it waits for a peer that has nothing more to send.
\<close>

lemma accepted_by_end_waits:
  assumes "proto_roundtrip pb" "proto_total pb"
    and "st_inbound (se_heap s ! local) = []" "\<not> st_inboundClosed (se_heap s ! local)" "st_ctx (se_heap s ! local) = None"
    and s': "settleOpen pb accepted (endFrame pb i StatusOK) s = (s', fl)"
  shows "fl = FlowOk \<and> se_openChans s' = se_openChans (send_accepted accepted None s) \<and> se_streams s' = se_streams s \<and> se_heap s' = se_heap s
    \<and> snd (Recv u (se_heap s' ! local)) = RecvParked"
  using decode_endFrame[OF assms(1,2), of i StatusOK] assms(3-6)
  by (auto simp: settleOpen_def StatusCode_Err_def send_accepted_def Recv_def)

end
