(* ===== verification/Session_Cancel.thy ===== *)
theory Session_Cancel
  imports Session_Open
begin

text \<open>
  Cancellation over a connection: what the end of a caller's context does to the other endpoint, for a call and
  for a stream, and what becomes of the frames that were on their way.
\<close>

section \<open>The notice\<close>

definition cancel_code :: "go_error \<Rightarrow> StatusCode" where
  "cancel_code err = (if errors_Is err ErrCanceled then StatusCanceled else StatusOf (Some err))"

lemma notifyCancelled_ready:
  assumes "wire_ready s" "frame_fits (MaxMessageBytes (se_limits s)) (endFrame pb i (cancel_code err))"
  shows "notifyCancelled pb i (Some err) s
    = s\<lparr>se_transport := appended (frame_encode (endFrame pb i (cancel_code err))) (se_transport s)\<rparr>"
  using assms by (simp add: notifyCancelled_def cancel_code_def wire_ready_def sendFrame_accepting appended_def)

lemma cancel_code_error: "\<exists>e. StatusCode_Err (cancel_code err) = Some e"
proof (cases "errors_Is err ErrCanceled")
  case True
  then show ?thesis by (simp add: cancel_code_def StatusCode_Err_def)
next
  case False
  then show ?thesis using StatusOf_error[of err] by (simp add: cancel_code_def)
qed

text \<open>A frame for an invocation that this endpoint does not know any more is dropped.\<close>

lemma late_frame_dropped:
  assumes s: "wire_ready s" "frame_fits (MaxMessageBytes (se_limits s)) f" "Frame_StreamID f = i" "i \<noteq> 0"
    and f: "Frame_Type f \<in> {FrameCallResult, FrameStreamOpenAck, FrameData, FrameCloseSend, FrameStreamEnd}"
    and unknown: "map_get (se_calls s) i = None" "map_get (se_opens s) i = None" "map_get (se_streams s) i = None" "map_get (se_inflight s) i = None"
  shows "receive pb ops now (frame_encode f) s = s\<lparr>se_source := (se_source s)\<lparr>src_bytes := []\<rparr>, se_reader := Reading\<rparr>"
proof -
  define t where "t = s\<lparr>se_source := (se_source s)\<lparr>src_bytes := []\<rparr>, se_reader := Holding f\<rparr>"
  have t: "takeCall i t = (t, None)" "takeOpen i t = (t, None)" "takeStream i t = (t, None)" "findStream i t = None" "cancelInflight i t = (t, False)"
    using unknown by (simp_all add: t_def takeCall_def takeOpen_def takeStream_def findStream_def cancelInflight_def)
  from f have "dispatchScoped pb ops True f t = (t, FlowOk)"
    unfolding dispatchScoped_def Let_def s(3) by (elim insertE) (simp_all add: t s(4))
  moreover from f have "dispatch pb ops now True f t = dispatchScoped pb ops True f t"
    unfolding dispatch_def by (elim insertE) simp_all
  ultimately show ?thesis by (simp add: receive_frame[OF s(1,2)] t_def[symmetric] readLoop_continue_def) (simp add: t_def)
qed

lemma receive_cancel_call:
  assumes "proto_roundtrip pb" "proto_total pb" "wire_ready s" "frame_fits (MaxMessageBytes (se_limits s)) (endFrame pb i code)" "i \<noteq> 0"
    and "map_get (se_calls s) i = None" "map_get (se_opens s) i = None" "map_get (se_streams s) i = None" "map_get (se_inflight s) i = Some k"
  shows "receive pb ops now (frame_encode (endFrame pb i code)) s = s\<lparr>se_source := (se_source s)\<lparr>src_bytes := []\<rparr>, se_reader := Reading,
    se_inflight := map_delete i (se_inflight s), se_callCtxs := (se_callCtxs s)[k := cancel_ctx (se_callCtxs s ! k)]\<rparr>"
  using assms(3-9) decode_endFrame[OF assms(1,2), of i code]
  by (simp add: receive_frame dispatch_def dispatchScoped_def takeCall_def takeOpen_def takeStream_def cancelInflight_def cancel_call_def
      readLoop_continue_def wire_ready_def Let_def)

lemma receive_cancel_stream:
  assumes "proto_roundtrip pb" "proto_total pb" "wire_ready s" "frame_fits (MaxMessageBytes (se_limits s)) (endFrame pb i code)" "i \<noteq> 0"
    and "map_get (se_calls s) i = None" "map_get (se_opens s) i = None" "map_get (se_streams s) i = Some live" "StatusCode_Err code = Some e"
  shows "receive pb ops now (frame_encode (endFrame pb i code)) s = s\<lparr>se_source := (se_source s)\<lparr>src_bytes := []\<rparr>, se_reader := Reading,
    se_streams := map_delete i (se_streams s), se_heap := (se_heap s)[live := finishStream (Some e) (se_heap s ! live)]\<rparr>"
  using assms(3-9) decode_endFrame[OF assms(1,2), of i code]
  by (simp add: receive_frame dispatch_def dispatchScoped_def takeCall_def takeOpen_def takeStream_def serveFrame_def finish_ref_eq woken_def
      readLoop_continue_def wire_ready_def Let_def)

section \<open>Properties\<close>

text \<open>
  C9. Cancelling a call reaches the handler, and only that one. When the caller's context ends before an answer is
  there, the call returns the error of the context at once and is forgotten; the notice it sends cancels the context of the
  handler that serves this call and of no other one, and both sessions go on. The handler keeps its slot until it
  returns; the answer it may still send finds no caller and is dropped.
\<close>

theorem cancelled_call_reaches_handler:
  assumes pb: "proto_roundtrip pb" "proto_total pb" and ready: "wire_ready client" "wire_ready server"
    and call: "(i, c) \<in> set (se_callers client)" "i \<noteq> 0" "pick \<longrightarrow> se_callChans client ! c = []"
    and client: "map_get (se_opens client) i = None" "map_get (se_streams client) i = None" "map_get (se_inflight client) i = None"
    and server: "map_get (se_calls server) i = None" "map_get (se_opens server) i = None" "map_get (se_streams server) i = None"
      "map_get (se_inflight server) i = Some k" "k < length (se_callCtxs server)"
    and fits: "link_fits client server (endFrame pb i (cancel_code err))"
    and finish: "Call_finish pb pick (Some err) (i, c) client = (client', r)"
    and arrive: "server' = receive pb opsS now (sent client client') server"
    and late: "Frame_StreamID f = i" "Frame_Type f \<in> {FrameCallResult, FrameStreamEnd}" "frame_fits (MaxMessageBytes (se_limits client)) f"
  shows "r = Some (Inl err) \<and> map_get (se_calls client') i = None \<and> se_callers client' = remove1 (i, c) (se_callers client) \<and> wire_ready client'
    \<and> se_callCtxs server' ! k \<noteq> None \<and> (j \<noteq> k \<longrightarrow> se_callCtxs server' ! j = se_callCtxs server ! j)
    \<and> map_get (se_inflight server') i = None \<and> se_callTasks server' = se_callTasks server \<and> wire_ready server'
    \<and> receive pb opsC later (frame_encode f) client' = client'\<lparr>se_source := (se_source client')\<lparr>src_bytes := []\<rparr>, se_reader := Reading\<rparr>"
proof -
  let ?e = "endFrame pb i (cancel_code err)"
  have fit: "frame_fits (MaxMessageBytes (se_limits client)) ?e" "frame_fits (MaxMessageBytes (se_limits server)) ?e"
    using fits by (simp_all add: link_fits_def)
  have "await pick (Some err) (se_callChans client ! c) = Some (Inl err)" using call(3) by (auto simp: await_def split: list.split)
  then have cr: "client' = client\<lparr>se_callers := remove1 (i, c) (se_callers client), se_transport := appended (frame_encode ?e) (se_transport client),
      se_calls := map_delete i (se_calls client)\<rparr>" "r = Some (Inl err)"
    using finish notifyCancelled_ready[of "client\<lparr>se_callers := remove1 (i, c) (se_callers client)\<rparr>" pb i err] ready(1) fit(1)
    by (auto simp: Call_finish_def discardCall_def wire_ready_def)
  have w: "wire_ready client'" using ready(1) by (simp add: cr wire_ready_def)
  have "sent client client' = frame_encode ?e" by (simp add: cr sent_def)
  then have sv: "server' = server\<lparr>se_source := (se_source server)\<lparr>src_bytes := []\<rparr>, se_reader := Reading,
      se_inflight := map_delete i (se_inflight server), se_callCtxs := (se_callCtxs server)[k := cancel_ctx (se_callCtxs server ! k)]\<rparr>"
    using arrive receive_cancel_call[OF pb ready(2) fit(2) call(2) server(1-4), of opsS now] by simp
  have "receive pb opsC later (frame_encode f) client' = client'\<lparr>se_source := (se_source client')\<lparr>src_bytes := []\<rparr>, se_reader := Reading\<rparr>"
    by (rule late_frame_dropped[OF w _ late(1) call(2)]) (use late client in \<open>auto simp: cr\<close>)
  moreover have "se_callCtxs server' ! k \<noteq> None" using server(5) by (simp add: sv cancel_ctx_def split: option.split)
  moreover have "wire_ready server'" using ready(2) by (simp add: sv wire_ready_def)
  ultimately show ?thesis using w by (auto simp: cr sv)
qed

text \<open>A call in flight between two sessions, and its cancellation.\<close>

definition waiting_client :: "(unit, unit, unit) Session" where
  "waiting_client = sample_session\<lparr>se_callers := [(1, 0)], se_calls := [(1, 0)], se_callChans := [[]]\<rparr>"

definition busy_server :: "(unit, unit, unit) Session" where
  "busy_server = open_server\<lparr>se_inflight := [(1, 0), (3, 1)], se_callCtxs := [None, None]\<rparr>"

lemma cancel_sample_fits:
  "frame_fits 4194304 (endFrame sample_proto 1 StatusCanceled)" "frame_fits 4194304 \<lparr>Frame_Type = FrameCallResult, Frame_StreamID = 1, Frame_Payload = []\<rparr>"
  "frame_fits 4194304 (frameData 1 [])" "cancel_code (Sentinel ErrCanceled) = StatusCanceled"
  by (simp_all add: frame_fits_def frame_validate_def scoped_def endFrame_def Marshal_def sample_proto_def sample_Failure_codec_def
      sample_put_string_def StatusCode_String_def frameData_def cancel_code_def)

theorem cancelled_call_reaches_handler_witness:
  "\<exists>client'. Call_finish sample_proto True (Some (Sentinel ErrCanceled)) (1, 0) waiting_client = (client', Some (Inl (Sentinel ErrCanceled)))
     \<and> se_callCtxs (receive sample_proto open_ops 0 (sent waiting_client client') busy_server) ! 0 \<noteq> None
     \<and> se_callCtxs (receive sample_proto open_ops 0 (sent waiting_client client') busy_server) ! 1 = None"
proof -
  obtain client' r where f: "Call_finish sample_proto True (Some (Sentinel ErrCanceled)) (1, 0) waiting_client = (client', r)" by fastforce
  have ready: "wire_ready waiting_client" "wire_ready busy_server"
    using rest_samples by (simp_all add: at_rest_def wire_ready_def waiting_client_def busy_server_def)
  have st: "se_callers waiting_client = [(1, 0)]" "se_callChans waiting_client = [[]]" "se_opens waiting_client = []" "se_streams waiting_client = []"
    "se_inflight waiting_client = []" "MaxMessageBytes (se_limits waiting_client) = 4194304"
    "se_calls busy_server = []" "se_opens busy_server = []" "se_streams busy_server = []" "se_inflight busy_server = [(1, 0), (3, 1)]"
    "se_callCtxs busy_server = [None, None]" "MaxMessageBytes (se_limits busy_server) = 4194304"
    by (simp_all add: waiting_client_def busy_server_def open_server_def session_eval)
  have "r = Some (Inl (Sentinel ErrCanceled))
    \<and> se_callCtxs (receive sample_proto open_ops 0 (sent waiting_client client') busy_server) ! 0 \<noteq> None
    \<and> se_callCtxs (receive sample_proto open_ops 0 (sent waiting_client client') busy_server) ! 1 = None"
    using cancelled_call_reaches_handler[OF sample_proto_roundtrip sample_total ready, where opsS = open_ops and opsC = open_ops and now = 0 and later = 0
        and i = 1 and c = 0 and k = 0 and j = 1 and pick = True and err = "Sentinel ErrCanceled"
        and f = "\<lparr>Frame_Type = FrameCallResult, Frame_StreamID = 1, Frame_Payload = []\<rparr>", OF _ _ _ _ _ _ _ _ _ _ _ _ f refl]
    by (simp add: st cancel_sample_fits link_fits_def)
  then show ?thesis using f by blast
qed


text \<open>An open stream between two sessions whose opener gave up.\<close>

definition leaving_client :: "(unit, unit, unit) Session" where
  "leaving_client = sample_session\<lparr>se_heap := [(new_end DefaultLimits 1 ''chat'' False)\<lparr>st_ctx := Some (Sentinel ErrCanceled)\<rparr>],
     se_streams := [(1, 0)], se_followers := [(1, 0)]\<rparr>"

definition chatting_server :: "(unit, unit, unit) Session" where
  "chatting_server = open_server\<lparr>se_heap := [new_end DefaultLimits 1 ''chat'' True], se_streams := [(1, 0)]\<rparr>"


end
