(* ===== verification/Session_Probe.thy ===== *)
theory Session_Probe
  imports Session_Cancel
begin

text \<open>
  Liveness probes over a connection (\<^verbatim>\<open>probeLoop\<close>, \<^verbatim>\<open>probe\<close>, \<^verbatim>\<open>answerPing\<close>, \<^verbatim>\<open>lastResponse\<close> of
  \<^verbatim>\<open>src/infrastructure/peer/conn/dispatch.go\<close>): what a tick of the prober does, what the answer of the peer
  changes on both sides, and how a reader that waits for a slow consumer deceives the prober.
\<close>

section \<open>A tick and its answer\<close>

abbreviation pingFrame :: "bytes \<Rightarrow> Frame" where
  "pingFrame body \<equiv> \<lparr>Frame_Type = FramePing, Frame_StreamID = 0, Frame_Payload = body\<rparr>"

abbreviation pongFrame :: "bytes \<Rightarrow> Frame" where
  "pongFrame body \<equiv> \<lparr>Frame_Type = FramePong, Frame_StreamID = 0, Frame_Payload = body\<rparr>"

lemma probeLoop_ready:
  assumes "wire_ready s" "mc_marshal (pb_Ping pb) (mkPing (word_of_int now)) = Some body" "frame_fits (MaxMessageBytes (se_limits s)) (pingFrame body)"
  shows "probeLoop pb pick now later s = (let s1 = s\<lparr>se_transport := appended (frame_encode (pingFrame body)) (se_transport s)\<rparr> in
    if later - se_lastPong s > cfg_KeepAlive (se_cfg s) * keepAliveTimeout
    then session_end (Some (Sentinel ErrConnectionClosed)) (s1\<lparr>se_probing := False\<rparr>) else s1)"
  using assms by (simp add: probeLoop_def probe_def Marshal_def wire_ready_def writeFrame_accepting appended_def Let_def)

lemma receive_ping:
  assumes "wire_ready s" "proto_roundtrip pb" "frame_fits (MaxMessageBytes (se_limits s)) (pingFrame body)"
    "mc_marshal (pb_Ping pb) (mkPing n) = Some body" "mc_marshal (pb_Pong pb) (mkPong n) = Some body'"
    "frame_fits (MaxMessageBytes (se_limits s)) (pongFrame body')"
  shows "receive pb ops now (frame_encode (pingFrame body)) s = s\<lparr>se_source := (se_source s)\<lparr>src_bytes := []\<rparr>, se_lastPong := now,
    se_transport := appended (frame_encode (pongFrame body')) (se_transport s)\<rparr>"
proof -
  have "mc_unmarshal (pb_Ping pb) body = Some (mkPing n)"
    using assms(2,4) by (auto simp: proto_roundtrip_def intro: codec_roundtripD)
  then show ?thesis
    using assms(1,5,6) by (simp add: receive_frame[OF assms(1,3)] dispatch_def answerPing_def Unmarshal_def Marshal_def wire_ready_def
        writeFrame_accepting appended_def flow_of_def readLoop_continue_def)
qed

lemma receive_pong:
  assumes "wire_ready s" "frame_fits (MaxMessageBytes (se_limits s)) (pongFrame body)"
  shows "receive pb ops now (frame_encode (pongFrame body)) s = s\<lparr>se_source := (se_source s)\<lparr>src_bytes := []\<rparr>, se_lastPong := now\<rparr>"
  using assms by (simp add: receive_frame dispatch_def readLoop_continue_def wire_ready_def)

section \<open>Properties\<close>

text \<open>
  C12. The prober ends a session when the peer has been silent for longer than two intervals, and only then.
  On a tick it sends a ping. If the last response is older than that, the session ends with
  \<^verbatim>\<open>ErrConnectionClosed\<close>: nothing may be called any more and the prober stops. Otherwise the session goes on; when
  the ping reaches a peer that is up and its answer comes back, the time of the last response is renewed on both sides, and
  neither a call, a stream nor a handler is touched.
\<close>

theorem keepalive_round:
  assumes pb: "proto_roundtrip pb" and ready: "wire_ready client" "wire_ready server"
    and ping: "mc_marshal (pb_Ping pb) (mkPing (word_of_int now)) = Some body" "link_fits client server (pingFrame body)"
    and pong: "mc_marshal (pb_Pong pb) (mkPong (word_of_int now)) = Some body'" "link_fits client server (pongFrame body')"
    and tick: "client1 = probeLoop pb pick now later client"
    and arrive: "server1 = receive pb opsS arrived (sent client client1) server"
    and answer: "client2 = receive pb opsC returned (sent server server1) client1"
    and silent: "silent = (cfg_KeepAlive (se_cfg client) * 2 < later - se_lastPong client)"
  shows "(silent \<longrightarrow> usable client1 = Some (Sentinel ErrConnectionClosed) \<and> \<not> se_probing client1 \<and> se_ctx client1 \<noteq> None
        \<and> se_calls client1 = [] \<and> se_streams client1 = [] \<and> se_inflight client1 = [])
    \<and> (\<not> silent \<longrightarrow> usable client1 = None
        \<and> server1 = server\<lparr>se_source := (se_source server)\<lparr>src_bytes := []\<rparr>, se_lastPong := arrived,
            se_transport := appended (frame_encode (pongFrame body')) (se_transport server)\<rparr>
        \<and> client2 = client\<lparr>se_source := (se_source client)\<lparr>src_bytes := []\<rparr>, se_lastPong := returned,
            se_transport := appended (frame_encode (pingFrame body)) (se_transport client)\<rparr>
        \<and> wire_ready server1 \<and> wire_ready client2)"
proof -
  define c1 where "c1 = client\<lparr>se_transport := appended (frame_encode (pingFrame body)) (se_transport client)\<rparr>"
  have t: "client1 = (if silent then session_end (Some (Sentinel ErrConnectionClosed)) (c1\<lparr>se_probing := False\<rparr>) else c1)"
    using tick probeLoop_ready[OF ready(1) ping(1), of pick later] ping(2) by (simp add: link_fits_def silent c1_def Let_def)
  show ?thesis
  proof (cases silent)
    case True
    then show ?thesis using t ready(1) by (simp add: usable_def c1_def wire_ready_def end_terminal_def terminalOf_def cancel_ctx_def)
  next
    case False
    then have c1: "client1 = c1" "wire_ready c1" "se_limits c1 = se_limits client" using t ready(1) by (simp_all add: c1_def wire_ready_def)
    have s1: "server1 = server\<lparr>se_source := (se_source server)\<lparr>src_bytes := []\<rparr>, se_lastPong := arrived,
        se_transport := appended (frame_encode (pongFrame body')) (se_transport server)\<rparr>"
      using arrive receive_ping[OF ready(2) pb _ ping(1) pong(1), of opsS arrived] ping(2) pong(2)
      by (simp add: c1(1) sent_def link_fits_def) (simp add: c1_def)
    have "client2 = c1\<lparr>se_source := (se_source c1)\<lparr>src_bytes := []\<rparr>, se_lastPong := returned\<rparr>"
      using answer receive_pong[OF c1(2), of body' pb opsC returned] pong(2) by (simp add: s1 c1(1,3) sent_def link_fits_def)
    then show ?thesis using False s1 c1 ready by (simp add: usable_def c1_def wire_ready_def)
  qed
qed

text \<open>A client that probes every ten units of time, whose peer answers; and one that has been silent for too long.\<close>

definition probing_client :: "(unit, unit, unit) Session" where
  "probing_client = New (sample_cfg\<lparr>cfg_KeepAlive := 10\<rparr>) wire_transport \<lparr>src_bytes = [], src_end = Sentinel IoEOF\<rparr> () 0"

theorem keepalive_round_witness:
  "usable (probeLoop sample_proto True 20 20 probing_client) = None
    \<and> se_lastPong (receive sample_proto open_ops 21 (sent probing_client (probeLoop sample_proto True 20 20 probing_client)) open_server) = 21
    \<and> usable (probeLoop sample_proto True 30 30 probing_client) = Some (Sentinel ErrConnectionClosed)"
proof -
  have ready: "wire_ready probing_client" "wire_ready open_server"
    by (simp_all add: wire_ready_def probing_client_def open_server_def accepting_def session_eval)
  have m: "mc_marshal (pb_Ping sample_proto) (mkPing n) = Some (10 # 0 # put_be 8 n)" "mc_marshal (pb_Pong sample_proto) (mkPong n) = Some (10 # 0 # put_be 8 n)" for n
    by (simp_all add: sample_proto_def sample_bytes_codec_def)
  have fits: "link_fits probing_client open_server (pingFrame (10 # 0 # put_be 8 n))" "link_fits probing_client open_server (pongFrame (10 # 0 # put_be 8 n))" for n :: u64
    by (simp_all add: link_fits_def frame_fits_def frame_validate_def scoped_def probing_client_def open_server_def session_eval)
  have c: "cfg_KeepAlive (se_cfg probing_client) = 10" "se_lastPong probing_client = 0" by (simp_all add: probing_client_def session_eval)
  note r = keepalive_round[OF sample_proto_roundtrip ready m(1) fits(1) m(2) fits(2) refl refl refl refl]
  show ?thesis
    using r[where pick = True and now = 20 and later = 20 and opsS = open_ops and arrived = 21 and opsC = open_ops and returned = 22]
      r[where pick = True and now = 30 and later = 30 and opsS = open_ops and arrived = 31 and opsC = open_ops and returned = 32] by (simp add: c)
qed

section \<open>A slow consumer and the prober\<close>

text \<open>
  While the read loop waits for room in the queue of one stream it reads no frame, so the answers of the peer, which may
  all have arrived, do not renew the time of the last response. After two intervals the prober ends the session.
\<close>

lemma lastPong_prims [simp]:
  "se_lastPong (upd_stream r g s) = se_lastPong s" "se_lastPong (wake_reader s) = se_lastPong s" "se_lastPong (cancel_call k s) = se_lastPong s"
  "se_lastPong (discardCall i s) = se_lastPong s" "se_lastPong (discardOpen i s) = se_lastPong s" "se_lastPong (discardStream i s) = se_lastPong s"
  "se_lastPong (registerCall i k s) = se_lastPong s" "se_lastPong (registerOpen i k s) = se_lastPong s" "se_lastPong (registerStream i k s) = se_lastPong s"
  "se_lastPong (releaseInflight i s) = se_lastPong s" "se_lastPong (notifyCancelled pb i c s) = se_lastPong s" "se_lastPong (fst (allocateStreamID s)) = se_lastPong s"
  by (simp_all add: upd_stream_def wake_reader_def cancel_call_def discardCall_def discardOpen_def discardStream_def registerCall_def
      registerOpen_def registerStream_def releaseInflight_def notifyCancelled_def allocateStreamID_def Let_def split: reader_state.splits)

lemma lastPong_local:
  "Call_send body s = (s1, r1) \<Longrightarrow> se_lastPong s1 = se_lastPong s"
  "Call_finish pb pick ctx_err c s = (s2, r2) \<Longrightarrow> se_lastPong s2 = se_lastPong s"
  "OpenStream_send m body ctx_err s = (s3, r3) \<Longrightarrow> se_lastPong s3 = se_lastPong s"
  "OpenStream_finish pb pick ctx_err p s = (s4, r4) \<Longrightarrow> se_lastPong s4 = se_lastPong s"
  "se_lastPong (follow_done pb w s) = se_lastPong s" "se_lastPong (Close s) = se_lastPong s"
  "se_lastPong (caller_cancel r err s) = se_lastPong s" "se_lastPong (fst (session_Recv r s)) = se_lastPong s"
  "se_lastPong (fst (session_Send pb r msg s)) = se_lastPong s" "se_lastPong (pump pick r s) = se_lastPong s"
  by (auto simp: Call_send_def Call_finish_def OpenStream_send_def OpenStream_finish_def followStreamContext_def follow_done_def Close_def
      caller_cancel_def session_Recv_def session_Send_def pump_def allocateStreamID_def Let_def dest!: writeFrame_frame(6)
      split: prod.splits option.splits sum.splits reader_state.splits deliver_result.splits pump_action.splits)

lemma lastPong_tasks:
  "se_lastPong (probeLoop pb pick now later s) = se_lastPong s" "se_lastPong (finish_call pb ops t out s) = se_lastPong s"
  "se_lastPong (stream_served ops k out' s) = se_lastPong s" "se_lastPong (stream_closed pb k s) = se_lastPong s"
  by (auto simp: probeLoop_def probe_def finish_call_def call_reply_def stream_served_def stream_closed_def stream_settle_def Let_def
      dest!: writeFrame_frame(6) split: prod.splits option.splits sum.splits task_phase.splits progress.splits)

text \<open>No step of the session renews the time of the last response while the read loop is parked.\<close>

lemma parked_no_response:
  assumes "sess_step pb ops s s'" "se_reader s = Parked live p"
  shows "se_lastPong s' = se_lastPong s"
  using assms
proof (cases rule: sess_step.cases)
  case (step_recv r x)
  then show ?thesis using lastPong_local(8)[of r s] by simp
next
  case (step_send r m e)
  then show ?thesis using lastPong_local(9)[of pb r m s] by simp
qed (auto simp: lastPong_local lastPong_tasks readLoop_dispatch_def readLoop_resume_def)

lemma slow_consumer_ends_session:
  assumes "(\<lambda>x y. sess_step pb ops x y \<and> se_reader x = Parked live p)\<^sup>*\<^sup>* s s'" "\<not> se_ended s'" "accepting (se_transport s')"
    "0 < MaxMessageBytes (se_limits s')" "mc_marshal (pb_Ping pb) (mkPing (word_of_int now)) = Some body"
    "frame_fits (MaxMessageBytes (se_limits s')) (pingFrame body)" "cfg_KeepAlive (se_cfg s') * 2 < later - se_lastPong s"
  shows "usable (probeLoop pb True now later s') = Some (Sentinel ErrConnectionClosed)"
proof -
  have "se_lastPong s' = se_lastPong s" using assms(1) by induction (auto dest: parked_no_response)
  then show ?thesis
    using assms(2-7) by (simp add: probeLoop_def probe_def Marshal_def writeFrame_accepting usable_def end_terminal_def terminalOf_def)
qed

end
