(* ===== verification/Spec2Isabelle.thy ===== *)
theory Spec2Isabelle
  imports Facade Proto_Format Session_Traffic Session_Corners Session_Probe
begin

text \<open>
  A verification library for the Go module \<^verbatim>\<open>pluginprotocol/v3\<close>: a symmetric peer protocol in which two
  authenticated processes make unary calls and open bidirectional streams on each other over one
  connection. Paths below are relative to \<^verbatim>\<open>src\<close>.

  \<^bold>\<open>The program.\<close> An endpoint registers methods with a builder (\<^verbatim>\<open>presentation/peer/registry.go\<close>) and
  obtains a router (\<^verbatim>\<open>application/peer\<close>) that looks up, authorizes and budgets inbound invocations. It
  dials or listens (\<^verbatim>\<open>presentation/peer/endpoint.go\<close>); that resolves a security profile
  (\<^verbatim>\<open>infrastructure/peer/security\<close>), builds one of four carriers (\<^verbatim>\<open>tcp\<close>, \<^verbatim>\<open>quic\<close>, \<^verbatim>\<open>unix\<close>, \<^verbatim>\<open>pipe\<close> of
  \<^verbatim>\<open>infrastructure/peer\<close>), and the carrier establishes an authenticated connection, checked and tracked by
  a revocation manager if one is configured. On the connection runs a session (\<^verbatim>\<open>infrastructure/peer/conn\<close>):
  a read loop that dispatches frames (\<^verbatim>\<open>infrastructure/peer/codec\<close>) whose bodies are protobuf messages
  (\<^verbatim>\<open>infrastructure/peer/wire\<close>), the callers and streams of the endpoint, and the goroutines that run the
  router's handlers. Values, limits and the failure taxonomy are in \<^verbatim>\<open>domain/peer\<close>.

  \<^bold>\<open>Theories, bottom up.\<close>

  \<^item> \<^verbatim>\<open>Prelude\<close>: bytes and words, big-endian integers, Go maps as tables, bounded channels as counters, and
    the locale \<^verbatim>\<open>slot_gate\<close> of a concurrency budget. \<^verbatim>\<open>Go_Library\<close>: the pure standard-library functions
    the security code uses (hex, decimal integers, white space, host and port).
  \<^item> \<^verbatim>\<open>Peer_Domain\<close>: \<^verbatim>\<open>domain/peer\<close>. Errors are a datatype with the sentinels, wrapping and joining, so that
    \<^verbatim>\<open>errors.Is\<close> is a function; limits and their defaults; status codes and both directions of the mapping
    to errors, with its round trip and its faithfulness.
  \<^item> \<^verbatim>\<open>Wire\<close> and \<^verbatim>\<open>Codec\<close>: the messages with their accessors, the framing, \<^verbatim>\<open>ReadFrame\<close> over a byte source and \<^verbatim>\<open>WriteFrame\<close> over
    a sink that may write partially or fail (locale \<^verbatim>\<open>byte_sink\<close>). Round trips of a frame and of a
    sequence, exactness, every error, the bound checked before the body is read, and what can be on the
    wire after a failed write.
  \<^item> \<^verbatim>\<open>Handler_Port\<close>, \<^verbatim>\<open>Registry\<close>, \<^verbatim>\<open>Router\<close>: the port between engine and application as a record of
    operations with the locale \<^verbatim>\<open>handler_port\<close>, which the router is shown to keep; registration, lookup,
    authorization, budgets, panics. When an invocation succeeds, that unauthorized peers reach no
    handler, and that no outcome leaks capacity under any interleaving.
  \<^item> \<^verbatim>\<open>Conn_Stream\<close>, \<^verbatim>\<open>Conn_Session\<close>: streams and sessions of \<^verbatim>\<open>infrastructure/peer/conn\<close>. A session is one
    record: the fields of the struct, a store for each kind of shared object, and the goroutines with the
    place each is at. An operation is atomic up to the point where its goroutine can wait and is cut there;
    \<^verbatim>\<open>Session_Safety\<close> makes every piece a rule of the relation \<^verbatim>\<open>sess_step\<close>, so a reachable state is one that
    some interleaving reaches. \<^verbatim>\<open>Session_Effects\<close> says what the shared pieces change, \<^verbatim>\<open>Session_Safety\<close> and
    \<^verbatim>\<open>Session_Waiters\<close> hold the invariants and \<^verbatim>\<open>Session_Steps\<close> their preservation by each piece;
    \<^verbatim>\<open>Session_Properties\<close> what follows: budgets,
    settlements that never block the read loop, unique stream IDs, nobody left waiting after the end.
  \<^item> \<^verbatim>\<open>Session_Wire\<close>: two sessions and a router composed. A call over the wire implements the in-process
    call of the router, up to the class of an error; and three corner cases of the dispatch.
    \<^verbatim>\<open>Proto_Format\<close> instantiates the protobuf runtime with the proto3 encoding that the struct tags of
    \<^verbatim>\<open>peer.pb.go\<close> describe, proves the hypotheses on the runtime for it and bounds the length of the bodies, so
    that a call over the wire is shown down to the bytes (locale \<^verbatim>\<open>message_runtime\<close>).
  \<^item> \<^verbatim>\<open>Session_Channels\<close>, \<^verbatim>\<open>Session_Link\<close>, \<^verbatim>\<open>Session_Open\<close>, \<^verbatim>\<open>Session_Traffic\<close>: the streams of two connected
    sessions. The specification is one queue for each stream and direction, with a mark for its end.
    \<^verbatim>\<open>Session_Channels\<close> relates one direction of a link to it, step by step, for a sender and for a receiver
    (what is in the outbound queue, on the wire, held or parked by the read loop, and in the inbound queue,
    is the content of the queue); \<^verbatim>\<open>Session_Link\<close> puts both directions together as the relation \<^verbatim>\<open>link_step\<close>
    of two applications, pumps, read loops and the connection, labelled with what the applications see,
    and shows the simulation; \<^verbatim>\<open>Session_Open\<close> that opening a stream over the wire follows the decision
    of the serving handler and adds a linked pair of ends; \<^verbatim>\<open>Session_Traffic\<close> that the messages of a
    stream arrive in order and complete, independently of the other streams, and that an accepted message
    can always be received, by a measure of the work left on the link. The runs of a link have no
    cancellation, no terminal frame and no failure of the connection; those are steps of \<^verbatim>\<open>sess_step\<close>, and
    cancellation between two sessions is in \<^verbatim>\<open>Session_Cancel\<close>.
  \<^item> \<^verbatim>\<open>Session_Tasks\<close> and \<^verbatim>\<open>Session_Drain\<close>: what the goroutines wait for; \<^verbatim>\<open>Wait\<close>, as the condition that no goroutine of the session is left, and that an ended
    session gets there from every state.
  \<^item> \<^verbatim>\<open>Session_Cancel\<close> and \<^verbatim>\<open>Session_Probe\<close>: two more protocols between two sessions. A caller that gives up
    cancels the one handler or stream it belongs to, and what is still on its way is dropped; a probe and its
    answer renew the liveness of both sides, and silence beyond two intervals ends the session.
    \<^verbatim>\<open>Session_Corners\<close>: cases in which one invocation affects more than itself, holds its slot or waits for nothing.
  \<^item> \<^verbatim>\<open>Revocation\<close>: \<^verbatim>\<open>security/revocation.go\<close>. The manager's operations are functions of its state, as each
    runs under the mutex; around it a world of tracked connections, fences and timers with the relation
    \<^verbatim>\<open>rev_step\<close> of everything that can happen next. \<^verbatim>\<open>Revocation_Facts\<close> and \<^verbatim>\<open>Revocation_Safety\<close> hold the
    lemmas on each loop and the invariant; \<^verbatim>\<open>Revocation_Properties\<close> that revoked certificates stay refused,
    the checkpoint only moves forward, verification equals its specification, changed bundles and expired
    ones fence every connection, and what the digests bind.
  \<^item> \<^verbatim>\<open>Security\<close>: \<^verbatim>\<open>security/identity.go\<close> and \<^verbatim>\<open>security/profile.go\<close>. Profiles exist exactly for complete
    credentials; which peers and endpoints a profile accepts.
  \<^item> \<^verbatim>\<open>Carrier_Port\<close> and \<^verbatim>\<open>Carrier_TCP\<close>, \<^verbatim>\<open>Carrier_Quic\<close>, \<^verbatim>\<open>Carrier_Unix\<close>, \<^verbatim>\<open>Carrier_Pipe\<close>: the handshake and
    the accept loop the carriers share, the locale \<^verbatim>\<open>carrier_port\<close> with the contract of one attempt to
    establish a session, and its interpretations on dialing and accepting of each carrier. The Unix
    carrier's treatment of the socket file and the pipe carrier's rendezvous of loop and callers have
    properties of their own.
  \<^item> \<^verbatim>\<open>Facade\<close>: \<^verbatim>\<open>presentation/peer\<close>. That no configuration degrades to a weaker session, that bad peers do
    not stop a listener, and that a server reports itself truthfully.

  \<^bold>\<open>Conventions.\<close> Integers of fixed width are words where they can wrap (stream IDs, the timer
  generation, frame lengths, status codes); lengths and limits are integers. A nil pointer is \<^term>\<open>None\<close>. A
  fallible function returns a sum with the error on the left. Loops are structural recursion, or a
  function with a measure (\<^verbatim>\<open>writeAll\<close>, trimming); fuel appears only in the decoder of \<^verbatim>\<open>Proto_Format\<close>: ten bytes for
  a varint, which is the bound of the format, and the length of a body for its fields, each of which takes a byte. A loop that waits for the outside
  world (the accept loops, \<^verbatim>\<open>Sessions\<close>) recurses over the list of what happens to it, of any length, and
  reports that it waits when the list ends. Each operation sees one instant of the clock. A \<^verbatim>\<open>select\<close> with
  several ready branches is a choice \<open>pick\<close> or several rules of a relation.

  \<^bold>\<open>Parameters.\<close> Code outside the repository is an argument: the protobuf runtime (\<^verbatim>\<open>proto\<close>, with its round
  trip, its framing and its totality on failure notices as named hypotheses where they are used; \<^verbatim>\<open>Proto_Format\<close> proves them
  for the proto3 encoding, without the deprecated groups),
  X.509, CRLs and SHA-256 (\<^verbatim>\<open>pki\<close>, with the length of a digest as the hypothesis \<^verbatim>\<open>sha256_sized\<close>), URL and
  address parsing and the resolver (\<^verbatim>\<open>host\<close>), sockets and TLS (\<^verbatim>\<open>carrier_io\<close>), \<^verbatim>\<open>quic-go\<close> (\<^verbatim>\<open>quic_io\<close>), the file
  system (\<^verbatim>\<open>unix_fs\<close>), \<^verbatim>\<open>go-winio\<close> and the process token, and the consumer's handlers and authorizer. The
  witnesses instantiate them with concrete functions.

  \<^bold>\<open>Not modelled.\<close> The rules of \<^verbatim>\<open>sync.WaitGroup\<close> on reuse (\<^verbatim>\<open>Wait\<close> is a condition on the state); the
  write deadlines and the five-second bound with which \<^verbatim>\<open>fenceLocked\<close> limits how long its caller waits; the
  texts of wrapped errors beyond what tells them apart; the reflection methods and the descriptor of
  \<^verbatim>\<open>peer.pb.go\<close>, which only hand the message types to the protobuf runtime; tests and fixtures.
\<close>

end
